(* ===== verification/Rtc_Error.thy ===== *)
theory Rtc_Error
  imports Main
begin

text \<open>The error values of the development: the variants of
\<open>rtc_shared::error::Error\<close> (\<open>rtc-shared/src/error.rs\<close>) that the modelled
functions return. Payloads that only feed the printed message are dropped.
The variants of the media and data channel crates are a datatype of their own,
nested in the other.\<close>

datatype (plugins only: code size) media_error =
    ErrBufferTooSmall
  | ErrExceededMaxPackets
  | ErrFailedToVerifyAuthTag
  | ErrHeaderExtensionNotFound
  | ErrHeaderExtensionsNotEnabled
  | ErrHeaderSizeInsufficient
  | ErrHeaderSizeInsufficientForExtension
  | ErrRfc3550headerIdrange
  | ErrRfc8285oneByteHeaderIdrange
  | ErrRfc8285oneByteHeaderSize
  | ErrRfc8285twoByteHeaderIdrange
  | ErrRfc8285twoByteHeaderSize
  | ErrShortPacket
  | ErrTooShortRtcp
  | ErrTooShortRtp
  | BadVersion
  | BufferTooShort
  | HeaderExtensionPayloadNot32BitWords
  | InvalidHeader
  | InvalidMasterKeyLength
  | InvalidMasterSaltLength
  | PacketTooShort
  | RtcpFailedToVerifyAuthTag
  | RtcpInvalidLengthAuthTag
  | RtpFailedToVerifyAuthTag
  | SrtcpSsrcDuplicated
  | SrtcpTooSmall
  | SrtpMasterKeyLength
  | SrtpSaltLength
  | SrtpSsrcDuplicated
  | SrtpTooSmall
  | UnsupportedIndexOverKdr
  | UnsupportedOutLength
  | InvalidMessageType
  | InvalidChannelType
  | InvalidPayloadProtocolIdentifier
  | UnexpectedEndOfBuffer
  | HandshakeInProgress
  | ContextUnsupported
  | ReservedExportKeyingMaterial
  | CipherSuiteUnset
  | Hash
  | ErrNoSuchSrtpProfile
  | Other

datatype (plugins only: code size) error =
    ErrChunkHeaderInvalidLength
  | ErrChunkHeaderNotEnoughSpace
  | ErrChunkHeaderPaddingNonZero
  | ErrChunkHeaderTooSmall
  | ErrChunkPayloadSmall
  | ErrChunkReconfigInvalidParamA
  | ErrChunkTooShort
  | ErrChunkTypeInitFlagZero
  | ErrChunkTypeInitInitiateTagZero
  | ErrChunkTypeInitUnmarshalFailed
  | ErrChunkTypeNotAbort
  | ErrChunkTypeNotCookieAck
  | ErrChunkTypeNotCookieEcho
  | ErrChunkTypeNotCt
  | ErrChunkTypeNotForwardTsn
  | ErrChunkTypeNotHeartbeat
  | ErrChunkTypeNotHeartbeatAck
  | ErrChunkTypeNotPayloadData
  | ErrChunkTypeNotReconfig
  | ErrChunkTypeNotSack
  | ErrChunkTypeNotShutdown
  | ErrChunkTypeNotShutdownAck
  | ErrChunkTypeNotShutdownComplete
  | ErrChunkTypeNotTypeInit
  | ErrChunkTypeUnhandled
  | ErrChunkUnmarshalPayloadData
  | ErrChunkUnmarshalSack
  | ErrChunkUnmarshalShutdown
  | ErrChunkValueNotLongEnough
  | ErrChecksumMismatch
  | ErrCookieEchoNotStoredToSend
  | ErrErrorCauseTooSmall
  | ErrHandleInitState
  | ErrHandshakeCookieEcho
  | ErrHandshakeInitAck
  | ErrHeartbeatAckNotHeartbeatInfo
  | ErrHeartbeatAckParams
  | ErrHeartbeatNotLongEnoughInfo
  | ErrHeartbeatParam
  | ErrAbortChunk
  | ErrInflightQueueTsnPop
  | ErrInitAckNoCookie
  | ErrInitAdvertisedReceiver1500
  | ErrInitChunkBundled
  | ErrInitChunkVerifyTagNotZero
  | ErrInitInboundStreamRequestZero
  | ErrInitNotStoredToSend
  | ErrInitOutboundStreamRequestZero
  | ErrInvalidAlgorithmType
  | ErrInvalidChunkSize
  | ErrOutboundPacketTooLarge
  | ErrPacketRawTooSmall
  | ErrParamHeaderTooShort
  | ErrParamTypeUnexpected
  | ErrParamTypeUnhandled
  | ErrParameterType
  | ErrParseSctpChunkNotEnoughData
  | ErrPayloadDataStateNotExist
  | ErrReconfigRespParamTooShort
  | ErrResetPacketInStateNotExist
  | ErrSackSizeNotLargeEnoughInfo
  | ErrSctpPacketDestinationPortZero
  | ErrSctpPacketSourcePortZero
  | ErrShortBuffer
  | ErrShutdownNonEstablished
  | ErrSsnResetRequestParamTooShort
  | ErrStreamAlreadyExist
  | ErrStreamClosed
  | ErrStreamCreateFailed
  | ErrStreamNotExisted
  | ErrTsnRequestNotExist
  | ErrUnmarshalReconfigRespParam
  | ErrUnmarshalUnknownChunkType
  | Media media_error

end
