(* ===== verification/Rtc_Prelude.thy ===== *)
theory Rtc_Prelude
  imports Rtc_Error "HOL-Library.Word" "HOL-Library.AList"
begin

text \<open>Shared vocabulary of the development: the machine integers of the Rust
sources, byte strings and their big-endian reads and writes, the result type in
which every early return and every panic of the code is a value, and the generic
facts on lists and association lists that the component theories rest on.

Integers keep their width. Arithmetic on \<open>u8\<close>, \<open>u16\<close>, \<open>u32\<close> and \<open>u64\<close>
wraps, which is what the release build of the workspace does (the Cargo profile
does not turn overflow checks on). A \<open>usize\<close> that counts bytes or elements
held in memory is a natural number; the component invariants show that the
subtractions made on those counters never go below zero.\<close>

unbundle bit_operations_syntax

section \<open>Machine integers and byte strings\<close>

type_synonym u8 = "8 word"
type_synonym u16 = "16 word"
type_synonym u32 = "32 word"
type_synonym u64 = "64 word"
type_synonym bytes = "u8 list"

text \<open>\<open>std::time::Instant\<close>: nanoseconds on the monotonic clock.\<close>

type_synonym instant = nat

text \<open>Collections used throughout the development: the equations of the codec
primitives, and the facts that unfold the result monad.\<close>

named_theorems codec_simps \<open>equations of byte readers and writers\<close>
named_theorems result_simps \<open>equations of the result combinators\<close>

section \<open>Results: errors and panics as values\<close>

text \<open>A Rust function that returns \<open>Result<T>\<close> and may also panic (a slice out of
range, a buffer read past its end).\<close>

datatype fault = Err error | Panic

type_synonym 'a result = "fault + 'a"

abbreviation Ok :: "'a \<Rightarrow> 'a result" where
  "Ok \<equiv> Inr"

abbreviation Fail :: "error \<Rightarrow> 'a result" where
  "Fail e \<equiv> Inl (Err e)"

abbreviation panic :: "'a result" where
  "panic \<equiv> Inl Panic"

text \<open>The question mark operator.\<close>

fun and_then :: "'a result \<Rightarrow> ('a \<Rightarrow> 'b result) \<Rightarrow> 'b result" where
  "and_then (Inl f) k = Inl f"
| "and_then (Inr x) k = k x"

lemma and_then_cong [fundef_cong]:
  "r = r' \<Longrightarrow> (\<And>x. r' = Inr x \<Longrightarrow> k x = k' x) \<Longrightarrow> and_then r k = and_then r' k'"
  by (cases r') auto

fun is_ok :: "'a result \<Rightarrow> bool" where
  "is_ok (Inl f) = False"
| "is_ok (Inr x) = True"

fun no_panic :: "'a result \<Rightarrow> bool" where
  "no_panic (Inl Panic) = False"
| "no_panic r = True"

definition guard :: "bool \<Rightarrow> error \<Rightarrow> 'a result \<Rightarrow> 'a result" where
  "guard bad e k = (if bad then Fail e else k)"

lemma and_then_Ok_iff [result_simps]:
  "and_then r k = Inr y \<longleftrightarrow> (\<exists>x. r = Inr x \<and> k x = Inr y)"
  by (cases r) auto

lemma guard_Ok_iff [result_simps]: "guard b e k = Inr y \<longleftrightarrow> \<not> b \<and> k = Inr y"
  by (simp add: guard_def)

lemma no_panic_and_then:
  "no_panic r \<Longrightarrow> (\<And>x. r = Inr x \<Longrightarrow> no_panic (k x)) \<Longrightarrow> no_panic (and_then r k)"
proof (cases r)
  case (Inl f) then show "no_panic r \<Longrightarrow> no_panic (and_then r k)" by (cases f) auto
qed simp

lemma no_panic_guard: "(\<not> b \<Longrightarrow> no_panic k) \<Longrightarrow> no_panic (guard b e k)"
  by (simp add: guard_def)

lemma no_panic_Inl [simp]: "no_panic (Inl f) \<longleftrightarrow> f \<noteq> Panic"
  by (cases f) auto

lemma no_panic_iff: "no_panic r \<longleftrightarrow> r \<noteq> Inl Panic"
  by (cases r rule: no_panic.cases) auto

section \<open>Big-endian reads and writes\<close>

definition be16 :: "u16 \<Rightarrow> bytes" where
  "be16 w = [ucast (drop_bit 8 w), ucast w]"

definition be32 :: "u32 \<Rightarrow> bytes" where
  "be32 w = [ucast (drop_bit 24 w), ucast (drop_bit 16 w), ucast (drop_bit 8 w), ucast w]"

definition of_be16 :: "u8 \<Rightarrow> u8 \<Rightarrow> u16" where
  "of_be16 a b = push_bit 8 (ucast a) OR ucast b"

definition of_be32 :: "u8 \<Rightarrow> u8 \<Rightarrow> u8 \<Rightarrow> u8 \<Rightarrow> u32" where
  "of_be32 a b c d =
     push_bit 24 (ucast a) OR push_bit 16 (ucast b) OR push_bit 8 (ucast c) OR ucast d"

text \<open>\<open>Buf::get_u8\<close>, \<open>get_u16\<close>, \<open>get_u32\<close>: read from the front and advance; the
\<open>bytes\<close> crate panics when fewer bytes remain.\<close>

fun get_u8 :: "bytes \<Rightarrow> (u8 \<times> bytes) result" where
  "get_u8 (a # r) = Ok (a, r)"
| "get_u8 [] = panic"

fun get_u16 :: "bytes \<Rightarrow> (u16 \<times> bytes) result" where
  "get_u16 (a # b # r) = Ok (of_be16 a b, r)"
| "get_u16 _ = panic"

fun get_u32 :: "bytes \<Rightarrow> (u32 \<times> bytes) result" where
  "get_u32 (a # b # c # d # r) = Ok (of_be32 a b c d, r)"
| "get_u32 _ = panic"

text \<open>\<open>raw.slice(a..b)\<close> and \<open>&raw[a..b]\<close>.\<close>

definition slice :: "bytes \<Rightarrow> nat \<Rightarrow> nat \<Rightarrow> bytes result" where
  "slice raw a b = (if a \<le> b \<and> b \<le> length raw then Ok (take (b - a) (drop a raw)) else panic)"

text \<open>Bounded loops that read a fixed number of integers.\<close>

primrec get_u16s :: "nat \<Rightarrow> bytes \<Rightarrow> (u16 list \<times> bytes) result" where
  "get_u16s 0 r = Ok ([], r)"
| "get_u16s (Suc n) r =
     and_then (get_u16 r) (\<lambda>(x, r). and_then (get_u16s n r) (\<lambda>(xs, r). Ok (x # xs, r)))"

primrec get_u32s :: "nat \<Rightarrow> bytes \<Rightarrow> (u32 list \<times> bytes) result" where
  "get_u32s 0 r = Ok ([], r)"
| "get_u32s (Suc n) r =
     and_then (get_u32 r) (\<lambda>(x, r). and_then (get_u32s n r) (\<lambda>(xs, r). Ok (x # xs, r)))"

lemma bit_u8_high: "8 \<le> n \<Longrightarrow> \<not> bit (w :: u8) n"
  by (auto dest: bit_imp_le_length)

lemma of_be16_be16 [codec_simps]: "of_be16 (ucast (drop_bit 8 w)) (ucast w) = w"
  unfolding of_be16_def by (rule bit_word_eqI) (auto simp: bit_simps)

lemma of_be32_be32 [codec_simps]:
  "of_be32 (ucast (drop_bit 24 w)) (ucast (drop_bit 16 w)) (ucast (drop_bit 8 w)) (ucast w) = w"
proof (rule bit_word_eqI)
  fix n assume "n < LENGTH(32)"
  then consider "n < 8" | "8 \<le> n" "n < 16" | "16 \<le> n" "n < 24" | "24 \<le> n" "n < 32"
    by fastforce
  then show "bit (of_be32 (ucast (drop_bit 24 w)) (ucast (drop_bit 16 w))
      (ucast (drop_bit 8 w)) (ucast w)) n = bit w n"
    by cases (auto simp: of_be32_def bit_simps)
qed

lemma be16_of_be16 [codec_simps]: "be16 (of_be16 a b) = [a, b]"
  unfolding be16_def of_be16_def
  by (auto intro!: bit_word_eqI simp: bit_simps bit_u8_high)

lemma be32_of_be32 [codec_simps]: "be32 (of_be32 a b c d) = [a, b, c, d]"
  unfolding be32_def of_be32_def
  by (auto intro!: bit_word_eqI simp: bit_simps bit_u8_high)

lemma length_be16 [simp]: "length (be16 w) = 2"
  by (simp add: be16_def)

lemma length_be32 [simp]: "length (be32 w) = 4"
  by (simp add: be32_def)

lemma get_u16_be16 [codec_simps]: "get_u16 (be16 w @ r) = Ok (w, r)"
  by (simp add: be16_def of_be16_be16)

lemma get_u32_be32 [codec_simps]: "get_u32 (be32 w @ r) = Ok (w, r)"
  by (simp add: be32_def of_be32_be32)

lemma get_u8_ok: "1 \<le> length r \<Longrightarrow> \<exists>x. get_u8 r = Ok (x, drop 1 r)"
  by (cases r) auto

lemma get_u16_ok: "2 \<le> length r \<Longrightarrow> \<exists>x. get_u16 r = Ok (x, drop 2 r)"
  by (cases r rule: get_u16.cases) auto

lemma get_u32_ok: "4 \<le> length r \<Longrightarrow> \<exists>x. get_u32 r = Ok (x, drop 4 r)"
  by (cases r rule: get_u32.cases) auto

lemma get_u16_at: "n + 2 \<le> length r \<Longrightarrow> \<exists>x. get_u16 (drop n r) = Ok (x, drop (n + 2) r)"
  using get_u16_ok [of "drop n r"] by (auto simp: add.commute)

lemma get_u32_at: "n + 4 \<le> length r \<Longrightarrow> \<exists>x. get_u32 (drop n r) = Ok (x, drop (n + 4) r)"
  using get_u32_ok [of "drop n r"] by (auto simp: add.commute)

lemma get_u16_Ok_iff:
  "get_u16 r = Inr (w, rest) \<longleftrightarrow> r = be16 w @ rest"
proof (cases r rule: get_u16.cases)
  case (1 a b r')
  have "be16 (of_be16 a b) = [a, b]" by (rule be16_of_be16)
  with 1 show ?thesis by (auto simp: be16_def of_be16_be16)
qed (auto simp: be16_def)

lemma get_u32_Ok_iff:
  "get_u32 r = Inr (w, rest) \<longleftrightarrow> r = be32 w @ rest"
proof (cases r rule: get_u32.cases)
  case (1 a b c d r')
  have "be32 (of_be32 a b c d) = [a, b, c, d]" by (rule be32_of_be32)
  with 1 show ?thesis by (auto simp: be32_def of_be32_be32)
qed (auto simp: be32_def)

lemma get_u16s_be16 [codec_simps]:
  "get_u16s (length xs) (concat (map be16 xs) @ r) = Ok (xs, r)"
  by (induction xs) (simp_all add: get_u16_be16)

lemma get_u32s_be32 [codec_simps]:
  "get_u32s (length xs) (concat (map be32 xs) @ r) = Ok (xs, r)"
  by (induction xs) (simp_all add: get_u32_be32)

lemma get_u16s_ok: "2 * n \<le> length r \<Longrightarrow> \<exists>xs. length xs = n \<and> get_u16s n r = Ok (xs, drop (2 * n) r)"
proof (induction n arbitrary: r)
  case (Suc n)
  have le: "2 * n \<le> length (drop 2 r)" using Suc.prems by simp
  obtain x where x: "get_u16 r = Ok (x, drop 2 r)" using get_u16_ok [of r] Suc.prems by auto
  obtain xs where "length xs = n" "get_u16s n (drop 2 r) = Ok (xs, drop (2 * n) (drop 2 r))"
    using Suc.IH [of "drop 2 r"] le by blast
  then show ?case using x by (intro exI [of _ "x # xs"]) (simp add: add.commute)
qed simp

lemma get_u32s_ok: "4 * n \<le> length r \<Longrightarrow> \<exists>xs. length xs = n \<and> get_u32s n r = Ok (xs, drop (4 * n) r)"
proof (induction n arbitrary: r)
  case (Suc n)
  have le: "4 * n \<le> length (drop 4 r)" using Suc.prems by simp
  obtain x where x: "get_u32 r = Ok (x, drop 4 r)" using get_u32_ok [of r] Suc.prems by auto
  obtain xs where "length xs = n" "get_u32s n (drop 4 r) = Ok (xs, drop (4 * n) (drop 4 r))"
    using Suc.IH [of "drop 4 r"] le by blast
  then show ?case using x by (intro exI [of _ "x # xs"]) (simp add: add.commute)
qed simp

lemma length_concat_be16 [simp]: "length (concat (map be16 xs)) = 2 * length xs"
  by (induction xs) simp_all

lemma length_concat_be32 [simp]: "length (concat (map be32 xs)) = 4 * length xs"
  by (induction xs) simp_all

lemma slice_prefix [codec_simps]: "slice (a @ b) 0 (length a) = Ok a"
  by (simp add: slice_def)

lemma slice_middle [codec_simps]:
  "n = length a \<Longrightarrow> m = length a + length b \<Longrightarrow> slice (a @ b @ c) n m = Ok b"
  by (simp add: slice_def)

lemma slice_suffix [codec_simps]:
  "n = length a \<Longrightarrow> m = length a + length b \<Longrightarrow> slice (a @ b) n m = Ok b"
  using slice_middle [of n a m b "[]"] by simp

lemma unat_of_nat_u16: "n < 65536 \<Longrightarrow> unat (of_nat n :: u16) = n"
  by (simp add: unat_of_nat)

lemma unat_of_nat_u32: "n < 4294967296 \<Longrightarrow> unat (of_nat n :: u32) = n"
  by (simp add: unat_of_nat)

lemma slice_ok [codec_simps]:
  "a \<le> b \<Longrightarrow> b \<le> length raw \<Longrightarrow> slice raw a b = Ok (take (b - a) (drop a raw))"
  by (simp add: slice_def)

section \<open>Lists and association lists\<close>

definition insert_at :: "nat \<Rightarrow> 'a \<Rightarrow> 'a list \<Rightarrow> 'a list" where
  "insert_at i x xs = take i xs @ x # drop i xs"

text \<open>\<open>partition_point\<close> returns the length of the longest prefix on which the
predicate holds (on a slice partitioned by it).\<close>

definition partition_point :: "('a \<Rightarrow> bool) \<Rightarrow> 'a list \<Rightarrow> nat" where
  "partition_point P xs = length (takeWhile P xs)"

lemma set_insert_at [simp]: "set (insert_at i x xs) = insert x (set xs)"
  unfolding insert_at_def
  by (metis Un_insert_right append_take_drop_id list.simps(15) set_append)

lemma length_insert_at [simp]: "length (insert_at i x xs) = Suc (length xs)"
  unfolding insert_at_def by simp

lemma distinct_insert_at [simp]:
  "distinct (insert_at i x xs) \<longleftrightarrow> distinct xs \<and> x \<notin> set xs"
proof -
  have "distinct (insert_at i x xs) \<longleftrightarrow> distinct (x # take i xs @ drop i xs)"
    unfolding insert_at_def by (auto simp del: append_take_drop_id)
  then show ?thesis by (simp only: append_take_drop_id) auto
qed

lemma insert_at_partition_point:
  "insert_at (partition_point P xs) x xs = takeWhile P xs @ x # dropWhile P xs"
  unfolding insert_at_def partition_point_def
  by (simp add: takeWhile_eq_take [symmetric] dropWhile_eq_drop [symmetric])

lemma sum_list_map_update_other:
  "k \<notin> fst ` set al \<Longrightarrow>
   sum_list (map (f \<circ> snd) (AList.update k v al)) = sum_list (map (f \<circ> snd) al) + (f v :: nat)"
  by (induction al) (auto)

lemma sum_list_map_update_same:
  "distinct (map fst al) \<Longrightarrow> map_of al k = Some u \<Longrightarrow>
   sum_list (map (f \<circ> snd) (AList.update k v al)) + f u = sum_list (map (f \<circ> snd) al) + (f v :: nat)"
  by (induction al) (auto simp: ac_simps)

lemma sum_list_map_delete:
  "distinct (map fst al) \<Longrightarrow> map_of al k = Some u \<Longrightarrow>
   sum_list (map (f \<circ> snd) (AList.delete k al)) + f u = sum_list (map (f \<circ> snd) al :: nat list)"
proof (induction al)
  case (Cons p al)
  then show ?case
    by (cases "fst p = k") (auto simp: image_iff ac_simps)
qed simp

lemma length_delete_alist:
  "distinct (map fst al) \<Longrightarrow> map_of al k = Some u \<Longrightarrow>
   Suc (length (AList.delete k al)) = length al"
proof (induction al)
  case (Cons p al)
  then show ?case
    by (cases "fst p = k") (auto simp: image_iff)
qed simp

lemma map_of_ge_sum:
  "map_of al k = Some u \<Longrightarrow> f u \<le> (sum_list (map (f \<circ> snd) al) :: nat)"
  by (induction al) (auto split: if_splits)

lemma set_update_cases:
  "(t, c) \<in> set (AList.update k v al) \<Longrightarrow> (t = k \<and> c = v) \<or> (t, c) \<in> set al"
  by (induction al) (auto split: if_splits)

lemma set_delete_subset: "set (AList.delete k al) \<subseteq> set al"
  by (auto simp: AList.delete_eq)

lemma keys_update [simp]: "fst ` set (AList.update k v al) = insert k (fst ` set al)"
  using dom_update [of k v al] by (simp add: dom_map_of_conv_image_fst)

lemma keys_delete [simp]: "fst ` set (AList.delete k al) = fst ` set al - {k}"
  using delete_keys [of k al] by (auto simp: AList.delete_eq)

end
