(* ===== verification/Sctp_Param.thy ===== *)
theory Sctp_Param
  imports Rtc_Prelude
begin

text \<open>The parameters of INIT, HEARTBEAT and RE-CONFIG chunks
(\<open>rtc-sctp/src/param\<close>): one constructor of \<open>param\<close> per implementation of the
\<open>Param\<close> trait, one \<open>_unmarshal\<close> and one \<open>_marshal\<close> per file, and \<open>build_param\<close>
which dispatches on the type field. The theory shows that building a parameter
never panics, whatever the bytes, and that it inverts marshalling.\<close>

section \<open>Parameter types and the header\<close>

datatype param_type =
    HeartbeatInfo | Ipv4Addr | Ipv6Addr | StateCookie | UnrecognizedParam
  | CookiePreservative | HostNameAddr | SupportedAddrTypes | OutSsnResetReq
  | IncSsnResetReq | SsnTsnResetReq | ReconfigResp | AddOutStreamsReq
  | AddIncStreamsReq | Random | ChunkList | ReqHmacAlgo | Padding | SupportedExt
  | ForwardTsnSupp | AddIpAddr | DelIpaddr | ErrClauseInd | SetPriAddr
  | SuccessInd | AdaptLayerInd | UnknownParam u16

definition param_type_of :: "u16 \<Rightarrow> param_type" where
  "param_type_of v =
    (if v = 1 then HeartbeatInfo
     else if v = 5 then Ipv4Addr
     else if v = 6 then Ipv6Addr
     else if v = 7 then StateCookie
     else if v = 8 then UnrecognizedParam
     else if v = 9 then CookiePreservative
     else if v = 11 then HostNameAddr
     else if v = 12 then SupportedAddrTypes
     else if v = 13 then OutSsnResetReq
     else if v = 14 then IncSsnResetReq
     else if v = 15 then SsnTsnResetReq
     else if v = 16 then ReconfigResp
     else if v = 17 then AddOutStreamsReq
     else if v = 18 then AddIncStreamsReq
     else if v = 32770 then Random
     else if v = 32771 then ChunkList
     else if v = 32772 then ReqHmacAlgo
     else if v = 32773 then Padding
     else if v = 32776 then SupportedExt
     else if v = 49152 then ForwardTsnSupp
     else if v = 49153 then AddIpAddr
     else if v = 49154 then DelIpaddr
     else if v = 49155 then ErrClauseInd
     else if v = 49156 then SetPriAddr
     else if v = 49157 then SuccessInd
     else UnknownParam v)"

fun param_type_code :: "param_type \<Rightarrow> u16" where
  "param_type_code HeartbeatInfo = 1"
| "param_type_code Ipv4Addr = 5"
| "param_type_code Ipv6Addr = 6"
| "param_type_code StateCookie = 7"
| "param_type_code UnrecognizedParam = 8"
| "param_type_code CookiePreservative = 9"
| "param_type_code HostNameAddr = 11"
| "param_type_code SupportedAddrTypes = 12"
| "param_type_code OutSsnResetReq = 13"
| "param_type_code IncSsnResetReq = 14"
| "param_type_code SsnTsnResetReq = 15"
| "param_type_code ReconfigResp = 16"
| "param_type_code AddOutStreamsReq = 17"
| "param_type_code AddIncStreamsReq = 18"
| "param_type_code Random = 32770"
| "param_type_code ChunkList = 32771"
| "param_type_code ReqHmacAlgo = 32772"
| "param_type_code Padding = 32773"
| "param_type_code SupportedExt = 32776"
| "param_type_code ForwardTsnSupp = 49152"
| "param_type_code AddIpAddr = 49153"
| "param_type_code DelIpaddr = 49154"
| "param_type_code ErrClauseInd = 49155"
| "param_type_code SetPriAddr = 49156"
| "param_type_code SuccessInd = 49157"
| "param_type_code AdaptLayerInd = 49158"
| "param_type_code (UnknownParam v) = v"

definition PARAM_HEADER_LENGTH :: nat where
  "PARAM_HEADER_LENGTH = 4"

record param_header =
  ph_typ :: param_type
  ph_value_length :: u16

definition param_header_unmarshal :: "bytes \<Rightarrow> param_header result" where
  "param_header_unmarshal raw =
     guard (length raw < PARAM_HEADER_LENGTH) ErrParamHeaderTooShort
       (and_then (get_u16 raw) (\<lambda>(typ, r).
        and_then (get_u16 r) (\<lambda>(len, _).
        guard (unat len < PARAM_HEADER_LENGTH \<or> length raw < unat len) ErrParamHeaderTooShort
          (Ok \<lparr>ph_typ = param_type_of typ,
               ph_value_length = of_nat (unat len - PARAM_HEADER_LENGTH)\<rparr>))))"

definition param_header_marshal :: "param_header \<Rightarrow> bytes" where
  "param_header_marshal h =
     be16 (param_type_code (ph_typ h)) @ be16 (ph_value_length h + of_nat PARAM_HEADER_LENGTH)"

text \<open>\<open>raw.slice(PARAM_HEADER_LENGTH..PARAM_HEADER_LENGTH + header.value_length())\<close>.\<close>

definition param_body :: "bytes \<Rightarrow> param_header \<Rightarrow> bytes result" where
  "param_body raw h =
     slice raw PARAM_HEADER_LENGTH (PARAM_HEADER_LENGTH + unat (ph_value_length h))"

section \<open>The parameters\<close>

datatype hmac_algorithm = HmacResv1 | HmacSha128 | HmacResv2 | HmacSha256 | HmacUnknown

definition hmac_algorithm_of :: "u16 \<Rightarrow> hmac_algorithm" where
  "hmac_algorithm_of v =
    (if v = 0 then HmacResv1 else if v = 1 then HmacSha128
     else if v = 2 then HmacResv2 else if v = 3 then HmacSha256 else HmacUnknown)"

fun hmac_algorithm_code :: "hmac_algorithm \<Rightarrow> u16" where
  "hmac_algorithm_code HmacResv1 = 0"
| "hmac_algorithm_code HmacSha128 = 1"
| "hmac_algorithm_code HmacResv2 = 2"
| "hmac_algorithm_code HmacSha256 = 3"
| "hmac_algorithm_code HmacUnknown = 4"

datatype reconfig_result =
    SuccessNop | SuccessPerformed | Denied | ErrorWrongSsn
  | ErrorRequestAlreadyInProgress | ErrorBadSequenceNumber | InProgress | ResultUnknown

definition reconfig_result_of :: "u32 \<Rightarrow> reconfig_result" where
  "reconfig_result_of v =
    (if v = 0 then SuccessNop else if v = 1 then SuccessPerformed else if v = 2 then Denied
     else if v = 3 then ErrorWrongSsn else if v = 4 then ErrorRequestAlreadyInProgress
     else if v = 5 then ErrorBadSequenceNumber else if v = 6 then InProgress
     else ResultUnknown)"

fun reconfig_result_code :: "reconfig_result \<Rightarrow> u32" where
  "reconfig_result_code SuccessNop = 0"
| "reconfig_result_code SuccessPerformed = 1"
| "reconfig_result_code Denied = 2"
| "reconfig_result_code ErrorWrongSsn = 3"
| "reconfig_result_code ErrorRequestAlreadyInProgress = 4"
| "reconfig_result_code ErrorBadSequenceNumber = 5"
| "reconfig_result_code InProgress = 6"
| "reconfig_result_code ResultUnknown = 7"

record outgoing_reset_request =
  orr_request_sequence_number :: u32
  orr_response_sequence_number :: u32
  orr_sender_last_tsn :: u32
  orr_stream_identifiers :: "u16 list"

record reconfig_response =
  rr_response_sequence_number :: u32
  rr_result :: reconfig_result

text \<open>\<open>Box<dyn Param>\<close>.\<close>

datatype param =
    PStateCookie bytes
  | PSupportedExtensions "u8 list"
  | PChunkList "u8 list"
  | PRandom bytes
  | PHeartbeatInfo bytes
  | PForwardTsnSupported
  | PRequestedHmacAlgorithm "hmac_algorithm list"
  | POutgoingResetRequest outgoing_reset_request
  | PReconfigResponse reconfig_response
  | PUnknown u16 bytes

fun param_value_length :: "param \<Rightarrow> nat" where
  "param_value_length (PStateCookie c) = length c"
| "param_value_length (PSupportedExtensions ts) = length ts"
| "param_value_length (PChunkList ts) = length ts"
| "param_value_length (PRandom d) = length d"
| "param_value_length (PHeartbeatInfo i) = length i"
| "param_value_length PForwardTsnSupported = 0"
| "param_value_length (PRequestedHmacAlgorithm as) = 2 * length as"
| "param_value_length (POutgoingResetRequest o') = 12 + length (orr_stream_identifiers o') * 2"
| "param_value_length (PReconfigResponse r) = 8"
| "param_value_length (PUnknown t v) = length v"

fun param_typ :: "param \<Rightarrow> param_type" where
  "param_typ (PStateCookie _) = StateCookie"
| "param_typ (PSupportedExtensions _) = SupportedExt"
| "param_typ (PChunkList _) = ChunkList"
| "param_typ (PRandom _) = Random"
| "param_typ (PHeartbeatInfo _) = HeartbeatInfo"
| "param_typ PForwardTsnSupported = ForwardTsnSupp"
| "param_typ (PRequestedHmacAlgorithm _) = ReqHmacAlgo"
| "param_typ (POutgoingResetRequest _) = OutSsnResetReq"
| "param_typ (PReconfigResponse _) = ReconfigResp"
| "param_typ (PUnknown t _) = UnknownParam t"

text \<open>The \<open>header()\<close> method: the value length is truncated to 16 bits.\<close>

definition param_header_of :: "param \<Rightarrow> param_header" where
  "param_header_of p = \<lparr>ph_typ = param_typ p, ph_value_length = of_nat (param_value_length p)\<rparr>"

subsection \<open>Marshalling\<close>

definition outgoing_reset_request_body :: "outgoing_reset_request \<Rightarrow> bytes" where
  "outgoing_reset_request_body r =
     be32 (orr_request_sequence_number r) @ be32 (orr_response_sequence_number r) @
     be32 (orr_sender_last_tsn r) @ concat (map be16 (orr_stream_identifiers r))"

definition reconfig_response_body :: "reconfig_response \<Rightarrow> bytes" where
  "reconfig_response_body r =
     be32 (rr_response_sequence_number r) @ be32 (reconfig_result_code (rr_result r))"

definition requested_hmac_body :: "hmac_algorithm list \<Rightarrow> bytes" where
  "requested_hmac_body as = concat (map (\<lambda>a. be16 (hmac_algorithm_code a)) as)"

fun param_body_marshal :: "param \<Rightarrow> bytes" where
  "param_body_marshal (PStateCookie c) = c"
| "param_body_marshal (PSupportedExtensions ts) = ts"
| "param_body_marshal (PChunkList ts) = ts"
| "param_body_marshal (PRandom d) = d"
| "param_body_marshal (PHeartbeatInfo i) = i"
| "param_body_marshal PForwardTsnSupported = []"
| "param_body_marshal (PRequestedHmacAlgorithm as) = requested_hmac_body as"
| "param_body_marshal (POutgoingResetRequest r) = outgoing_reset_request_body r"
| "param_body_marshal (PReconfigResponse r) = reconfig_response_body r"
| "param_body_marshal (PUnknown t v) = v"

definition param_marshal :: "param \<Rightarrow> bytes" where
  "param_marshal p = param_header_marshal (param_header_of p) @ param_body_marshal p"

subsection \<open>Unmarshalling\<close>

definition state_cookie_unmarshal :: "bytes \<Rightarrow> param result" where
  "state_cookie_unmarshal raw =
     and_then (param_header_unmarshal raw) (\<lambda>h.
     and_then (param_body raw h) (\<lambda>cookie. Ok (PStateCookie cookie)))"

text \<open>The loop of \<open>get_u8\<close> calls that empties the reader returns the reader's bytes.\<close>

definition supported_extensions_unmarshal :: "bytes \<Rightarrow> param result" where
  "supported_extensions_unmarshal raw =
     and_then (param_header_unmarshal raw) (\<lambda>h.
     and_then (param_body raw h) (\<lambda>reader. Ok (PSupportedExtensions reader)))"

definition chunk_list_unmarshal :: "bytes \<Rightarrow> param result" where
  "chunk_list_unmarshal raw =
     and_then (param_header_unmarshal raw) (\<lambda>h.
     guard (ph_typ h \<noteq> ChunkList) ErrParamTypeUnexpected
       (and_then (param_body raw h) (\<lambda>reader. Ok (PChunkList reader))))"

definition random_unmarshal :: "bytes \<Rightarrow> param result" where
  "random_unmarshal raw =
     and_then (param_header_unmarshal raw) (\<lambda>h.
     and_then (param_body raw h) (\<lambda>random_data. Ok (PRandom random_data)))"

definition heartbeat_info_unmarshal :: "bytes \<Rightarrow> param result" where
  "heartbeat_info_unmarshal raw =
     and_then (param_header_unmarshal raw) (\<lambda>h.
     and_then (param_body raw h) (\<lambda>info. Ok (PHeartbeatInfo info)))"

definition forward_tsn_supported_unmarshal :: "bytes \<Rightarrow> param result" where
  "forward_tsn_supported_unmarshal raw =
     and_then (param_header_unmarshal raw) (\<lambda>_. Ok PForwardTsnSupported)"

definition unknown_unmarshal :: "bytes \<Rightarrow> param result" where
  "unknown_unmarshal raw =
     and_then (param_header_unmarshal raw) (\<lambda>h.
     and_then (param_body raw h) (\<lambda>v. Ok (PUnknown (param_type_code (ph_typ h)) v)))"

text \<open>\<open>while offset + 1 < header.value_length()\<close>: the reader holds exactly the value,
so the loop runs while two bytes remain.\<close>

fun hmac_loop :: "bytes \<Rightarrow> hmac_algorithm list result" where
  "hmac_loop (a # b # r) =
     (let alg = hmac_algorithm_of (of_be16 a b) in
      if alg = HmacSha128 \<or> alg = HmacSha256
      then and_then (hmac_loop r) (\<lambda>as. Ok (alg # as))
      else Fail ErrInvalidAlgorithmType)"
| "hmac_loop _ = Ok []"

definition requested_hmac_unmarshal :: "bytes \<Rightarrow> param result" where
  "requested_hmac_unmarshal raw =
     and_then (param_header_unmarshal raw) (\<lambda>h.
     and_then (param_body raw h) (\<lambda>reader.
     and_then (hmac_loop reader) (\<lambda>as. Ok (PRequestedHmacAlgorithm as))))"

definition outgoing_reset_request_unmarshal :: "bytes \<Rightarrow> param result" where
  "outgoing_reset_request_unmarshal raw =
     and_then (param_header_unmarshal raw) (\<lambda>h.
     let vl = unat (ph_value_length h) in
     guard (vl + PARAM_HEADER_LENGTH < 16 \<or> (vl + PARAM_HEADER_LENGTH - 16) mod 2 \<noteq> 0)
       ErrUnmarshalReconfigRespParam
     (guard (length raw < PARAM_HEADER_LENGTH + vl) ErrSsnResetRequestParamTooShort
     (and_then (param_body raw h) (\<lambda>reader.
      and_then (get_u32 reader) (\<lambda>(req, reader).
      and_then (get_u32 reader) (\<lambda>(resp, reader).
      and_then (get_u32 reader) (\<lambda>(last_tsn, reader).
      and_then (get_u16s ((vl - 12) div 2) reader) (\<lambda>(ids, _).
      Ok (POutgoingResetRequest
           \<lparr>orr_request_sequence_number = req, orr_response_sequence_number = resp,
            orr_sender_last_tsn = last_tsn, orr_stream_identifiers = ids\<rparr>)))))))))"

definition reconfig_response_unmarshal :: "bytes \<Rightarrow> param result" where
  "reconfig_response_unmarshal raw =
     and_then (param_header_unmarshal raw) (\<lambda>h.
     let vl = unat (ph_value_length h) in
     guard (vl + PARAM_HEADER_LENGTH \<noteq> 12 \<and> vl + PARAM_HEADER_LENGTH \<noteq> 20)
       ErrUnmarshalReconfigRespParam
     (guard (length raw < vl + PARAM_HEADER_LENGTH) ErrReconfigRespParamTooShort
     (and_then (param_body raw h) (\<lambda>reader.
      and_then (get_u32 reader) (\<lambda>(sn, reader).
      and_then (get_u32 reader) (\<lambda>(res, _).
      Ok (PReconfigResponse
           \<lparr>rr_response_sequence_number = sn, rr_result = reconfig_result_of res\<rparr>)))))))"

definition build_param :: "bytes \<Rightarrow> param result" where
  "build_param raw =
     guard (length raw < PARAM_HEADER_LENGTH) ErrParamHeaderTooShort
       (and_then (get_u16 (take 2 raw)) (\<lambda>(raw_type, _).
        case param_type_of raw_type of
          ForwardTsnSupp \<Rightarrow> forward_tsn_supported_unmarshal raw
        | SupportedExt \<Rightarrow> supported_extensions_unmarshal raw
        | Random \<Rightarrow> random_unmarshal raw
        | ReqHmacAlgo \<Rightarrow> requested_hmac_unmarshal raw
        | ChunkList \<Rightarrow> chunk_list_unmarshal raw
        | StateCookie \<Rightarrow> state_cookie_unmarshal raw
        | HeartbeatInfo \<Rightarrow> heartbeat_info_unmarshal raw
        | OutSsnResetReq \<Rightarrow> outgoing_reset_request_unmarshal raw
        | ReconfigResp \<Rightarrow> reconfig_response_unmarshal raw
        | _ \<Rightarrow>
            if drop_bit 15 raw_type AND 1 = 0 then Fail ErrParamTypeUnhandled
            else unknown_unmarshal raw))"

section \<open>Correctness\<close>

lemma param_type_code_of [simp]: "param_type_code (param_type_of v) = v"
  by (simp add: param_type_of_def)

lemma hmac_algorithm_of_code [simp]: "hmac_algorithm_of (hmac_algorithm_code a) = a"
  by (cases a) (simp_all add: hmac_algorithm_of_def)

lemma reconfig_result_of_code [simp]: "reconfig_result_of (reconfig_result_code r) = r"
  by (cases r) (simp_all add: reconfig_result_of_def)

text \<open>Parameters that the wire format can carry: the length field holds the length,
and the variants that a sender can name.\<close>

fun wf_param_body :: "param \<Rightarrow> bool" where
  "wf_param_body (PRequestedHmacAlgorithm as) = list_all (\<lambda>a. a = HmacSha128 \<or> a = HmacSha256) as"
| "wf_param_body (PUnknown t v) =
     (drop_bit 15 t AND 1 \<noteq> 0 \<and>
      t \<noteq> 32770 \<and> t \<noteq> 32771 \<and> t \<noteq> 32772 \<and> t \<noteq> 32776 \<and> t \<noteq> 49152)"
| "wf_param_body _ = True"

definition wf_param :: "param \<Rightarrow> bool" where
  "wf_param p \<longleftrightarrow> PARAM_HEADER_LENGTH + param_value_length p < 65536 \<and> wf_param_body p"

lemma length_param_body_marshal: "length (param_body_marshal p) = param_value_length p"
proof (cases p)
  case (PRequestedHmacAlgorithm as)
  have "length (requested_hmac_body as) = 2 * length as"
    by (induction as) (simp_all add: requested_hmac_body_def)
  with PRequestedHmacAlgorithm show ?thesis by simp
qed (simp_all add: outgoing_reset_request_body_def reconfig_response_body_def)

lemma length_param_marshal: "length (param_marshal p) = PARAM_HEADER_LENGTH + param_value_length p"
  by (simp add: param_marshal_def param_header_marshal_def length_param_body_marshal
      PARAM_HEADER_LENGTH_def)

lemma unat_vl_plus_4:
  "vl + 4 < 65536 \<Longrightarrow> unat (of_nat vl + 4 :: u16) = vl + 4"
  using unat_of_nat_u16 [of "vl + 4"] by (simp add: add.commute)

lemma param_header_unmarshal_marshal:
  assumes "length body + 4 < 65536"
  shows "param_header_unmarshal (be16 t @ be16 (of_nat (length body) + 4) @ body @ rest) =
           Ok \<lparr>ph_typ = param_type_of t, ph_value_length = of_nat (length body)\<rparr>"
  using assms
  by (simp add: param_header_unmarshal_def PARAM_HEADER_LENGTH_def guard_def get_u16_be16
      unat_vl_plus_4)

lemma param_body_marshal_slice:
  assumes "length body + 4 < 65536"
  shows "param_body (be16 t @ be16 l @ body @ rest)
           \<lparr>ph_typ = ty, ph_value_length = of_nat (length body)\<rparr> = Ok body"
proof -
  have "slice ((be16 t @ be16 l) @ body @ rest) 4 (4 + length body) = Ok body"
    by (rule slice_middle) simp_all
  then show ?thesis
    using assms by (simp add: param_body_def PARAM_HEADER_LENGTH_def unat_of_nat_u16)
qed

lemma hmac_loop_body:
  "list_all (\<lambda>a. a = HmacSha128 \<or> a = HmacSha256) as \<Longrightarrow> hmac_loop (requested_hmac_body as) = Ok as"
proof (induction as)
  case (Cons a as)
  have "of_be16 (ucast (drop_bit 8 (hmac_algorithm_code a))) (ucast (hmac_algorithm_code a))
      = hmac_algorithm_code a" by (rule of_be16_be16)
  with Cons show ?case by (auto simp: requested_hmac_body_def be16_def Let_def)
qed (simp add: requested_hmac_body_def)

text \<open>The shape in which every case of \<open>build_param\<close> sees a marshalled parameter.\<close>

lemma build_param_frame:
  fixes body :: bytes
  assumes "length body + 4 < 65536"
    and "raw = be16 t @ be16 (of_nat (length body) + 4) @ body @ rest"
  shows "param_header_unmarshal raw =
           Ok \<lparr>ph_typ = param_type_of t, ph_value_length = of_nat (length body)\<rparr>"
    and "param_body raw \<lparr>ph_typ = param_type_of t, ph_value_length = of_nat (length body)\<rparr> = Ok body"
    and "get_u16 (take 2 raw) = Ok (t, [])"
    and "\<not> length raw < PARAM_HEADER_LENGTH"
    and "unat (of_nat (length body) :: u16) = length body"
    and "PARAM_HEADER_LENGTH + length body \<le> length raw"
  using assms param_header_unmarshal_marshal param_body_marshal_slice get_u16_be16 [of t "[]"]
  by (simp_all add: PARAM_HEADER_LENGTH_def unat_of_nat_u16)

lemma build_param_marshal_frame:
  "param_marshal p @ rest = be16 (param_type_code (param_typ p)) @
     be16 (of_nat (length (param_body_marshal p)) + 4) @ param_body_marshal p @ rest"
  by (simp add: param_marshal_def param_header_marshal_def param_header_of_def
      PARAM_HEADER_LENGTH_def length_param_body_marshal)

lemmas param_unmarshal_defs =
  state_cookie_unmarshal_def supported_extensions_unmarshal_def chunk_list_unmarshal_def
  random_unmarshal_def heartbeat_info_unmarshal_def forward_tsn_supported_unmarshal_def
  unknown_unmarshal_def requested_hmac_unmarshal_def outgoing_reset_request_unmarshal_def
  reconfig_response_unmarshal_def

lemma build_param_marshal:
  assumes "wf_param p"
  shows "build_param (param_marshal p @ rest) = Ok p"
proof -
  define raw where "raw = param_marshal p @ rest"
  have len: "length (param_body_marshal p) + 4 < 65536"
    using assms by (simp add: wf_param_def length_param_body_marshal PARAM_HEADER_LENGTH_def)
  note frame = build_param_frame [OF len, of raw, OF raw_def [unfolded build_param_marshal_frame]]
  have "build_param raw = Ok p"
  proof (cases p)
    case (PRequestedHmacAlgorithm as)
    with assms frame hmac_loop_body [of as] show ?thesis
      by (simp add: build_param_def param_unmarshal_defs guard_def param_type_of_def wf_param_def)
  next
    case (POutgoingResetRequest r)
    let ?ids = "orr_stream_identifiers r"
    have "get_u16s (length ?ids) (concat (map be16 ?ids)) = Ok (?ids, [])"
      using get_u16s_be16 [of ?ids "[]"] by simp
    with POutgoingResetRequest frame show ?thesis
      by (simp add: build_param_def param_unmarshal_defs guard_def param_type_of_def
          outgoing_reset_request_body_def get_u32_be32 PARAM_HEADER_LENGTH_def Let_def)
  next
    case (PReconfigResponse r)
    have "get_u32 (be32 (reconfig_result_code (rr_result r))) = Ok (reconfig_result_code (rr_result r), [])"
      using get_u32_be32 [of _ "[]"] by simp
    with PReconfigResponse frame show ?thesis
      by (simp add: build_param_def param_unmarshal_defs guard_def param_type_of_def
          reconfig_response_body_def get_u32_be32 PARAM_HEADER_LENGTH_def Let_def)
  next
    case (PUnknown t v)
    have "param_type_of t \<notin> {ForwardTsnSupp, SupportedExt, Random, ReqHmacAlgo,
        ChunkList, StateCookie, HeartbeatInfo, OutSsnResetReq, ReconfigResp}"
      using assms PUnknown by (auto simp: wf_param_def param_type_of_def split: if_splits)
    with PUnknown frame assms have "build_param raw = unknown_unmarshal raw"
      by (auto simp: build_param_def guard_def wf_param_def split: param_type.split)
    with PUnknown frame show ?thesis by (simp add: unknown_unmarshal_def)
  qed (use frame in \<open>simp_all add: build_param_def param_unmarshal_defs guard_def param_type_of_def\<close>)
  then show ?thesis by (simp add: raw_def)
qed

subsection \<open>Parsing never panics\<close>

lemma param_header_unmarshal_no_panic: "no_panic (param_header_unmarshal raw)"
proof (cases "length raw < 4")
  case False
  then obtain t l where "get_u16 raw = Ok (t, drop 2 raw)" "get_u16 (drop 2 raw) = Ok (l, drop 4 raw)"
    using get_u16_ok [of raw] get_u16_at [of 2 raw] by auto
  then show ?thesis
    by (simp add: param_header_unmarshal_def PARAM_HEADER_LENGTH_def guard_def)
qed (simp add: param_header_unmarshal_def PARAM_HEADER_LENGTH_def guard_def)

lemma param_header_unmarshal_bound:
  assumes "param_header_unmarshal raw = Ok h"
  shows "PARAM_HEADER_LENGTH + unat (ph_value_length h) \<le> length raw"
proof -
  from assms obtain len :: u16 where len: "4 \<le> unat len" "unat len \<le> length raw"
      "ph_value_length h = len - 4"
    by (force simp: param_header_unmarshal_def guard_def PARAM_HEADER_LENGTH_def and_then_Ok_iff
        split: if_splits prod.splits)
  moreover have "unat (len - 4) = unat len - 4"
    using len(1) by (simp add: unat_sub word_le_nat_alt)
  ultimately show ?thesis by (simp add: PARAM_HEADER_LENGTH_def)
qed

lemma param_body_ok:
  assumes "param_header_unmarshal raw = Ok h"
  shows "\<exists>b. param_body raw h = Ok b \<and> length b = unat (ph_value_length h)"
  using param_header_unmarshal_bound [OF assms]
  by (auto simp: param_body_def slice_def PARAM_HEADER_LENGTH_def)

lemma hmac_loop_no_panic: "no_panic (hmac_loop r)"
  by (induction r rule: hmac_loop.induct) (auto simp: Let_def intro!: no_panic_and_then)

lemma outgoing_reset_request_no_panic: "no_panic (outgoing_reset_request_unmarshal raw)"
proof (cases "param_header_unmarshal raw")
  case (Inl f)
  then show ?thesis
    using param_header_unmarshal_no_panic [of raw] by (simp add: outgoing_reset_request_unmarshal_def)
next
  case (Inr h)
  obtain b where b: "param_body raw h = Ok b" "length b = unat (ph_value_length h)"
    using param_body_ok [OF Inr] by blast
  show ?thesis
  proof (cases "12 \<le> length b")
    case True
    then obtain x y z where "get_u32 b = Ok (x, drop 4 b)" "get_u32 (drop 4 b) = Ok (y, drop 8 b)"
        "get_u32 (drop 8 b) = Ok (z, drop 12 b)"
      using get_u32_at [of 0 b] get_u32_at [of 4 b] get_u32_at [of 8 b] by auto
    moreover obtain ids rest where "get_u16s ((length b - 12) div 2) (drop 12 b) = Ok (ids, rest)"
      using get_u16s_ok [of "(length b - 12) div 2" "drop 12 b"] by auto
    ultimately show ?thesis
      using Inr b by (simp add: outgoing_reset_request_unmarshal_def guard_def Let_def)
  qed (use Inr b in \<open>simp add: outgoing_reset_request_unmarshal_def guard_def PARAM_HEADER_LENGTH_def\<close>)
qed

lemma reconfig_response_no_panic: "no_panic (reconfig_response_unmarshal raw)"
proof (cases "param_header_unmarshal raw")
  case (Inl f)
  then show ?thesis
    using param_header_unmarshal_no_panic [of raw] by (simp add: reconfig_response_unmarshal_def)
next
  case (Inr h)
  obtain b where b: "param_body raw h = Ok b" "length b = unat (ph_value_length h)"
    using param_body_ok [OF Inr] by blast
  show ?thesis
  proof (cases "8 \<le> length b")
    case True
    then obtain x y where "get_u32 b = Ok (x, drop 4 b)" "get_u32 (drop 4 b) = Ok (y, drop 8 b)"
      using get_u32_at [of 0 b] get_u32_at [of 4 b] by auto
    then show ?thesis
      using Inr b by (simp add: reconfig_response_unmarshal_def guard_def Let_def)
  qed (use Inr b in \<open>simp add: reconfig_response_unmarshal_def guard_def PARAM_HEADER_LENGTH_def\<close>)
qed

lemma param_body_no_panic: "param_header_unmarshal raw = Ok h \<Longrightarrow> no_panic (param_body raw h)"
  using param_body_ok by fastforce

lemma build_param_no_panic: "no_panic (build_param raw)"
proof (cases "length raw < 4")
  case False
  then obtain t r where t: "get_u16 (take 2 raw) = Ok (t, r)"
    using get_u16_ok [of "take 2 raw"] by auto
  have simple: "no_panic (state_cookie_unmarshal raw)" "no_panic (supported_extensions_unmarshal raw)"
      "no_panic (chunk_list_unmarshal raw)" "no_panic (random_unmarshal raw)"
      "no_panic (heartbeat_info_unmarshal raw)" "no_panic (forward_tsn_supported_unmarshal raw)"
      "no_panic (unknown_unmarshal raw)" "no_panic (requested_hmac_unmarshal raw)"
    by (auto simp: param_unmarshal_defs intro!: no_panic_and_then no_panic_guard
        param_header_unmarshal_no_panic param_body_no_panic hmac_loop_no_panic)
  with t False outgoing_reset_request_no_panic reconfig_response_no_panic show ?thesis
    by (simp add: build_param_def PARAM_HEADER_LENGTH_def guard_def split: param_type.split)
qed (simp add: build_param_def PARAM_HEADER_LENGTH_def guard_def)

end
