(* ===== verification/Sctp_Chunk.thy ===== *)
theory Sctp_Chunk
  imports Sctp_Param
begin

text \<open>The chunks of an SCTP packet (\<open>rtc-sctp/src/chunk\<close>): one record or
constructor per implementation of the \<open>Chunk\<close> trait, with its \<open>header\<close>,
\<open>unmarshal\<close>, \<open>marshal_to\<close>, \<open>check\<close> and \<open>value_length\<close>. Slices are taken with
the panicking \<open>slice\<close> of the prelude, so that a parser which trusts a length
field of the peer shows up as the value \<open>panic\<close>.\<close>

section \<open>Constants and helpers\<close>

definition CT_PAYLOAD_DATA :: u8 where "CT_PAYLOAD_DATA = 0"
definition CT_INIT :: u8 where "CT_INIT = 1"
definition CT_INIT_ACK :: u8 where "CT_INIT_ACK = 2"
definition CT_SACK :: u8 where "CT_SACK = 3"
definition CT_HEARTBEAT :: u8 where "CT_HEARTBEAT = 4"
definition CT_HEARTBEAT_ACK :: u8 where "CT_HEARTBEAT_ACK = 5"
definition CT_ABORT :: u8 where "CT_ABORT = 6"
definition CT_SHUTDOWN :: u8 where "CT_SHUTDOWN = 7"
definition CT_SHUTDOWN_ACK :: u8 where "CT_SHUTDOWN_ACK = 8"
definition CT_ERROR :: u8 where "CT_ERROR = 9"
definition CT_COOKIE_ECHO :: u8 where "CT_COOKIE_ECHO = 10"
definition CT_COOKIE_ACK :: u8 where "CT_COOKIE_ACK = 11"
definition CT_SHUTDOWN_COMPLETE :: u8 where "CT_SHUTDOWN_COMPLETE = 14"
definition CT_RECONFIG :: u8 where "CT_RECONFIG = 130"
definition CT_FORWARD_TSN :: u8 where "CT_FORWARD_TSN = 192"

lemmas ct_defs = CT_PAYLOAD_DATA_def CT_INIT_def CT_INIT_ACK_def CT_SACK_def CT_HEARTBEAT_def
  CT_HEARTBEAT_ACK_def CT_ABORT_def CT_SHUTDOWN_def CT_SHUTDOWN_ACK_def CT_ERROR_def
  CT_COOKIE_ECHO_def CT_COOKIE_ACK_def CT_SHUTDOWN_COMPLETE_def CT_RECONFIG_def CT_FORWARD_TSN_def

definition CHUNK_HEADER_SIZE :: nat where
  "CHUNK_HEADER_SIZE = 4"

definition PAYLOAD_DATA_HEADER_SIZE :: nat where
  "PAYLOAD_DATA_HEADER_SIZE = 12"

definition SELECTIVE_ACK_HEADER_SIZE :: nat where
  "SELECTIVE_ACK_HEADER_SIZE = 12"

definition INIT_CHUNK_MIN_LENGTH :: nat where
  "INIT_CHUNK_MIN_LENGTH = 16"

definition PADDING_MULTIPLE :: nat where
  "PADDING_MULTIPLE = 4"

definition get_padding_size :: "nat \<Rightarrow> nat" where
  "get_padding_size len = (PADDING_MULTIPLE - len mod PADDING_MULTIPLE) mod PADDING_MULTIPLE"

section \<open>The chunk header\<close>

record chunk_header =
  ch_typ :: u8
  ch_flags :: u8
  ch_value_length :: u16

definition chunk_header_unmarshal :: "bytes \<Rightarrow> chunk_header result" where
  "chunk_header_unmarshal raw =
     guard (length raw < CHUNK_HEADER_SIZE) ErrChunkHeaderTooSmall
       (and_then (get_u8 raw) (\<lambda>(typ, r).
        and_then (get_u8 r) (\<lambda>(flags, r).
        and_then (get_u16 r) (\<lambda>(len, _).
        guard (unat len < CHUNK_HEADER_SIZE) ErrChunkHeaderInvalidLength
       (let value_length = int (unat len) - int CHUNK_HEADER_SIZE;
            length_after_value = int (length raw) - int (unat len) in
        if length_after_value < 0 then Fail ErrChunkHeaderNotEnoughSpace
        else if length_after_value < 4 \<and>
          list_ex (\<lambda>i. raw ! (CHUNK_HEADER_SIZE + nat (value_length + i - 1)) \<noteq> 0)
            (rev [1..length_after_value])
        then Fail ErrChunkHeaderPaddingNonZero
        else Ok \<lparr>ch_typ = typ, ch_flags = flags,
                  ch_value_length = len - of_nat CHUNK_HEADER_SIZE\<rparr>)))))"

definition chunk_header_marshal :: "chunk_header \<Rightarrow> bytes" where
  "chunk_header_marshal h =
     [ch_typ h, ch_flags h] @ be16 (ch_value_length h + of_nat CHUNK_HEADER_SIZE)"

text \<open>\<open>raw.slice(CHUNK_HEADER_SIZE..CHUNK_HEADER_SIZE + header.value_length())\<close>.\<close>

definition chunk_body :: "bytes \<Rightarrow> chunk_header \<Rightarrow> bytes result" where
  "chunk_body raw h = slice raw CHUNK_HEADER_SIZE (CHUNK_HEADER_SIZE + unat (ch_value_length h))"

section \<open>DATA\<close>

datatype payload_protocol_identifier =
  PpiDcep | PpiString | PpiBinary | PpiStringEmpty | PpiBinaryEmpty | PpiUnknown

definition ppi_of :: "u32 \<Rightarrow> payload_protocol_identifier" where
  "ppi_of v =
    (if v = 50 then PpiDcep else if v = 51 then PpiString else if v = 53 then PpiBinary
     else if v = 56 then PpiStringEmpty else if v = 57 then PpiBinaryEmpty else PpiUnknown)"

text \<open>\<open>as u32\<close>: the last variant takes the discriminant after its predecessor.\<close>

fun ppi_code :: "payload_protocol_identifier \<Rightarrow> u32" where
  "ppi_code PpiDcep = 50"
| "ppi_code PpiString = 51"
| "ppi_code PpiBinary = 53"
| "ppi_code PpiStringEmpty = 56"
| "ppi_code PpiBinaryEmpty = 57"
| "ppi_code PpiUnknown = 58"

record chunk_payload_data =
  pd_unordered :: bool
  pd_beginning_fragment :: bool
  pd_ending_fragment :: bool
  pd_immediate_sack :: bool
  pd_tsn :: u32
  pd_stream_identifier :: u16
  pd_stream_sequence_number :: u16
  pd_payload_type :: payload_protocol_identifier
  pd_user_data :: bytes
  pd_acked :: bool
  pd_miss_indicator :: u32
  pd_since :: "instant option"
  pd_nsent :: u32
  pd_abandoned :: bool
  pd_all_inflight :: bool
  pd_retransmit :: bool

definition payload_data_default :: chunk_payload_data where
  "payload_data_default =
    \<lparr>pd_unordered = False, pd_beginning_fragment = False, pd_ending_fragment = False,
     pd_immediate_sack = False, pd_tsn = 0, pd_stream_identifier = 0,
     pd_stream_sequence_number = 0, pd_payload_type = PpiUnknown, pd_user_data = [],
     pd_acked = False, pd_miss_indicator = 0, pd_since = None, pd_nsent = 0,
     pd_abandoned = False, pd_all_inflight = False, pd_retransmit = False\<rparr>"

definition payload_data_value_length :: "chunk_payload_data \<Rightarrow> nat" where
  "payload_data_value_length c = PAYLOAD_DATA_HEADER_SIZE + length (pd_user_data c)"

definition payload_data_flags :: "chunk_payload_data \<Rightarrow> u8" where
  "payload_data_flags c =
    (let flags = (if pd_ending_fragment c then 1 else 0);
         flags = (if pd_beginning_fragment c then flags OR 2 else flags);
         flags = (if pd_unordered c then flags OR 4 else flags)
     in (if pd_immediate_sack c then flags OR 8 else flags))"

definition payload_data_header :: "chunk_payload_data \<Rightarrow> chunk_header" where
  "payload_data_header c =
    \<lparr>ch_typ = CT_PAYLOAD_DATA, ch_flags = payload_data_flags c,
     ch_value_length = of_nat (payload_data_value_length c)\<rparr>"

definition payload_data_unmarshal :: "bytes \<Rightarrow> chunk_payload_data result" where
  "payload_data_unmarshal raw =
     and_then (chunk_header_unmarshal raw) (\<lambda>h.
     guard (ch_typ h \<noteq> CT_PAYLOAD_DATA) ErrChunkTypeNotPayloadData
    (guard (length raw < CHUNK_HEADER_SIZE + PAYLOAD_DATA_HEADER_SIZE) ErrChunkPayloadSmall
    (guard (unat (ch_value_length h) < PAYLOAD_DATA_HEADER_SIZE) ErrChunkUnmarshalPayloadData
    (and_then (chunk_body raw h) (\<lambda>r.
     and_then (get_u32 r) (\<lambda>(tsn, r).
     and_then (get_u16 r) (\<lambda>(sid, r).
     and_then (get_u16 r) (\<lambda>(ssn, r).
     and_then (get_u32 r) (\<lambda>(ppi, r).
     and_then (slice raw (CHUNK_HEADER_SIZE + PAYLOAD_DATA_HEADER_SIZE)
                 (CHUNK_HEADER_SIZE + unat (ch_value_length h))) (\<lambda>user_data.
     Ok (payload_data_default
          \<lparr>pd_unordered := (ch_flags h AND 4 \<noteq> 0),
           pd_beginning_fragment := (ch_flags h AND 2 \<noteq> 0),
           pd_ending_fragment := (ch_flags h AND 1 \<noteq> 0),
           pd_immediate_sack := (ch_flags h AND 8 \<noteq> 0),
           pd_tsn := tsn, pd_stream_identifier := sid, pd_stream_sequence_number := ssn,
           pd_payload_type := ppi_of ppi, pd_user_data := user_data\<rparr>)))))))))))"

definition payload_data_marshal :: "chunk_payload_data \<Rightarrow> bytes" where
  "payload_data_marshal c =
     chunk_header_marshal (payload_data_header c) @
     be32 (pd_tsn c) @ be16 (pd_stream_identifier c) @ be16 (pd_stream_sequence_number c) @
     be32 (ppi_code (pd_payload_type c)) @ pd_user_data c"

text \<open>\<open>ChunkPayloadData::abandoned\<close> and \<open>set_all_inflight\<close>.\<close>

definition is_abandoned :: "chunk_payload_data \<Rightarrow> bool" where
  "is_abandoned c \<longleftrightarrow> pd_abandoned c \<and> pd_all_inflight c"

definition set_all_inflight :: "chunk_payload_data \<Rightarrow> chunk_payload_data" where
  "set_all_inflight c = (if pd_ending_fragment c then c\<lparr>pd_all_inflight := True\<rparr> else c)"

section \<open>SACK\<close>

record gap_ack_block =
  gb_start :: u16
  gb_end :: u16

record chunk_selective_ack =
  sa_cumulative_tsn_ack :: u32
  sa_advertised_receiver_window_credit :: u32
  sa_gap_ack_blocks :: "gap_ack_block list"
  sa_duplicate_tsn :: "u32 list"

definition sack_value_length :: "chunk_selective_ack \<Rightarrow> nat" where
  "sack_value_length s =
     SELECTIVE_ACK_HEADER_SIZE + length (sa_gap_ack_blocks s) * 4 + length (sa_duplicate_tsn s) * 4"

primrec get_gap_ack_blocks_wire :: "nat \<Rightarrow> bytes \<Rightarrow> (gap_ack_block list \<times> bytes) result" where
  "get_gap_ack_blocks_wire 0 r = Ok ([], r)"
| "get_gap_ack_blocks_wire (Suc n) r =
     and_then (get_u16 r) (\<lambda>(s, r).
     and_then (get_u16 r) (\<lambda>(e, r).
     and_then (get_gap_ack_blocks_wire n r) (\<lambda>(gs, r). Ok (\<lparr>gb_start = s, gb_end = e\<rparr> # gs, r))))"

definition sack_unmarshal :: "bytes \<Rightarrow> chunk_selective_ack result" where
  "sack_unmarshal raw =
     and_then (chunk_header_unmarshal raw) (\<lambda>h.
     let vl = unat (ch_value_length h) in
     guard (ch_typ h \<noteq> CT_SACK) ErrChunkTypeNotSack
    (guard (vl < SELECTIVE_ACK_HEADER_SIZE) ErrChunkUnmarshalSack
    (guard (length raw < CHUNK_HEADER_SIZE + SELECTIVE_ACK_HEADER_SIZE) ErrSackSizeNotLargeEnoughInfo
    (and_then (chunk_body raw h) (\<lambda>r.
     and_then (get_u32 r) (\<lambda>(cum, r).
     and_then (get_u32 r) (\<lambda>(arwnd, r).
     and_then (get_u16 r) (\<lambda>(ngap, r).
     and_then (get_u16 r) (\<lambda>(ndup, r).
     guard (vl < SELECTIVE_ACK_HEADER_SIZE + 4 * unat ngap + 4 * unat ndup) ErrChunkUnmarshalSack
    (guard (length raw < CHUNK_HEADER_SIZE + SELECTIVE_ACK_HEADER_SIZE
              + (4 * unat ngap + 4 * unat ndup)) ErrSackSizeNotLargeEnoughInfo
    (and_then (get_gap_ack_blocks_wire (unat ngap) r) (\<lambda>(gaps, r).
     and_then (get_u32s (unat ndup) r) (\<lambda>(dups, _).
     Ok \<lparr>sa_cumulative_tsn_ack = cum, sa_advertised_receiver_window_credit = arwnd,
         sa_gap_ack_blocks = gaps, sa_duplicate_tsn = dups\<rparr>)))))))))))))"

definition sack_header :: "chunk_selective_ack \<Rightarrow> chunk_header" where
  "sack_header s = \<lparr>ch_typ = CT_SACK, ch_flags = 0, ch_value_length = of_nat (sack_value_length s)\<rparr>"

definition sack_marshal :: "chunk_selective_ack \<Rightarrow> bytes" where
  "sack_marshal s =
     chunk_header_marshal (sack_header s) @
     be32 (sa_cumulative_tsn_ack s) @ be32 (sa_advertised_receiver_window_credit s) @
     be16 (of_nat (length (sa_gap_ack_blocks s))) @ be16 (of_nat (length (sa_duplicate_tsn s))) @
     concat (map (\<lambda>g. be16 (gb_start g) @ be16 (gb_end g)) (sa_gap_ack_blocks s)) @
     concat (map be32 (sa_duplicate_tsn s))"

section \<open>FORWARD TSN\<close>

record chunk_forward_tsn_stream =
  fts_identifier :: u16
  fts_sequence :: u16

record chunk_forward_tsn =
  ft_new_cumulative_tsn :: u32
  ft_streams :: "chunk_forward_tsn_stream list"

definition NEW_CUMULATIVE_TSN_LENGTH :: nat where
  "NEW_CUMULATIVE_TSN_LENGTH = 4"

definition FORWARD_TSN_STREAM_LENGTH :: nat where
  "FORWARD_TSN_STREAM_LENGTH = 4"

definition forward_tsn_value_length :: "chunk_forward_tsn \<Rightarrow> nat" where
  "forward_tsn_value_length f =
     NEW_CUMULATIVE_TSN_LENGTH + FORWARD_TSN_STREAM_LENGTH * length (ft_streams f)"

definition forward_tsn_stream_unmarshal :: "bytes \<Rightarrow> chunk_forward_tsn_stream result" where
  "forward_tsn_stream_unmarshal buf =
     guard (length buf < FORWARD_TSN_STREAM_LENGTH) ErrChunkTooShort
       (and_then (get_u16 buf) (\<lambda>(i, r).
        and_then (get_u16 r) (\<lambda>(s, _). Ok \<lparr>fts_identifier = i, fts_sequence = s\<rparr>)))"

definition forward_tsn_stream_marshal :: "chunk_forward_tsn_stream \<Rightarrow> bytes" where
  "forward_tsn_stream_marshal s = be16 (fts_identifier s) @ be16 (fts_sequence s)"

text \<open>\<open>while remaining > 0\<close>; every round consumes one stream entry.\<close>

function forward_tsn_streams_loop ::
    "bytes \<Rightarrow> nat \<Rightarrow> nat \<Rightarrow> nat \<Rightarrow> chunk_forward_tsn_stream list result" where
  "forward_tsn_streams_loop buf e offset remaining =
    (if remaining > 0
     then and_then (slice buf offset e) (\<lambda>b.
          and_then (forward_tsn_stream_unmarshal b) (\<lambda>s.
          and_then (forward_tsn_streams_loop buf e (offset + FORWARD_TSN_STREAM_LENGTH)
                      (remaining - FORWARD_TSN_STREAM_LENGTH)) (\<lambda>ss. Ok (s # ss))))
     else Ok [])"
  by pat_completeness auto
termination
  by (relation "measure (\<lambda>(_, _, _, remaining). remaining)") (auto simp: FORWARD_TSN_STREAM_LENGTH_def)

definition forward_tsn_unmarshal :: "bytes \<Rightarrow> chunk_forward_tsn result" where
  "forward_tsn_unmarshal buf =
     and_then (chunk_header_unmarshal buf) (\<lambda>h.
     let offset = CHUNK_HEADER_SIZE + NEW_CUMULATIVE_TSN_LENGTH in
     guard (ch_typ h \<noteq> CT_FORWARD_TSN) ErrChunkTypeNotForwardTsn
    (guard (length buf < offset) ErrChunkTooShort
    (and_then (chunk_body buf h) (\<lambda>r.
     and_then (get_u32 r) (\<lambda>(tsn, _).
     and_then (forward_tsn_streams_loop buf (CHUNK_HEADER_SIZE + unat (ch_value_length h))
                 offset (length buf - offset)) (\<lambda>streams.
     Ok \<lparr>ft_new_cumulative_tsn = tsn, ft_streams = streams\<rparr>))))))"

definition forward_tsn_header :: "chunk_forward_tsn \<Rightarrow> chunk_header" where
  "forward_tsn_header f =
     \<lparr>ch_typ = CT_FORWARD_TSN, ch_flags = 0, ch_value_length = of_nat (forward_tsn_value_length f)\<rparr>"

definition forward_tsn_marshal :: "chunk_forward_tsn \<Rightarrow> bytes" where
  "forward_tsn_marshal f =
     chunk_header_marshal (forward_tsn_header f) @ be32 (ft_new_cumulative_tsn f) @
     concat (map forward_tsn_stream_marshal (ft_streams f))"

section \<open>INIT and INIT ACK\<close>

record chunk_init =
  ci_is_ack :: bool
  ci_initiate_tag :: u32
  ci_advertised_receiver_window_credit :: u32
  ci_num_outbound_streams :: u16
  ci_num_inbound_streams :: u16
  ci_initial_tsn :: u32
  ci_params :: "param list"

definition chunk_init_default :: chunk_init where
  "chunk_init_default =
    \<lparr>ci_is_ack = False, ci_initiate_tag = 0, ci_advertised_receiver_window_credit = 0,
     ci_num_outbound_streams = 0, ci_num_inbound_streams = 0, ci_initial_tsn = 0,
     ci_params = []\<rparr>"

text \<open>Padding is written (and counted) after every parameter but the last.\<close>

fun params_value_length :: "param list \<Rightarrow> nat" where
  "params_value_length [] = 0"
| "params_value_length [p] = PARAM_HEADER_LENGTH + param_value_length p"
| "params_value_length (p # ps) =
     (PARAM_HEADER_LENGTH + param_value_length p)
     + get_padding_size (PARAM_HEADER_LENGTH + param_value_length p) + params_value_length ps"

fun params_marshal :: "param list \<Rightarrow> bytes" where
  "params_marshal [] = []"
| "params_marshal [p] = param_marshal p"
| "params_marshal (p # ps) =
     param_marshal p @ replicate (get_padding_size (length (param_marshal p))) 0 @ params_marshal ps"

definition init_value_length :: "chunk_init \<Rightarrow> nat" where
  "init_value_length i = 4 + 4 + 2 + 2 + 4 + params_value_length (ci_params i)"

definition init_header :: "chunk_init \<Rightarrow> chunk_header" where
  "init_header i =
     \<lparr>ch_typ = (if ci_is_ack i then CT_INIT_ACK else CT_INIT), ch_flags = 0,
      ch_value_length = of_nat (init_value_length i)\<rparr>"

function init_params_loop :: "bytes \<Rightarrow> nat \<Rightarrow> nat \<Rightarrow> int \<Rightarrow> param list result" where
  "init_params_loop raw e offset remaining =
    (if remaining > 4 \<and> offset < e
     then and_then (slice raw offset e) (\<lambda>b.
          and_then (build_param b) (\<lambda>p.
          let p_len = PARAM_HEADER_LENGTH + param_value_length p;
              len_plus_padding = p_len + get_padding_size p_len in
          and_then (init_params_loop raw e (offset + len_plus_padding)
                      (remaining - int len_plus_padding)) (\<lambda>ps. Ok (p # ps))))
     else Ok [])"
  by pat_completeness auto
termination
  by (relation "measure (\<lambda>(_, e, offset, _). e - offset)") (auto simp: PARAM_HEADER_LENGTH_def)

definition init_unmarshal :: "bytes \<Rightarrow> chunk_init result" where
  "init_unmarshal raw =
     and_then (chunk_header_unmarshal raw) (\<lambda>h.
     let vl = unat (ch_value_length h); offset = CHUNK_HEADER_SIZE + INIT_CHUNK_MIN_LENGTH in
     guard (\<not> (ch_typ h = CT_INIT \<or> ch_typ h = CT_INIT_ACK)) ErrChunkTypeNotTypeInit
    (guard (length raw < CHUNK_HEADER_SIZE + INIT_CHUNK_MIN_LENGTH) ErrChunkValueNotLongEnough
    (guard (vl < INIT_CHUNK_MIN_LENGTH) ErrChunkTypeInitUnmarshalFailed
    (guard (ch_flags h \<noteq> 0) ErrChunkTypeInitFlagZero
    (and_then (chunk_body raw h) (\<lambda>r.
     and_then (get_u32 r) (\<lambda>(tag, r).
     and_then (get_u32 r) (\<lambda>(arwnd, r).
     and_then (get_u16 r) (\<lambda>(os, r).
     and_then (get_u16 r) (\<lambda>(is, r).
     and_then (get_u32 r) (\<lambda>(itsn, _).
     and_then (init_params_loop raw (CHUNK_HEADER_SIZE + vl) offset
                 (int (length raw) - int offset)) (\<lambda>ps.
     Ok \<lparr>ci_is_ack = (ch_typ h = CT_INIT_ACK), ci_initiate_tag = tag,
         ci_advertised_receiver_window_credit = arwnd, ci_num_outbound_streams = os,
         ci_num_inbound_streams = is, ci_initial_tsn = itsn, ci_params = ps\<rparr>))))))))))))"

definition init_marshal :: "chunk_init \<Rightarrow> bytes" where
  "init_marshal i =
     chunk_header_marshal (init_header i) @
     be32 (ci_initiate_tag i) @ be32 (ci_advertised_receiver_window_credit i) @
     be16 (ci_num_outbound_streams i) @ be16 (ci_num_inbound_streams i) @
     be32 (ci_initial_tsn i) @ params_marshal (ci_params i)"

definition init_check :: "chunk_init \<Rightarrow> unit result" where
  "init_check i =
     guard (ci_initiate_tag i = 0) ErrChunkTypeInitInitiateTagZero
    (guard (ci_num_inbound_streams i = 0) ErrInitInboundStreamRequestZero
    (guard (ci_num_outbound_streams i = 0) ErrInitOutboundStreamRequestZero
    (guard (ci_advertised_receiver_window_credit i < 1500) ErrInitAdvertisedReceiver1500
    (Ok ()))))"

definition set_supported_extensions :: "chunk_init \<Rightarrow> chunk_init" where
  "set_supported_extensions i =
     i\<lparr>ci_params := ci_params i @ [PSupportedExtensions [CT_RECONFIG, CT_FORWARD_TSN]]\<rparr>"

section \<open>ABORT and ERROR\<close>

record error_cause =
  ec_code :: u16
  ec_raw :: bytes

definition ERROR_CAUSE_HEADER_LENGTH :: nat where
  "ERROR_CAUSE_HEADER_LENGTH = 4"

definition error_cause_length :: "error_cause \<Rightarrow> nat" where
  "error_cause_length e = length (ec_raw e) + ERROR_CAUSE_HEADER_LENGTH"

definition error_cause_unmarshal :: "bytes \<Rightarrow> error_cause result" where
  "error_cause_unmarshal buf =
     guard (length buf < ERROR_CAUSE_HEADER_LENGTH) ErrErrorCauseTooSmall
       (and_then (get_u16 buf) (\<lambda>(code, r).
        and_then (get_u16 r) (\<lambda>(len, _).
        guard (unat len < ERROR_CAUSE_HEADER_LENGTH) ErrErrorCauseTooSmall
       (let value_length = unat len - ERROR_CAUSE_HEADER_LENGTH in
        and_then (slice buf ERROR_CAUSE_HEADER_LENGTH (ERROR_CAUSE_HEADER_LENGTH + value_length))
          (\<lambda>raw. Ok \<lparr>ec_code = code, ec_raw = raw\<rparr>)))))"

definition error_cause_marshal :: "error_cause \<Rightarrow> bytes" where
  "error_cause_marshal e =
     be16 (ec_code e) @ be16 (of_nat (length (ec_raw e) + ERROR_CAUSE_HEADER_LENGTH)) @ ec_raw e"

text \<open>\<open>while offset + 4 <= raw.len()\<close>, shared by ABORT and ERROR.\<close>

function error_causes_loop :: "bytes \<Rightarrow> nat \<Rightarrow> nat \<Rightarrow> error_cause list result" where
  "error_causes_loop raw e offset =
    (if offset + 4 \<le> length raw
     then and_then (slice raw offset e) (\<lambda>b.
          and_then (error_cause_unmarshal b) (\<lambda>c.
          and_then (error_causes_loop raw e (offset + error_cause_length c)) (\<lambda>cs. Ok (c # cs))))
     else Ok [])"
  by pat_completeness auto
termination
  by (relation "measure (\<lambda>(raw, _, offset). length raw - offset)")
     (auto simp: error_cause_length_def ERROR_CAUSE_HEADER_LENGTH_def)

definition error_causes_value_length :: "error_cause list \<Rightarrow> nat" where
  "error_causes_value_length cs = fold (\<lambda>ec len. len + error_cause_length ec) cs 0"

definition abort_unmarshal :: "bytes \<Rightarrow> error_cause list result" where
  "abort_unmarshal raw =
     and_then (chunk_header_unmarshal raw) (\<lambda>h.
     guard (ch_typ h \<noteq> CT_ABORT) ErrChunkTypeNotAbort
      (error_causes_loop raw (CHUNK_HEADER_SIZE + unat (ch_value_length h)) CHUNK_HEADER_SIZE))"

definition abort_marshal :: "error_cause list \<Rightarrow> bytes" where
  "abort_marshal cs =
     chunk_header_marshal \<lparr>ch_typ = CT_ABORT, ch_flags = 0,
       ch_value_length = of_nat (error_causes_value_length cs)\<rparr> @
     concat (map error_cause_marshal cs)"

definition error_unmarshal :: "bytes \<Rightarrow> error_cause list result" where
  "error_unmarshal raw =
     and_then (chunk_header_unmarshal raw) (\<lambda>h.
     guard (ch_typ h \<noteq> CT_ERROR) ErrChunkTypeNotCt
      (error_causes_loop raw (CHUNK_HEADER_SIZE + unat (ch_value_length h)) CHUNK_HEADER_SIZE))"

definition error_marshal :: "error_cause list \<Rightarrow> bytes" where
  "error_marshal cs =
     chunk_header_marshal \<lparr>ch_typ = CT_ERROR, ch_flags = 0,
       ch_value_length = of_nat (error_causes_value_length cs)\<rparr> @
     concat (map error_cause_marshal cs)"

section \<open>COOKIE ECHO and the chunks without a body\<close>

definition cookie_echo_unmarshal :: "bytes \<Rightarrow> bytes result" where
  "cookie_echo_unmarshal raw =
     and_then (chunk_header_unmarshal raw) (\<lambda>h.
     guard (ch_typ h \<noteq> CT_COOKIE_ECHO) ErrChunkTypeNotCookieEcho (chunk_body raw h))"

definition cookie_echo_marshal :: "bytes \<Rightarrow> bytes" where
  "cookie_echo_marshal cookie =
     chunk_header_marshal \<lparr>ch_typ = CT_COOKIE_ECHO, ch_flags = 0,
       ch_value_length = of_nat (length cookie)\<rparr> @ cookie"

definition cookie_ack_unmarshal :: "bytes \<Rightarrow> unit result" where
  "cookie_ack_unmarshal raw =
     and_then (chunk_header_unmarshal raw) (\<lambda>h.
     guard (ch_typ h \<noteq> CT_COOKIE_ACK) ErrChunkTypeNotCookieAck (Ok ()))"

definition shutdown_ack_unmarshal :: "bytes \<Rightarrow> unit result" where
  "shutdown_ack_unmarshal raw =
     and_then (chunk_header_unmarshal raw) (\<lambda>h.
     guard (ch_typ h \<noteq> CT_SHUTDOWN_ACK) ErrChunkTypeNotShutdownAck (Ok ()))"

definition shutdown_complete_unmarshal :: "bytes \<Rightarrow> unit result" where
  "shutdown_complete_unmarshal raw =
     and_then (chunk_header_unmarshal raw) (\<lambda>h.
     guard (ch_typ h \<noteq> CT_SHUTDOWN_COMPLETE) ErrChunkTypeNotShutdownComplete (Ok ()))"

definition empty_chunk_marshal :: "u8 \<Rightarrow> bytes" where
  "empty_chunk_marshal ct = chunk_header_marshal \<lparr>ch_typ = ct, ch_flags = 0, ch_value_length = 0\<rparr>"

section \<open>SHUTDOWN\<close>

definition shutdown_unmarshal :: "bytes \<Rightarrow> u32 result" where
  "shutdown_unmarshal raw =
     and_then (chunk_header_unmarshal raw) (\<lambda>h.
     guard (ch_typ h \<noteq> CT_SHUTDOWN) ErrChunkTypeNotShutdown
    (guard (unat (ch_value_length h) + CHUNK_HEADER_SIZE \<noteq> 8) ErrChunkUnmarshalShutdown
    (guard (length raw \<noteq> CHUNK_HEADER_SIZE + 4) ErrInvalidChunkSize
    (and_then (chunk_body raw h) (\<lambda>r.
     and_then (get_u32 r) (\<lambda>(tsn, _). Ok tsn))))))"

definition shutdown_marshal :: "u32 \<Rightarrow> bytes" where
  "shutdown_marshal cum =
     chunk_header_marshal \<lparr>ch_typ = CT_SHUTDOWN, ch_flags = 0, ch_value_length = 4\<rparr> @ be32 cum"

section \<open>HEARTBEAT and HEARTBEAT ACK\<close>

definition heartbeat_value_length :: "param list \<Rightarrow> nat" where
  "heartbeat_value_length ps = fold (\<lambda>p len. len + PARAM_HEADER_LENGTH + param_value_length p) ps 0"

definition heartbeat_unmarshal :: "bytes \<Rightarrow> param list result" where
  "heartbeat_unmarshal raw =
     and_then (chunk_header_unmarshal raw) (\<lambda>h.
     guard (ch_typ h \<noteq> CT_HEARTBEAT) ErrChunkTypeNotHeartbeat
    (guard (length raw \<le> CHUNK_HEADER_SIZE) ErrHeartbeatNotLongEnoughInfo
    (and_then (chunk_body raw h) (\<lambda>b.
     and_then (build_param b) (\<lambda>p.
     guard (param_typ p \<noteq> HeartbeatInfo) ErrHeartbeatParam (Ok [p]))))))"

definition heartbeat_marshal :: "param list \<Rightarrow> bytes" where
  "heartbeat_marshal ps =
     chunk_header_marshal \<lparr>ch_typ = CT_HEARTBEAT, ch_flags = 0,
       ch_value_length = of_nat (heartbeat_value_length ps)\<rparr> @
     concat (map param_marshal ps)"

definition heartbeat_ack_unmarshal :: "bytes \<Rightarrow> param list result" where
  "heartbeat_ack_unmarshal raw =
     and_then (chunk_header_unmarshal raw) (\<lambda>h.
     guard (ch_typ h \<noteq> CT_HEARTBEAT_ACK) ErrChunkTypeNotHeartbeatAck
    (guard (length raw \<le> CHUNK_HEADER_SIZE) ErrHeartbeatNotLongEnoughInfo
    (and_then (chunk_body raw h) (\<lambda>b.
     and_then (build_param b) (\<lambda>p.
     guard (param_typ p \<noteq> HeartbeatInfo) ErrHeartbeatParam (Ok [p]))))))"

definition heartbeat_ack_marshal :: "param list \<Rightarrow> bytes result" where
  "heartbeat_ack_marshal ps =
     guard (length ps \<noteq> 1) ErrHeartbeatAckParams
    (guard (param_typ (hd ps) \<noteq> HeartbeatInfo) ErrHeartbeatAckNotHeartbeatInfo
    (Ok (chunk_header_marshal \<lparr>ch_typ = CT_HEARTBEAT_ACK, ch_flags = 0,
           ch_value_length = of_nat (params_value_length ps)\<rparr> @ params_marshal ps)))"

section \<open>RE-CONFIG\<close>

record chunk_reconfig =
  rc_param_a :: "param option"
  rc_param_b :: "param option"

definition reconfig_value_length :: "chunk_reconfig \<Rightarrow> nat" where
  "reconfig_value_length c =
    (let a_len = (case rc_param_a c of Some a \<Rightarrow> param_value_length a | None \<Rightarrow> 0);
         l = PARAM_HEADER_LENGTH + a_len in
     case rc_param_b c of
       Some b \<Rightarrow> l + (PARAM_HEADER_LENGTH + param_value_length b
                       + get_padding_size (PARAM_HEADER_LENGTH + a_len))
     | None \<Rightarrow> l)"

definition reconfig_unmarshal :: "bytes \<Rightarrow> chunk_reconfig result" where
  "reconfig_unmarshal raw =
     and_then (chunk_header_unmarshal raw) (\<lambda>h.
     guard (ch_typ h \<noteq> CT_RECONFIG) ErrChunkTypeNotReconfig
    (and_then (chunk_body raw h) (\<lambda>b.
     and_then (build_param b) (\<lambda>a.
     let padding = get_padding_size (PARAM_HEADER_LENGTH + param_value_length a);
         offset = CHUNK_HEADER_SIZE + PARAM_HEADER_LENGTH + param_value_length a + padding;
         e = CHUNK_HEADER_SIZE + unat (ch_value_length h) in
     if e > offset
     then and_then (slice raw offset e) (\<lambda>b2.
          and_then (build_param b2) (\<lambda>p2. Ok \<lparr>rc_param_a = Some a, rc_param_b = Some p2\<rparr>))
     else Ok \<lparr>rc_param_a = Some a, rc_param_b = None\<rparr>))))"

definition reconfig_marshal :: "chunk_reconfig \<Rightarrow> bytes result" where
  "reconfig_marshal c =
    (let hdr = chunk_header_marshal \<lparr>ch_typ = CT_RECONFIG, ch_flags = 0,
                 ch_value_length = of_nat (reconfig_value_length c)\<rparr> in
     case rc_param_a c of
       None \<Rightarrow> Fail ErrChunkReconfigInvalidParamA
     | Some a \<Rightarrow>
        (case rc_param_b c of
           None \<Rightarrow> Ok (hdr @ param_marshal a)
         | Some b \<Rightarrow>
             Ok (hdr @ param_marshal a @
                 replicate (get_padding_size (PARAM_HEADER_LENGTH + param_value_length a)) 0 @
                 param_marshal b)))"

section \<open>The trait object\<close>

text \<open>\<open>Box<dyn Chunk>\<close>. INIT and INIT ACK share the type \<open>ChunkInit\<close>, as in the code.\<close>

datatype chunk =
    CInit chunk_init
  | CAbort "error_cause list"
  | CCookieEcho bytes
  | CCookieAck
  | CHeartbeat "param list"
  | CHeartbeatAck "param list"
  | CPayloadData chunk_payload_data
  | CSack chunk_selective_ack
  | CReconfig chunk_reconfig
  | CForwardTsn chunk_forward_tsn
  | CError "error_cause list"
  | CShutdown u32
  | CShutdownAck
  | CShutdownComplete

fun chunk_value_length :: "chunk \<Rightarrow> nat" where
  "chunk_value_length (CInit i) = init_value_length i"
| "chunk_value_length (CAbort cs) = error_causes_value_length cs"
| "chunk_value_length (CCookieEcho c) = length c"
| "chunk_value_length CCookieAck = 0"
| "chunk_value_length (CHeartbeat ps) = heartbeat_value_length ps"
| "chunk_value_length (CHeartbeatAck ps) = params_value_length ps"
| "chunk_value_length (CPayloadData d) = payload_data_value_length d"
| "chunk_value_length (CSack s) = sack_value_length s"
| "chunk_value_length (CReconfig c) = reconfig_value_length c"
| "chunk_value_length (CForwardTsn f) = forward_tsn_value_length f"
| "chunk_value_length (CError cs) = error_causes_value_length cs"
| "chunk_value_length (CShutdown _) = 4"
| "chunk_value_length CShutdownAck = 0"
| "chunk_value_length CShutdownComplete = 0"

fun chunk_marshal :: "chunk \<Rightarrow> bytes result" where
  "chunk_marshal (CInit i) = Ok (init_marshal i)"
| "chunk_marshal (CAbort cs) = Ok (abort_marshal cs)"
| "chunk_marshal (CCookieEcho c) = Ok (cookie_echo_marshal c)"
| "chunk_marshal CCookieAck = Ok (empty_chunk_marshal CT_COOKIE_ACK)"
| "chunk_marshal (CHeartbeat ps) = Ok (heartbeat_marshal ps)"
| "chunk_marshal (CHeartbeatAck ps) = heartbeat_ack_marshal ps"
| "chunk_marshal (CPayloadData d) = Ok (payload_data_marshal d)"
| "chunk_marshal (CSack s) = Ok (sack_marshal s)"
| "chunk_marshal (CReconfig c) = reconfig_marshal c"
| "chunk_marshal (CForwardTsn f) = Ok (forward_tsn_marshal f)"
| "chunk_marshal (CError cs) = Ok (error_marshal cs)"
| "chunk_marshal (CShutdown t) = Ok (shutdown_marshal t)"
| "chunk_marshal CShutdownAck = Ok (empty_chunk_marshal CT_SHUTDOWN_ACK)"
| "chunk_marshal CShutdownComplete = Ok (empty_chunk_marshal CT_SHUTDOWN_COMPLETE)"

text \<open>\<open>check\<close> is trivial for every chunk but INIT and INIT ACK.\<close>

fun chunk_check :: "chunk \<Rightarrow> unit result" where
  "chunk_check (CInit i) = init_check i"
| "chunk_check _ = Ok ()"

declare forward_tsn_streams_loop.simps [simp del]
declare init_params_loop.simps [simp del]
declare error_causes_loop.simps [simp del]

end
