(* ===== verification/Sctp_Chunk_Codec.thy ===== *)
theory Sctp_Chunk_Codec
  imports Sctp_Chunk
begin

text \<open>Correctness of the chunk codecs: \<open>unmarshal\<close> inverts \<open>marshal\<close> on every
chunk whose length fits the length field, marshalled chunks have the length
\<open>CHUNK_HEADER_SIZE + value_length\<close>, and the parsers that check every length
they use cannot panic. The locale \<open>wire_codec\<close> is the contract that the packet
layer uses.\<close>

section \<open>The contract\<close>

text \<open>A codec: well-formed values survive the wire, up to the fields that only the
sender uses (\<open>wire\<close> resets those).\<close>

locale wire_codec =
  fixes enc :: "'a \<Rightarrow> bytes" and dec :: "bytes \<Rightarrow> 'a result"
    and wf :: "'a \<Rightarrow> bool" and wire :: "'a \<Rightarrow> 'a" and vlen :: "'a \<Rightarrow> nat"
  assumes dec_enc: "wf x \<Longrightarrow> dec (enc x) = Ok (wire x)"
    and length_enc: "wf x \<Longrightarrow> length (enc x) = 4 + vlen x"
begin

lemma enc_determines_wire: "wf x \<Longrightarrow> wf y \<Longrightarrow> enc x = enc y \<Longrightarrow> wire x = wire y"
  using dec_enc [of x] dec_enc [of y] by auto

lemma enc_determines_length: "wf x \<Longrightarrow> wf y \<Longrightarrow> enc x = enc y \<Longrightarrow> vlen x = vlen y"
  using length_enc [of x] length_enc [of y] by simp

end

section \<open>Padding and headers\<close>

lemma get_padding_size_less: "get_padding_size n < 4"
  by (simp add: get_padding_size_def PADDING_MULTIPLE_def)

lemma get_padding_size_mod: "(n + get_padding_size n) mod 4 = 0"
proof -
  have "n mod 4 = 0 \<or> n mod 4 = 1 \<or> n mod 4 = 2 \<or> n mod 4 = 3" by arith
  then show ?thesis
    by (auto simp: get_padding_size_def PADDING_MULTIPLE_def mod_add_left_eq [of n 4, symmetric])
qed

lemma get_padding_size_0 [simp]: "n mod 4 = 0 \<Longrightarrow> get_padding_size n = 0"
  by (simp add: get_padding_size_def PADDING_MULTIPLE_def)

lemma get_padding_size_header [simp]: "get_padding_size (4 + n) = get_padding_size n"
  unfolding get_padding_size_def PADDING_MULTIPLE_def by simp

lemma get_padding_size_aligned: "m mod 4 = 0 \<Longrightarrow> get_padding_size (m + n) = get_padding_size n"
  unfolding get_padding_size_def PADDING_MULTIPLE_def by (metis add_0 mod_add_left_eq)

lemma length_chunk_header_marshal [simp]: "length (chunk_header_marshal h) = 4"
  by (simp add: chunk_header_marshal_def)

lemma chunk_header_unmarshal_marshal:
  assumes "length body + 4 < 65536"
  shows "chunk_header_unmarshal
      (chunk_header_marshal \<lparr>ch_typ = t, ch_flags = f, ch_value_length = of_nat (length body)\<rparr> @ body)
    = Ok \<lparr>ch_typ = t, ch_flags = f, ch_value_length = of_nat (length body)\<rparr>"
proof -
  have "uint (of_nat (length body) + 4 :: u16) = int (length body) + 4"
    using unat_vl_plus_4 [OF assms] by (metis of_nat_add of_nat_numeral uint_nat)
  with assms show ?thesis
    by (simp add: chunk_header_unmarshal_def chunk_header_marshal_def CHUNK_HEADER_SIZE_def
        guard_def get_u16_be16 unat_vl_plus_4 Let_def)
qed

lemma chunk_body_marshal:
  assumes "length body + 4 < 65536"
  shows "chunk_body (chunk_header_marshal h @ body)
      \<lparr>ch_typ = t, ch_flags = f, ch_value_length = of_nat (length body)\<rparr> = Ok body"
proof -
  have "slice (chunk_header_marshal h @ body) 4 (4 + length body) = Ok body"
    by (rule slice_suffix) simp_all
  with assms show ?thesis
    by (simp add: chunk_body_def CHUNK_HEADER_SIZE_def unat_of_nat_u16)
qed

text \<open>The facts every codec proof starts from.\<close>

lemma chunk_frame:
  fixes body :: bytes
  assumes "length body + 4 < 65536" and "vl = length body"
    and "raw = chunk_header_marshal \<lparr>ch_typ = t, ch_flags = f, ch_value_length = of_nat vl\<rparr> @ body"
  shows "chunk_header_unmarshal raw = Ok \<lparr>ch_typ = t, ch_flags = f, ch_value_length = of_nat vl\<rparr>"
    and "chunk_body raw \<lparr>ch_typ = t, ch_flags = f, ch_value_length = of_nat vl\<rparr> = Ok body"
    and "length raw = 4 + vl"
    and "unat (of_nat vl :: u16) = vl"
    and "drop 4 raw = body"
proof -
  show "chunk_header_unmarshal raw = Ok \<lparr>ch_typ = t, ch_flags = f, ch_value_length = of_nat vl\<rparr>"
    unfolding assms(2,3) by (rule chunk_header_unmarshal_marshal [OF assms(1)])
  show "chunk_body raw \<lparr>ch_typ = t, ch_flags = f, ch_value_length = of_nat vl\<rparr> = Ok body"
    unfolding assms(2,3) by (rule chunk_body_marshal [OF assms(1)])
  show "length raw = 4 + vl" "drop 4 raw = body"
    unfolding assms(2,3) by simp_all
  show "unat (of_nat vl :: u16) = vl"
    using assms(1,2) by (simp only: unat_of_nat_u16)
qed

text \<open>The same facts with the header kept abstract, for parsers that compare lengths.\<close>

lemma chunk_frame_opaque:
  fixes body :: bytes
  assumes "length body + 4 < 65536" and "vl = length body"
    and "raw = chunk_header_marshal \<lparr>ch_typ = t, ch_flags = f, ch_value_length = of_nat vl\<rparr> @ body"
  obtains h where "chunk_header_unmarshal raw = Ok h" "chunk_body raw h = Ok body"
    "ch_typ h = t" "ch_flags h = f" "unat (ch_value_length h) = vl"
  using chunk_frame [OF assms] by (metis chunk_header.select_convs(1,2,3))

lemmas size_defs = CHUNK_HEADER_SIZE_def PARAM_HEADER_LENGTH_def PAYLOAD_DATA_HEADER_SIZE_def
  SELECTIVE_ACK_HEADER_SIZE_def INIT_CHUNK_MIN_LENGTH_def NEW_CUMULATIVE_TSN_LENGTH_def
  FORWARD_TSN_STREAM_LENGTH_def ERROR_CAUSE_HEADER_LENGTH_def

section \<open>DATA\<close>

definition payload_data_on_wire :: "chunk_payload_data \<Rightarrow> chunk_payload_data" where
  "payload_data_on_wire c =
     c\<lparr>pd_acked := False, pd_miss_indicator := 0, pd_since := None, pd_nsent := 0,
       pd_abandoned := False, pd_all_inflight := False, pd_retransmit := False\<rparr>"

definition wf_payload_data :: "chunk_payload_data \<Rightarrow> bool" where
  "wf_payload_data c \<longleftrightarrow> CHUNK_HEADER_SIZE + payload_data_value_length c < 65536"

lemma ppi_of_code [simp]: "ppi_of (ppi_code p) = p"
  by (cases p) (simp_all add: ppi_of_def)

lemma payload_data_flags_bits:
  "payload_data_flags c AND 4 \<noteq> 0 \<longleftrightarrow> pd_unordered c"
  "payload_data_flags c AND 2 \<noteq> 0 \<longleftrightarrow> pd_beginning_fragment c"
  "payload_data_flags c AND 1 \<noteq> 0 \<longleftrightarrow> pd_ending_fragment c"
  "payload_data_flags c AND 8 \<noteq> 0 \<longleftrightarrow> pd_immediate_sack c"
  unfolding payload_data_flags_def Let_def
  by (cases "pd_unordered c"; cases "pd_beginning_fragment c"; cases "pd_ending_fragment c";
      cases "pd_immediate_sack c"; simp)+

lemma payload_data_unmarshal_marshal:
  assumes "wf_payload_data c"
  shows "payload_data_unmarshal (payload_data_marshal c) = Ok (payload_data_on_wire c)"
proof -
  let ?body = "be32 (pd_tsn c) @ be16 (pd_stream_identifier c) @ be16 (pd_stream_sequence_number c) @
     be32 (ppi_code (pd_payload_type c)) @ pd_user_data c"
  let ?raw = "payload_data_marshal c"
  have vl: "payload_data_value_length c = length ?body"
    by (simp add: payload_data_value_length_def size_defs)
  have len: "length ?body + 4 < 65536"
    using assms by (simp add: wf_payload_data_def vl size_defs)
  note frame = chunk_frame [OF len vl, of ?raw,
      OF payload_data_marshal_def [unfolded payload_data_header_def]]
  have "slice ?raw 16 (4 + payload_data_value_length c) = Ok (pd_user_data c)"
    by (simp add: slice_def payload_data_marshal_def payload_data_value_length_def size_defs)
  moreover have "12 \<le> payload_data_value_length c"
    by (simp add: payload_data_value_length_def size_defs)
  ultimately show ?thesis using frame(1-4)
    by (simp add: payload_data_unmarshal_def guard_def size_defs get_u32_be32 get_u16_be16 payload_data_flags_bits payload_data_default_def
        payload_data_on_wire_def)
qed

lemma length_payload_data_marshal:
  "length (payload_data_marshal c) = 4 + payload_data_value_length c"
  by (simp add: payload_data_marshal_def payload_data_value_length_def size_defs)

interpretation data_codec: wire_codec payload_data_marshal payload_data_unmarshal wf_payload_data
    payload_data_on_wire payload_data_value_length
  by unfold_locales (simp_all add: payload_data_unmarshal_marshal length_payload_data_marshal)

section \<open>SACK\<close>

definition wf_sack :: "chunk_selective_ack \<Rightarrow> bool" where
  "wf_sack s \<longleftrightarrow> CHUNK_HEADER_SIZE + sack_value_length s < 65536"

lemma get_gap_ack_blocks_wire_enc:
  "get_gap_ack_blocks_wire (length gs)
     (concat (map (\<lambda>g. be16 (gb_start g) @ be16 (gb_end g)) gs) @ r) = Ok (gs, r)"
  by (induction gs) (simp_all add: get_u16_be16)

lemma length_concat_gap_blocks:
  "length (concat (map (\<lambda>g. be16 (gb_start g) @ be16 (gb_end g)) gs)) = 4 * length gs"
  by (induction gs) simp_all

lemma length_sack_marshal: "length (sack_marshal s) = 4 + sack_value_length s"
  by (simp add: sack_marshal_def sack_value_length_def size_defs length_concat_gap_blocks)

lemma sack_unmarshal_marshal:
  assumes "wf_sack s"
  shows "sack_unmarshal (sack_marshal s) = Ok s"
proof -
  let ?gaps = "concat (map (\<lambda>g. be16 (gb_start g) @ be16 (gb_end g)) (sa_gap_ack_blocks s))"
  let ?body = "be32 (sa_cumulative_tsn_ack s) @ be32 (sa_advertised_receiver_window_credit s) @
     be16 (of_nat (length (sa_gap_ack_blocks s))) @ be16 (of_nat (length (sa_duplicate_tsn s))) @
     ?gaps @ concat (map be32 (sa_duplicate_tsn s))"
  have vl: "sack_value_length s = length ?body"
    by (simp add: sack_value_length_def size_defs length_concat_gap_blocks)
  have len: "length ?body + 4 < 65536"
    using assms by (simp add: wf_sack_def vl size_defs)
  note frame = chunk_frame [OF len vl, of "sack_marshal s", OF sack_marshal_def [unfolded sack_header_def]]
  have "unat (of_nat (length (sa_gap_ack_blocks s)) :: u16) = length (sa_gap_ack_blocks s)"
    "unat (of_nat (length (sa_duplicate_tsn s)) :: u16) = length (sa_duplicate_tsn s)"
    using len by (simp_all add: unat_of_nat_u16 length_concat_gap_blocks)
  moreover have "get_u32s (length (sa_duplicate_tsn s)) (concat (map be32 (sa_duplicate_tsn s)))
      = Ok (sa_duplicate_tsn s, [])"
    using get_u32s_be32 [of "sa_duplicate_tsn s" "[]"] by simp
  moreover have "sack_value_length s \<ge> 12 + 4 * length (sa_gap_ack_blocks s) + 4 * length (sa_duplicate_tsn s)"
    by (simp add: sack_value_length_def size_defs)
  ultimately show ?thesis using frame(1-4)
    by (simp add: sack_unmarshal_def guard_def size_defs get_u32_be32 get_u16_be16
        get_gap_ack_blocks_wire_enc Let_def)
qed

interpretation sack_codec: wire_codec sack_marshal sack_unmarshal wf_sack id sack_value_length
  by unfold_locales (simp_all add: sack_unmarshal_marshal length_sack_marshal)

section \<open>FORWARD TSN\<close>

definition wf_forward_tsn :: "chunk_forward_tsn \<Rightarrow> bool" where
  "wf_forward_tsn f \<longleftrightarrow> CHUNK_HEADER_SIZE + forward_tsn_value_length f < 65536"

lemma length_concat_streams:
  "length (concat (map forward_tsn_stream_marshal ss)) = 4 * length ss"
  by (induction ss) (simp_all add: forward_tsn_stream_marshal_def)

lemma length_forward_tsn_marshal: "length (forward_tsn_marshal f) = 4 + forward_tsn_value_length f"
  by (simp add: forward_tsn_marshal_def forward_tsn_value_length_def size_defs length_concat_streams)

lemma forward_tsn_streams_loop_enc:
  assumes "buf = pre @ concat (map forward_tsn_stream_marshal ss)"
  shows "forward_tsn_streams_loop buf (length buf) (length pre) (4 * length ss) = Ok ss"
  using assms
proof (induction ss arbitrary: pre)
  case Nil then show ?case by (simp add: forward_tsn_streams_loop.simps)
next
  case (Cons s ss)
  let ?rest = "concat (map forward_tsn_stream_marshal ss)"
  have buf: "buf = (pre @ forward_tsn_stream_marshal s) @ ?rest" using Cons.prems by simp
  have "slice buf (length pre) (length buf) = Ok (forward_tsn_stream_marshal s @ ?rest)"
    using Cons.prems by (simp add: slice_def)
  moreover have "forward_tsn_stream_unmarshal (forward_tsn_stream_marshal s @ ?rest) = Ok s"
    by (simp add: forward_tsn_stream_unmarshal_def forward_tsn_stream_marshal_def guard_def
        size_defs get_u16_be16)
  moreover have "length (pre @ forward_tsn_stream_marshal s) = length pre + 4"
    by (simp add: forward_tsn_stream_marshal_def)
  ultimately show ?case using Cons.IH [OF buf]
    by (subst forward_tsn_streams_loop.simps) (simp add: size_defs)
qed

lemma forward_tsn_unmarshal_marshal:
  assumes "wf_forward_tsn f"
  shows "forward_tsn_unmarshal (forward_tsn_marshal f) = Ok f"
proof -
  let ?ss = "concat (map forward_tsn_stream_marshal (ft_streams f))"
  let ?body = "be32 (ft_new_cumulative_tsn f) @ ?ss"
  have vl: "forward_tsn_value_length f = length ?body"
    by (simp add: forward_tsn_value_length_def size_defs length_concat_streams)
  have len: "length ?body + 4 < 65536"
    using assms by (simp add: wf_forward_tsn_def vl size_defs)
  note frame = chunk_frame [OF len vl, of "forward_tsn_marshal f",
      OF forward_tsn_marshal_def [unfolded forward_tsn_header_def]]
  have "forward_tsn_streams_loop (forward_tsn_marshal f) (length (forward_tsn_marshal f)) 8
      (4 * length (ft_streams f)) = Ok (ft_streams f)"
    using forward_tsn_streams_loop_enc [of "forward_tsn_marshal f"
        "chunk_header_marshal (forward_tsn_header f) @ be32 (ft_new_cumulative_tsn f)" "ft_streams f"]
    by (simp add: forward_tsn_marshal_def)
  moreover have "length (forward_tsn_marshal f) - 8 = 4 * length (ft_streams f)"
      "4 \<le> forward_tsn_value_length f"
    by (simp_all add: length_forward_tsn_marshal forward_tsn_value_length_def size_defs)
  ultimately show ?thesis using frame(1-4)
    by (simp add: forward_tsn_unmarshal_def guard_def size_defs Let_def get_u32_be32)
qed

interpretation forward_tsn_codec: wire_codec forward_tsn_marshal forward_tsn_unmarshal
    wf_forward_tsn id forward_tsn_value_length
  by unfold_locales (simp_all add: forward_tsn_unmarshal_marshal length_forward_tsn_marshal)

section \<open>INIT and INIT ACK\<close>

text \<open>The parameter loop runs only while more than four bytes remain, so a chunk
survives the wire when its last parameter has a value.\<close>

definition wf_params :: "param list \<Rightarrow> bool" where
  "wf_params ps \<longleftrightarrow> list_all wf_param ps \<and> (ps = [] \<or> param_value_length (last ps) > 0)"

text \<open>What the receiver sees of a parameter list: a last parameter without a value
(four bytes on the wire) is not read.\<close>

fun params_seen :: "param list \<Rightarrow> param list" where
  "params_seen [] = []"
| "params_seen [p] = (if param_value_length p = 0 then [] else [p])"
| "params_seen (p # ps) = p # params_seen ps"

lemma params_seen_wf: "wf_params ps \<Longrightarrow> params_seen ps = ps"
  by (induction ps rule: params_seen.induct) (auto simp: wf_params_def)

definition wf_init :: "chunk_init \<Rightarrow> bool" where
  "wf_init i \<longleftrightarrow> CHUNK_HEADER_SIZE + init_value_length i < 65536 \<and> wf_params (ci_params i)"

lemma length_params_marshal: "length (params_marshal ps) = params_value_length ps"
  by (induction ps rule: params_marshal.induct) (simp_all add: length_param_marshal)

lemma params_marshal_ge: "ps \<noteq> [] \<Longrightarrow> 4 \<le> length (params_marshal ps)"
  by (induction ps rule: params_marshal.induct) (simp_all add: length_param_marshal size_defs)

lemma length_init_marshal: "length (init_marshal i) = 4 + init_value_length i"
  by (simp add: init_marshal_def init_value_length_def length_params_marshal)

lemma init_params_loop_step:
  assumes "remaining > 4" "offset < e" "slice raw offset e = Ok b" "build_param b = Ok p"
    and "n = PARAM_HEADER_LENGTH + param_value_length p
           + get_padding_size (PARAM_HEADER_LENGTH + param_value_length p)"
    and "init_params_loop raw e (offset + n) (remaining - int n) = Ok ps"
  shows "init_params_loop raw e offset remaining = Ok (p # ps)"
  using assms by (subst init_params_loop.simps) (simp add: Let_def)

lemma init_params_loop_enc:
  assumes "raw = pre @ params_marshal ps" and "list_all wf_param ps"
  shows "init_params_loop raw (length raw) (length pre) (int (length (params_marshal ps))) = Ok (params_seen ps)"
  using assms
proof (induction ps arbitrary: pre rule: params_marshal.induct)
  case 1
  then show ?case by (simp add: init_params_loop.simps)
next
  case (2 p)
  have sl: "slice raw (length pre) (length raw) = Ok (param_marshal p @ [])"
    using 2 by (simp add: slice_def)
  have "build_param (param_marshal p @ []) = Ok p"
    using 2 by (intro build_param_marshal) simp
  with sl show ?case using 2
    by (subst init_params_loop.simps)
       (simp add: length_param_marshal size_defs init_params_loop.simps Let_def)
next
  case (3 p q ps)
  let ?pad = "replicate (get_padding_size (length (param_marshal p))) (0 :: u8)"
  let ?rest = "params_marshal (q # ps)"
  have raw: "raw = (pre @ param_marshal p @ ?pad) @ ?rest" using 3 by simp
  have IH: "init_params_loop raw (length raw) (length (pre @ param_marshal p @ ?pad))
      (int (length ?rest)) = Ok (params_seen (q # ps))"
    using 3 raw by (intro "3.IH") auto
  have sl: "slice raw (length pre) (length raw) = Ok (param_marshal p @ ?pad @ ?rest)"
    using 3 by (simp add: slice_def)
  have bp: "build_param (param_marshal p @ ?pad @ ?rest) = Ok p"
    using 3 by (intro build_param_marshal) simp
  have ge: "4 \<le> length ?rest" by (rule params_marshal_ge) simp
  let ?n = "length (param_marshal p @ ?pad)"
  have total: "length (params_marshal (p # q # ps)) = ?n + length ?rest" by simp
  have "init_params_loop raw (length raw) (length pre) (int (length (params_marshal (p # q # ps))))
      = Ok (p # params_seen (q # ps))"
  proof (rule init_params_loop_step [OF _ _ sl bp])
    show "?n = PARAM_HEADER_LENGTH + param_value_length p
        + get_padding_size (PARAM_HEADER_LENGTH + param_value_length p)"
      by (simp add: length_param_marshal)
    show "init_params_loop raw (length raw) (length pre + ?n)
        (int (length (params_marshal (p # q # ps))) - int ?n) = Ok (params_seen (q # ps))"
      using IH unfolding total by (simp add: add.assoc)
    show "4 < int (length (params_marshal (p # q # ps)))" "length pre < length raw"
      using ge raw by (simp_all add: length_param_marshal size_defs)
  qed
  then show ?case by simp
qed

lemma init_unmarshal_frame:
  assumes "CHUNK_HEADER_SIZE + init_value_length i < 65536"
    and "init_params_loop (init_marshal i) (4 + init_value_length i) 20
           (int (init_value_length i) - 16) = Ok ps"
  shows "init_unmarshal (init_marshal i) = Ok (i\<lparr>ci_params := ps\<rparr>)"
proof -
  let ?body = "be32 (ci_initiate_tag i) @ be32 (ci_advertised_receiver_window_credit i) @
     be16 (ci_num_outbound_streams i) @ be16 (ci_num_inbound_streams i) @
     be32 (ci_initial_tsn i) @ params_marshal (ci_params i)"
  have vl: "init_value_length i = length ?body"
    by (simp add: init_value_length_def length_params_marshal)
  have len: "length ?body + 4 < 65536"
    using assms by (simp add: vl size_defs)
  note frame = chunk_frame [OF len vl, of "init_marshal i", OF init_marshal_def [unfolded init_header_def]]
  have "16 \<le> init_value_length i" by (simp add: init_value_length_def)
  with frame(1-4) assms(2) show ?thesis
    by (simp add: init_unmarshal_def guard_def size_defs Let_def get_u32_be32 get_u16_be16
        CT_INIT_def CT_INIT_ACK_def)
qed

lemma init_unmarshal_seen:
  assumes "CHUNK_HEADER_SIZE + init_value_length i < 65536" "list_all wf_param (ci_params i)"
  shows "init_unmarshal (init_marshal i) = Ok (i\<lparr>ci_params := params_seen (ci_params i)\<rparr>)"
proof -
  let ?pre = "chunk_header_marshal (init_header i) @
     be32 (ci_initiate_tag i) @ be32 (ci_advertised_receiver_window_credit i) @
     be16 (ci_num_outbound_streams i) @ be16 (ci_num_inbound_streams i) @ be32 (ci_initial_tsn i)"
  have "init_params_loop (init_marshal i) (length (init_marshal i)) (length ?pre)
      (int (length (params_marshal (ci_params i)))) = Ok (params_seen (ci_params i))"
    using assms(2) by (intro init_params_loop_enc) (simp_all add: init_marshal_def)
  with assms(1) show ?thesis
    by (intro init_unmarshal_frame)
       (simp_all add: length_init_marshal length_params_marshal init_value_length_def)
qed

lemma init_unmarshal_marshal: "wf_init i \<Longrightarrow> init_unmarshal (init_marshal i) = Ok i"
  using init_unmarshal_seen [of i] params_seen_wf [of "ci_params i"]
  by (simp add: wf_init_def wf_params_def)

interpretation init_codec: wire_codec init_marshal init_unmarshal wf_init id init_value_length
  by unfold_locales (simp_all add: init_unmarshal_marshal length_init_marshal)

section \<open>ABORT and ERROR\<close>

definition wf_error_causes :: "error_cause list \<Rightarrow> bool" where
  "wf_error_causes cs \<longleftrightarrow> CHUNK_HEADER_SIZE + error_causes_value_length cs < 65536"

lemma fold_add_sum: "fold (\<lambda>x len. len + f x) xs (n :: nat) = n + sum_list (map f xs)"
  by (induction xs arbitrary: n) simp_all

lemma error_causes_value_length_sum:
  "error_causes_value_length cs = sum_list (map error_cause_length cs)"
  by (simp add: error_causes_value_length_def fold_add_sum)

lemma length_concat_error_causes:
  "length (concat (map error_cause_marshal cs)) = error_causes_value_length cs"
  by (induction cs)
     (simp_all add: error_causes_value_length_sum error_cause_marshal_def error_cause_length_def size_defs)

lemma error_cause_unmarshal_marshal:
  assumes "error_cause_length c < 65536"
  shows "error_cause_unmarshal (error_cause_marshal c @ rest) = Ok c"
proof -
  have "slice (error_cause_marshal c @ rest) 4 (4 + length (ec_raw c)) = Ok (ec_raw c)"
    using slice_middle [of 4 "be16 (ec_code c) @ be16 (of_nat (length (ec_raw c)) + 4)"
        "4 + length (ec_raw c)" "ec_raw c" rest]
    by (simp add: error_cause_marshal_def size_defs add.commute)
  moreover have "unat (of_nat (length (ec_raw c)) + 4 :: u16) = length (ec_raw c) + 4"
    using assms by (intro unat_vl_plus_4) (simp add: error_cause_length_def size_defs)
  ultimately show ?thesis
    by (simp add: error_cause_unmarshal_def error_cause_marshal_def guard_def size_defs
        get_u16_be16 Let_def add.commute)
qed

lemma error_causes_loop_enc:
  assumes "raw = pre @ concat (map error_cause_marshal cs)"
    and "list_all (\<lambda>c. error_cause_length c < 65536) cs"
  shows "error_causes_loop raw (length raw) (length pre) = Ok cs"
  using assms
proof (induction cs arbitrary: pre)
  case Nil then show ?case by (simp add: error_causes_loop.simps)
next
  case (Cons c cs)
  let ?rest = "concat (map error_cause_marshal cs)"
  have len: "length (error_cause_marshal c) = error_cause_length c" "4 \<le> error_cause_length c"
    by (simp_all add: error_cause_marshal_def error_cause_length_def size_defs)
  have raw: "raw = (pre @ error_cause_marshal c) @ ?rest" using Cons.prems by simp
  have "slice raw (length pre) (length raw) = Ok (error_cause_marshal c @ ?rest)"
    using Cons.prems by (simp add: slice_def)
  moreover have "error_causes_loop raw (length raw) (length pre + error_cause_length c) = Ok cs"
    using Cons.IH [OF raw] Cons.prems len by simp
  moreover have "error_cause_unmarshal (error_cause_marshal c @ ?rest) = Ok c"
    using Cons.prems by (intro error_cause_unmarshal_marshal) simp
  moreover have "length pre + 4 \<le> length raw" using raw len by simp
  ultimately show ?case by (subst error_causes_loop.simps) simp
qed

lemma wf_error_causes_each:
  assumes "wf_error_causes cs"
  shows "list_all (\<lambda>c. error_cause_length c < 65536) cs"
proof -
  have "error_cause_length c \<le> error_causes_value_length cs" if "c \<in> set cs" for c
    using that member_le_sum_list [of "error_cause_length c" "map error_cause_length cs"]
    by (simp add: error_causes_value_length_sum)
  with assms show ?thesis by (fastforce simp: wf_error_causes_def list_all_iff)
qed

lemma error_causes_frame:
  assumes "wf_error_causes cs"
    and "raw = chunk_header_marshal \<lparr>ch_typ = t, ch_flags = 0,
       ch_value_length = of_nat (error_causes_value_length cs)\<rparr> @ concat (map error_cause_marshal cs)"
  shows "chunk_header_unmarshal raw = Ok \<lparr>ch_typ = t, ch_flags = 0,
       ch_value_length = of_nat (error_causes_value_length cs)\<rparr>"
    and "error_causes_loop raw (4 + unat (of_nat (error_causes_value_length cs) :: u16)) 4 = Ok cs"
proof -
  have vl: "error_causes_value_length cs = length (concat (map error_cause_marshal cs))"
    by (rule length_concat_error_causes [symmetric])
  have len: "length (concat (map error_cause_marshal cs)) + 4 < 65536"
    using assms(1) by (simp add: wf_error_causes_def vl size_defs)
  note frame = chunk_frame [OF len vl assms(2)]
  show "chunk_header_unmarshal raw = Ok \<lparr>ch_typ = t, ch_flags = 0,
       ch_value_length = of_nat (error_causes_value_length cs)\<rparr>"
    by (rule frame(1))
  show "error_causes_loop raw (4 + unat (of_nat (error_causes_value_length cs) :: u16)) 4 = Ok cs"
    using error_causes_loop_enc [OF assms(2) wf_error_causes_each [OF assms(1)]] frame(3,4) by simp
qed

lemma length_abort_marshal: "length (abort_marshal cs) = 4 + error_causes_value_length cs"
  by (simp add: abort_marshal_def length_concat_error_causes)

lemma length_error_marshal: "length (error_marshal cs) = 4 + error_causes_value_length cs"
  by (simp add: error_marshal_def length_concat_error_causes)

lemma abort_unmarshal_marshal: "wf_error_causes cs \<Longrightarrow> abort_unmarshal (abort_marshal cs) = Ok cs"
  using error_causes_frame [of cs "abort_marshal cs", OF _ abort_marshal_def]
  by (simp add: abort_unmarshal_def guard_def size_defs del: unat_of_nat unsigned_of_nat)

lemma error_unmarshal_marshal: "wf_error_causes cs \<Longrightarrow> error_unmarshal (error_marshal cs) = Ok cs"
  using error_causes_frame [of cs "error_marshal cs", OF _ error_marshal_def]
  by (simp add: error_unmarshal_def guard_def size_defs del: unat_of_nat unsigned_of_nat)

interpretation abort_codec: wire_codec abort_marshal abort_unmarshal wf_error_causes id
    error_causes_value_length
  by unfold_locales (simp_all add: abort_unmarshal_marshal length_abort_marshal)

interpretation error_codec: wire_codec error_marshal error_unmarshal wf_error_causes id
    error_causes_value_length
  by unfold_locales (simp_all add: error_unmarshal_marshal length_error_marshal)

section \<open>COOKIE ECHO, SHUTDOWN and the empty chunks\<close>

lemma length_cookie_echo_marshal: "length (cookie_echo_marshal c) = 4 + length c"
  by (simp add: cookie_echo_marshal_def)

lemma cookie_echo_unmarshal_marshal:
  assumes "CHUNK_HEADER_SIZE + length c < 65536"
  shows "cookie_echo_unmarshal (cookie_echo_marshal c) = Ok c"
proof -
  have len: "length c + 4 < 65536" using assms by (simp add: size_defs)
  show ?thesis
    using chunk_frame [OF len refl, of "cookie_echo_marshal c", OF cookie_echo_marshal_def]
    by (simp add: cookie_echo_unmarshal_def guard_def)
qed

interpretation cookie_codec: wire_codec cookie_echo_marshal cookie_echo_unmarshal
    "\<lambda>c. CHUNK_HEADER_SIZE + length c < 65536" id length
  by unfold_locales (simp_all add: cookie_echo_unmarshal_marshal length_cookie_echo_marshal)

lemma empty_chunk_header:
  "chunk_header_unmarshal (empty_chunk_marshal t) = Ok \<lparr>ch_typ = t, ch_flags = 0, ch_value_length = 0\<rparr>"
  using chunk_header_unmarshal_marshal [of "[]" t 0] by (simp add: empty_chunk_marshal_def)

lemma length_shutdown_marshal: "length (shutdown_marshal t) = 4 + 4"
  by (simp add: shutdown_marshal_def)

lemma shutdown_unmarshal_marshal: "shutdown_unmarshal (shutdown_marshal t) = Ok t"
proof -
  have len: "length (be32 t) + 4 < 65536" "4 = length (be32 t)" by simp_all
  have raw: "shutdown_marshal t = chunk_header_marshal
      \<lparr>ch_typ = CT_SHUTDOWN, ch_flags = 0, ch_value_length = of_nat 4\<rparr> @ be32 t"
    by (simp add: shutdown_marshal_def)
  obtain h where "chunk_header_unmarshal (shutdown_marshal t) = Ok h"
      "chunk_body (shutdown_marshal t) h = Ok (be32 t)"
      "ch_typ h = CT_SHUTDOWN" "unat (ch_value_length h) = 4"
    using chunk_frame_opaque [OF len raw] by metis
  moreover have "get_u32 (be32 t) = Ok (t, [])" using get_u32_be32 [of t "[]"] by simp
  ultimately show ?thesis
    by (simp add: shutdown_unmarshal_def guard_def size_defs length_shutdown_marshal)
qed

interpretation shutdown_codec: wire_codec shutdown_marshal shutdown_unmarshal
    "\<lambda>_. True" id "\<lambda>_. 4"
  by unfold_locales (simp_all add: shutdown_unmarshal_marshal length_shutdown_marshal)

section \<open>HEARTBEAT\<close>

fun wf_heartbeat :: "param list \<Rightarrow> bool" where
  "wf_heartbeat [PHeartbeatInfo info] = (CHUNK_HEADER_SIZE + PARAM_HEADER_LENGTH + length info < 65536)"
| "wf_heartbeat _ = False"

lemma heartbeat_frame:
  assumes "CHUNK_HEADER_SIZE + PARAM_HEADER_LENGTH + length info < 65536"
    and "raw = chunk_header_marshal \<lparr>ch_typ = t, ch_flags = 0,
           ch_value_length = of_nat (4 + length info)\<rparr> @ param_marshal (PHeartbeatInfo info)"
  shows "chunk_header_unmarshal raw = Ok \<lparr>ch_typ = t, ch_flags = 0,
           ch_value_length = of_nat (4 + length info)\<rparr>"
    and "chunk_body raw \<lparr>ch_typ = t, ch_flags = 0, ch_value_length = of_nat (4 + length info)\<rparr>
           = Ok (param_marshal (PHeartbeatInfo info))"
    and "length raw = 8 + length info"
    and "build_param (param_marshal (PHeartbeatInfo info)) = Ok (PHeartbeatInfo info)"
proof -
  have vl: "4 + length info = length (param_marshal (PHeartbeatInfo info))"
    by (simp add: length_param_marshal size_defs)
  have len: "length (param_marshal (PHeartbeatInfo info)) + 4 < 65536"
    using assms(1) by (simp add: length_param_marshal size_defs)
  note frame = chunk_frame [OF len vl assms(2)]
  show "chunk_header_unmarshal raw = Ok \<lparr>ch_typ = t, ch_flags = 0,
           ch_value_length = of_nat (4 + length info)\<rparr>" by (rule frame(1))
  show "chunk_body raw \<lparr>ch_typ = t, ch_flags = 0, ch_value_length = of_nat (4 + length info)\<rparr>
           = Ok (param_marshal (PHeartbeatInfo info))" by (rule frame(2))
  show "length raw = 8 + length info" using frame(3) by simp
  show "build_param (param_marshal (PHeartbeatInfo info)) = Ok (PHeartbeatInfo info)"
    using build_param_marshal [of "PHeartbeatInfo info" "[]"] assms(1)
    by (simp add: wf_param_def size_defs)
qed

lemma heartbeat_unmarshal_marshal:
  assumes "wf_heartbeat ps"
  shows "heartbeat_unmarshal (heartbeat_marshal ps) = Ok ps"
    and "length (heartbeat_marshal ps) = 4 + heartbeat_value_length ps"
proof -
  obtain info where ps: "ps = [PHeartbeatInfo info]" "CHUNK_HEADER_SIZE + PARAM_HEADER_LENGTH + length info < 65536"
    using assms by (cases ps rule: wf_heartbeat.cases) auto
  have raw: "heartbeat_marshal ps = chunk_header_marshal \<lparr>ch_typ = CT_HEARTBEAT, ch_flags = 0,
           ch_value_length = of_nat (4 + length info)\<rparr> @ param_marshal (PHeartbeatInfo info)"
    by (simp add: heartbeat_marshal_def heartbeat_value_length_def ps size_defs)
  show "heartbeat_unmarshal (heartbeat_marshal ps) = Ok ps"
    using heartbeat_frame [OF ps(2) raw] by (simp add: heartbeat_unmarshal_def guard_def size_defs ps)
  show "length (heartbeat_marshal ps) = 4 + heartbeat_value_length ps"
    unfolding raw by (simp add: length_param_marshal heartbeat_value_length_def ps size_defs)
qed

interpretation heartbeat_codec: wire_codec heartbeat_marshal heartbeat_unmarshal wf_heartbeat id
    heartbeat_value_length
  by unfold_locales (simp_all add: heartbeat_unmarshal_marshal)

section \<open>RE-CONFIG\<close>

definition wf_reconfig :: "chunk_reconfig \<Rightarrow> bool" where
  "wf_reconfig c \<longleftrightarrow> CHUNK_HEADER_SIZE + reconfig_value_length c < 65536 \<and>
     (\<exists>a. rc_param_a c = Some a \<and> wf_param a) \<and> (case rc_param_b c of None \<Rightarrow> True | Some b \<Rightarrow> wf_param b)"

lemma reconfig_single:
  assumes "rc_param_a c = Some a" "rc_param_b c = None"
    "CHUNK_HEADER_SIZE + reconfig_value_length c < 65536" "wf_param a"
    "reconfig_marshal c = Ok raw"
  shows "reconfig_unmarshal raw = Ok c" "length raw = 4 + reconfig_value_length c"
proof -
  have vl: "reconfig_value_length c = length (param_marshal a)"
    using assms by (simp add: reconfig_value_length_def length_param_marshal Let_def)
  have len: "length (param_marshal a) + 4 < 65536" using assms(3) by (simp add: vl size_defs)
  have raw: "raw = chunk_header_marshal \<lparr>ch_typ = CT_RECONFIG, ch_flags = 0,
      ch_value_length = of_nat (reconfig_value_length c)\<rparr> @ param_marshal a"
    using assms by (simp add: reconfig_marshal_def Let_def)
  obtain h where h: "chunk_header_unmarshal raw = Ok h" "chunk_body raw h = Ok (param_marshal a)"
      "ch_typ h = CT_RECONFIG" "unat (ch_value_length h) = reconfig_value_length c"
    using chunk_frame_opaque [OF len vl raw] by metis
  have bp: "build_param (param_marshal a) = Ok a"
    using build_param_marshal [OF assms(4), of "[]"] by simp
  have le: "\<not> 8 + param_value_length a + pad < 4 + reconfig_value_length c" for pad
    using vl by (simp add: length_param_marshal size_defs)
  show "reconfig_unmarshal raw = Ok c"
    using h bp assms(1,2) le by (simp add: reconfig_unmarshal_def guard_def size_defs Let_def)
  show "length raw = 4 + reconfig_value_length c" by (simp add: raw vl)
qed

lemma reconfig_double:
  assumes "rc_param_a c = Some a" "rc_param_b c = Some b"
    "CHUNK_HEADER_SIZE + reconfig_value_length c < 65536" "wf_param a" "wf_param b"
    "reconfig_marshal c = Ok raw"
  shows "reconfig_unmarshal raw = Ok c" "length raw = 4 + reconfig_value_length c"
proof -
  let ?pad = "get_padding_size (PARAM_HEADER_LENGTH + param_value_length a)"
  let ?body = "param_marshal a @ replicate ?pad 0 @ param_marshal b"
  have vl: "reconfig_value_length c = length ?body"
    using assms by (simp add: reconfig_value_length_def length_param_marshal Let_def)
  have len: "length ?body + 4 < 65536" using assms(3) by (simp add: vl size_defs)
  have raw: "raw = chunk_header_marshal \<lparr>ch_typ = CT_RECONFIG, ch_flags = 0,
      ch_value_length = of_nat (reconfig_value_length c)\<rparr> @ ?body"
    using assms by (simp add: reconfig_marshal_def Let_def)
  obtain h where h: "chunk_header_unmarshal raw = Ok h" "chunk_body raw h = Ok ?body"
      "ch_typ h = CT_RECONFIG" "unat (ch_value_length h) = reconfig_value_length c"
    using chunk_frame_opaque [OF len vl raw] by metis
  have bp: "build_param ?body = Ok a" "build_param (param_marshal b) = Ok b"
    using build_param_marshal [OF assms(4)] build_param_marshal [OF assms(5), of "[]"] by simp_all
  let ?off = "8 + param_value_length a + ?pad"
  have sl: "slice raw ?off (4 + reconfig_value_length c) = Ok (param_marshal b)"
    using slice_suffix [of ?off "chunk_header_marshal \<lparr>ch_typ = CT_RECONFIG, ch_flags = 0,
      ch_value_length = of_nat (reconfig_value_length c)\<rparr> @ param_marshal a @ replicate ?pad 0"
      "4 + reconfig_value_length c" "param_marshal b"]
    by (simp add: raw vl length_param_marshal size_defs)
  have gt: "?off < 4 + reconfig_value_length c"
    by (simp add: vl length_param_marshal size_defs)
  show "reconfig_unmarshal raw = Ok c"
    using h bp assms(1,2) gt sl by (simp add: reconfig_unmarshal_def guard_def size_defs Let_def)
  show "length raw = 4 + reconfig_value_length c" by (simp add: raw vl)
qed

lemma reconfig_unmarshal_marshal:
  assumes "wf_reconfig c"
  obtains raw where "reconfig_marshal c = Ok raw" "reconfig_unmarshal raw = Ok c"
    "length raw = 4 + reconfig_value_length c"
proof -
  obtain a where a: "rc_param_a c = Some a" "wf_param a"
      "CHUNK_HEADER_SIZE + reconfig_value_length c < 65536"
    using assms by (auto simp: wf_reconfig_def)
  obtain raw where raw: "reconfig_marshal c = Ok raw"
    using a by (cases "rc_param_b c") (auto simp: reconfig_marshal_def Let_def)
  show thesis
  proof (cases "rc_param_b c")
    case None
    then show thesis using that [OF raw] reconfig_single a raw by blast
  next
    case (Some b)
    then have "wf_param b" using assms by (simp add: wf_reconfig_def)
    then show thesis using that [OF raw] reconfig_double a raw Some by blast
  qed
qed

section \<open>Properties of the chunk codecs\<close>

text \<open>C22. Round trip of INIT and INIT ACK: for every chunk that fits its length field
and whose parameters are well formed, parsing the marshalled bytes gives back all
fixed fields and all parameters, except that a last parameter without a value (such
as Forward-TSN-Supported, four bytes long) is dropped by the receiver's loop, whose
condition asks for more than four remaining bytes.\<close>

theorem init_roundtrip:
  assumes "CHUNK_HEADER_SIZE + init_value_length i < 65536" and "list_all wf_param (ci_params i)"
  shows "init_unmarshal (init_marshal i) = Ok (i\<lparr>ci_params := params_seen (ci_params i)\<rparr>)"
  using assms by (rule init_unmarshal_seen)

theorem init_roundtrip_witness:
  "init_unmarshal (init_marshal (chunk_init_default\<lparr>ci_initiate_tag := 5,
     ci_params := [PSupportedExtensions [130, 192], PForwardTsnSupported]\<rparr>)) =
   Ok (chunk_init_default\<lparr>ci_initiate_tag := 5, ci_params := [PSupportedExtensions [130, 192]]\<rparr>)"
  using init_roundtrip [of "chunk_init_default\<lparr>ci_initiate_tag := 5,
     ci_params := [PSupportedExtensions [130, 192], PForwardTsnSupported]\<rparr>"]
  by (simp add: init_value_length_def size_defs get_padding_size_def PADDING_MULTIPLE_def
      chunk_init_default_def wf_param_def)

text \<open>C23. Parameters of any type survive the wire when they are followed by arbitrary
bytes (the next parameter or padding), and building a parameter from arbitrary bytes
never panics: it returns a parameter or an error.\<close>

theorem param_roundtrip_and_safety:
  "(wf_param p \<longrightarrow> build_param (param_marshal p @ rest) = Ok p) \<and> build_param raw \<noteq> panic"
  using build_param_marshal build_param_no_panic [of raw] by (auto simp: no_panic_iff)

theorem param_roundtrip_and_safety_witness:
  "wf_param (POutgoingResetRequest \<lparr>orr_request_sequence_number = 1, orr_response_sequence_number = 2,
     orr_sender_last_tsn = 3, orr_stream_identifiers = [4, 5]\<rparr>) \<and>
   build_param (param_marshal (POutgoingResetRequest \<lparr>orr_request_sequence_number = 1,
     orr_response_sequence_number = 2, orr_sender_last_tsn = 3, orr_stream_identifiers = [4, 5]\<rparr>) @ [0, 0]) =
   Ok (POutgoingResetRequest \<lparr>orr_request_sequence_number = 1, orr_response_sequence_number = 2,
     orr_sender_last_tsn = 3, orr_stream_identifiers = [4, 5]\<rparr>)"
proof -
  let ?p = "POutgoingResetRequest \<lparr>orr_request_sequence_number = 1, orr_response_sequence_number = 2,
     orr_sender_last_tsn = 3, orr_stream_identifiers = [4, 5]\<rparr>"
  have "wf_param ?p" by (simp add: wf_param_def size_defs)
  with param_roundtrip_and_safety [of ?p "[0, 0]" "[]"] show ?thesis by blast
qed

lemma reconfig_response_twenty_bytes:
  assumes "raw = [CT_RECONFIG, 0] @ be16 24 @ be16 16 @ be16 20 @ be32 sn @ be32 res @ opt"
    and "length opt = 8"
  shows "build_param (drop 4 raw) = Ok (PReconfigResponse
           \<lparr>rr_response_sequence_number = sn, rr_result = reconfig_result_of res\<rparr>)"
    and "reconfig_unmarshal raw = and_then (build_param opt) (\<lambda>p. Ok \<lparr>rc_param_a = Some (PReconfigResponse
           \<lparr>rr_response_sequence_number = sn, rr_result = reconfig_result_of res\<rparr>), rc_param_b = Some p\<rparr>)"
proof -
  let ?body = "be16 16 @ be16 20 @ be32 sn @ be32 res @ opt"
  have fr: "param_header_unmarshal ?body = Ok \<lparr>ph_typ = ReconfigResp, ph_value_length = 16\<rparr>"
    using assms(2) by (simp add: param_header_unmarshal_def guard_def size_defs get_u16_be16 param_type_of_def)
  have "param_body ?body \<lparr>ph_typ = ReconfigResp, ph_value_length = 16\<rparr> = Ok (be32 sn @ be32 res @ opt)"
    using slice_suffix [of 4 "be16 16 @ be16 20" 20 "be32 sn @ be32 res @ opt"] assms(2)
    by (simp add: param_body_def size_defs)
  moreover have "get_u16 (take 2 ?body) = Ok (16, [])" using get_u16_be16 [of 16 "[]"] by simp
  ultimately have bp: "build_param ?body = Ok (PReconfigResponse
           \<lparr>rr_response_sequence_number = sn, rr_result = reconfig_result_of res\<rparr>)"
    using fr assms(2)
    by (simp add: build_param_def reconfig_response_unmarshal_def guard_def size_defs param_type_of_def
        get_u32_be32 Let_def)
  then show "build_param (drop 4 raw) = Ok (PReconfigResponse
           \<lparr>rr_response_sequence_number = sn, rr_result = reconfig_result_of res\<rparr>)"
    using assms(1) by simp
  have len: "length ?body + 4 < 65536" "20 = length ?body" using assms(2) by simp_all
  have raw: "raw = chunk_header_marshal \<lparr>ch_typ = CT_RECONFIG, ch_flags = 0, ch_value_length = of_nat 20\<rparr> @ ?body"
    by (simp add: assms(1) chunk_header_marshal_def size_defs)
  obtain h where h: "chunk_header_unmarshal raw = Ok h" "chunk_body raw h = Ok ?body"
      "ch_typ h = CT_RECONFIG" "unat (ch_value_length h) = 20"
    using chunk_frame_opaque [OF len raw] by metis
  have "slice raw 16 24 = Ok opt"
    using slice_suffix [of 16 "[CT_RECONFIG, 0] @ be16 24 @ be16 16 @ be16 20 @ be32 sn @ be32 res" 24 opt]
      assms by simp
  with h bp show "reconfig_unmarshal raw = and_then (build_param opt) (\<lambda>p. Ok \<lparr>rc_param_a = Some (PReconfigResponse
           \<lparr>rr_response_sequence_number = sn, rr_result = reconfig_result_of res\<rparr>), rc_param_b = Some p\<rparr>)"
    by (simp add: reconfig_unmarshal_def guard_def size_defs Let_def get_padding_size_def PADDING_MULTIPLE_def)
qed

text \<open>A Re-configuration Response with its optional fields (parameter length 20,
which \<open>ParamReconfigResponse::unmarshal\<close> accepts explicitly) cannot be received: the
parameter reports a value length of 8, so \<open>ChunkReconfig::unmarshal\<close> parses the eight
optional bytes as a second parameter and rejects the chunk unless they happen to
form one.\<close>

theorem reconfig_response_optional_fields:
  assumes "raw = [CT_RECONFIG, 0] @ be16 24 @ be16 16 @ be16 20 @ be32 sn @ be32 res @ opt"
    and "length opt = 8"
  shows "build_param (drop 4 raw) = Ok (PReconfigResponse
           \<lparr>rr_response_sequence_number = sn, rr_result = reconfig_result_of res\<rparr>) \<and>
    reconfig_unmarshal raw = and_then (build_param opt) (\<lambda>p. Ok \<lparr>rc_param_a = Some (PReconfigResponse
           \<lparr>rr_response_sequence_number = sn, rr_result = reconfig_result_of res\<rparr>), rc_param_b = Some p\<rparr>)"
  using reconfig_response_twenty_bytes [OF assms] by blast

theorem reconfig_response_optional_fields_witness:
  "reconfig_unmarshal ([CT_RECONFIG, 0] @ be16 24 @ be16 16 @ be16 20 @ be32 1 @ be32 1 @
     [0, 0, 0, 9, 0, 0, 0, 9]) = Fail ErrParamTypeUnhandled"
  using reconfig_response_optional_fields [OF refl, of "[0, 0, 0, 9, 0, 0, 0, 9]" 1 1]
  by (simp add: build_param_def size_defs guard_def of_be16_def param_type_of_def)

end
