(* ===== verification/Sctp_Packet.thy ===== *)
theory Sctp_Packet
  imports Sctp_Chunk_Codec
begin

text \<open>SCTP packets (\<open>rtc-sctp/src/packet.rs\<close>): the common header, the partial
decode made by the endpoint, the chunk loop, and the framing with padding and
CRC-32C. The checksum function belongs to the \<open>crc32c\<close> crate and is the
parameter \<open>crc\<close> (its \<open>crc32c_append\<close>; \<open>crc32c(data)\<close> starts from 0). The only
thing used of it is the law of the locale \<open>crc32c_append\<close>.\<close>

section \<open>Packets\<close>

definition PACKET_HEADER_SIZE :: nat where
  "PACKET_HEADER_SIZE = 12"

record common_header =
  hd_source_port :: u16
  hd_destination_port :: u16
  hd_verification_tag :: u32

record partial_decode =
  pt_common_header :: common_header
  pt_remaining :: bytes
  pt_first_chunk_type :: u8
  pt_initiate_tag :: "u32 option"
  pt_cookie :: "bytes option"

record packet =
  pk_common_header :: common_header
  pk_chunks :: "chunk list"

type_synonym crc_fun = "u32 \<Rightarrow> bytes \<Rightarrow> u32"

text \<open>\<open>to_le_bytes\<close> and \<open>get_u32_le\<close>.\<close>

definition le32 :: "u32 \<Rightarrow> bytes" where
  "le32 w = rev (be32 w)"

fun get_u32_le :: "bytes \<Rightarrow> (u32 \<times> bytes) result" where
  "get_u32_le (a # b # c # d # r) = Ok (of_be32 d c b a, r)"
| "get_u32_le _ = panic"

definition generate_packet_checksum :: "crc_fun \<Rightarrow> bytes \<Rightarrow> u32 result" where
  "generate_packet_checksum crc raw =
     and_then (slice raw 0 8) (\<lambda>a.
     and_then (slice raw 12 (length raw)) (\<lambda>b.
     Ok (crc (crc (crc 0 a) [0, 0, 0, 0]) b)))"

section \<open>Parsing\<close>

definition slice_chunk :: "bytes \<Rightarrow> nat \<Rightarrow> bytes result" where
  "slice_chunk raw offset =
    (if offset + 3 < length raw then
       let chunk_length = unat (of_be16 (raw ! (offset + 2)) (raw ! (offset + 3))) in
       guard (chunk_length < CHUNK_HEADER_SIZE) ErrChunkHeaderInvalidLength
      (guard (offset + chunk_length > length raw) ErrChunkHeaderNotEnoughSpace
      (slice raw offset (offset + chunk_length)))
     else panic)"

text \<open>The \<open>match ct\<close> of the chunk loop. HEARTBEAT ACK has no arm.\<close>

definition chunk_unmarshal :: "u8 \<Rightarrow> bytes \<Rightarrow> chunk result" where
  "chunk_unmarshal ct buf =
    (if ct = CT_INIT then and_then (init_unmarshal buf) (\<lambda>x. Ok (CInit x))
     else if ct = CT_INIT_ACK then and_then (init_unmarshal buf) (\<lambda>x. Ok (CInit x))
     else if ct = CT_ABORT then and_then (abort_unmarshal buf) (\<lambda>x. Ok (CAbort x))
     else if ct = CT_COOKIE_ECHO then and_then (cookie_echo_unmarshal buf) (\<lambda>x. Ok (CCookieEcho x))
     else if ct = CT_COOKIE_ACK then and_then (cookie_ack_unmarshal buf) (\<lambda>_. Ok CCookieAck)
     else if ct = CT_HEARTBEAT then and_then (heartbeat_unmarshal buf) (\<lambda>x. Ok (CHeartbeat x))
     else if ct = CT_PAYLOAD_DATA then and_then (payload_data_unmarshal buf) (\<lambda>x. Ok (CPayloadData x))
     else if ct = CT_SACK then and_then (sack_unmarshal buf) (\<lambda>x. Ok (CSack x))
     else if ct = CT_RECONFIG then and_then (reconfig_unmarshal buf) (\<lambda>x. Ok (CReconfig x))
     else if ct = CT_FORWARD_TSN then and_then (forward_tsn_unmarshal buf) (\<lambda>x. Ok (CForwardTsn x))
     else if ct = CT_ERROR then and_then (error_unmarshal buf) (\<lambda>x. Ok (CError x))
     else if ct = CT_SHUTDOWN then and_then (shutdown_unmarshal buf) (\<lambda>x. Ok (CShutdown x))
     else if ct = CT_SHUTDOWN_ACK then and_then (shutdown_ack_unmarshal buf) (\<lambda>_. Ok CShutdownAck)
     else if ct = CT_SHUTDOWN_COMPLETE
       then and_then (shutdown_complete_unmarshal buf) (\<lambda>_. Ok CShutdownComplete)
     else Fail ErrUnmarshalUnknownChunkType)"

text \<open>The loop that \<open>PartialDecode::finish\<close> and \<open>Packet::unmarshal\<close> share.\<close>

function chunks_loop :: "bytes \<Rightarrow> nat \<Rightarrow> chunk list result" where
  "chunks_loop raw offset =
    (if offset = length raw then Ok []
     else if offset + CHUNK_HEADER_SIZE > length raw then Fail ErrParseSctpChunkNotEnoughData
     else and_then (slice_chunk raw offset) (\<lambda>buf.
          and_then (chunk_unmarshal (raw ! offset) buf) (\<lambda>c.
          let chunk_value_padding = get_padding_size (chunk_value_length c) in
          and_then (chunks_loop raw (offset + (CHUNK_HEADER_SIZE + chunk_value_length c
                                              + chunk_value_padding)))
            (\<lambda>cs. Ok (c # cs)))))"
  by pat_completeness auto
termination
  by (relation "measure (\<lambda>(raw, offset). length raw - offset)") (auto simp: CHUNK_HEADER_SIZE_def)

declare chunks_loop.simps [simp del]

definition packet_unmarshal :: "crc_fun \<Rightarrow> bytes \<Rightarrow> packet result" where
  "packet_unmarshal crc raw =
     guard (length raw < PACKET_HEADER_SIZE) ErrPacketRawTooSmall
       (and_then (get_u16 raw) (\<lambda>(sport, r).
        and_then (get_u16 r) (\<lambda>(dport, r).
        and_then (get_u32 r) (\<lambda>(vtag, r).
        and_then (get_u32_le r) (\<lambda>(theirs, _).
        and_then (generate_packet_checksum crc raw) (\<lambda>ours.
        guard (theirs \<noteq> ours) ErrChecksumMismatch
       (and_then (chunks_loop raw PACKET_HEADER_SIZE) (\<lambda>cs.
        Ok \<lparr>pk_common_header = \<lparr>hd_source_port = sport, hd_destination_port = dport,
              hd_verification_tag = vtag\<rparr>, pk_chunks = cs\<rparr>))))))))"

definition partial_decode_unmarshal :: "crc_fun \<Rightarrow> bytes \<Rightarrow> partial_decode result" where
  "partial_decode_unmarshal crc raw =
     guard (length raw < PACKET_HEADER_SIZE) ErrPacketRawTooSmall
       (and_then (get_u16 raw) (\<lambda>(sport, r).
        and_then (get_u16 r) (\<lambda>(dport, r).
        and_then (get_u32 r) (\<lambda>(vtag, r).
        and_then (get_u32_le r) (\<lambda>(theirs, r).
        and_then (generate_packet_checksum crc raw) (\<lambda>ours.
        guard (theirs \<noteq> ours) ErrChecksumMismatch
       (guard (length r < CHUNK_HEADER_SIZE) ErrParseSctpChunkNotEnoughData
       (and_then (chunk_header_unmarshal r) (\<lambda>h.
        let r = drop CHUNK_HEADER_SIZE r;
            base = \<lparr>pt_common_header = \<lparr>hd_source_port = sport, hd_destination_port = dport,
                      hd_verification_tag = vtag\<rparr>,
                    pt_remaining = drop PACKET_HEADER_SIZE raw,
                    pt_first_chunk_type = ch_typ h, pt_initiate_tag = None, pt_cookie = None\<rparr> in
        if ch_typ h = CT_INIT \<or> ch_typ h = CT_INIT_ACK
        then and_then (get_u32 r) (\<lambda>(tag, _). Ok (base\<lparr>pt_initiate_tag := Some tag\<rparr>))
        else if ch_typ h = CT_COOKIE_ECHO
        then and_then (slice raw (PACKET_HEADER_SIZE + CHUNK_HEADER_SIZE)
                 (PACKET_HEADER_SIZE + CHUNK_HEADER_SIZE + unat (ch_value_length h)))
               (\<lambda>cookie. Ok (base\<lparr>pt_cookie := Some cookie\<rparr>))
        else Ok base)))))))))"

definition partial_decode_finish :: "partial_decode \<Rightarrow> packet result" where
  "partial_decode_finish pd =
     and_then (chunks_loop (pt_remaining pd) 0) (\<lambda>cs.
     Ok \<lparr>pk_common_header = pt_common_header pd, pk_chunks = cs\<rparr>)"

section \<open>Framing\<close>

definition marshaled_len :: "packet \<Rightarrow> nat" where
  "marshaled_len p =
     PACKET_HEADER_SIZE +
     sum_list (map (\<lambda>c. let n = CHUNK_HEADER_SIZE + chunk_value_length c in n + get_padding_size n)
       (pk_chunks p))"

text \<open>\<open>acc\<close> is what has been written since \<open>chunks_start\<close>.\<close>

fun write_chunks :: "bytes \<Rightarrow> chunk list \<Rightarrow> bytes result" where
  "write_chunks acc [] = Ok acc"
| "write_chunks acc (c # cs) =
     and_then (chunk_marshal c) (\<lambda>m.
     let acc = acc @ m in
     write_chunks (acc @ replicate (get_padding_size (length acc)) 0) cs)"

definition write_framed :: "crc_fun \<Rightarrow> common_header \<Rightarrow> chunk list \<Rightarrow> bytes \<Rightarrow> bytes result" where
  "write_framed crc h cs writer =
     and_then (write_chunks [] cs) (\<lambda>body.
     let hdr = be16 (hd_source_port h) @ be16 (hd_destination_port h) @ be32 (hd_verification_tag h);
         checksum = crc 0 (hdr @ be32 0 @ body) in
     Ok (writer @ hdr @ le32 checksum @ body))"

definition packet_marshal :: "crc_fun \<Rightarrow> packet \<Rightarrow> bytes result" where
  "packet_marshal crc p = write_framed crc (pk_common_header p) (pk_chunks p) []"

section \<open>Packet rules\<close>

text \<open>The loop over the chunks of \<open>check_packet\<close>: \<open>n\<close> is the number of chunks.\<close>

fun check_init_chunks :: "nat \<Rightarrow> u32 \<Rightarrow> chunk list \<Rightarrow> unit result" where
  "check_init_chunks n vtag [] = Ok ()"
| "check_init_chunks n vtag (CInit ci # cs) =
    (if \<not> ci_is_ack ci
     then guard (n \<noteq> 1) ErrInitChunkBundled
         (guard (vtag \<noteq> 0) ErrInitChunkVerifyTagNotZero (check_init_chunks n vtag cs))
     else check_init_chunks n vtag cs)"
| "check_init_chunks n vtag (_ # cs) = check_init_chunks n vtag cs"

definition check_packet :: "packet \<Rightarrow> unit result" where
  "check_packet p =
     guard (hd_source_port (pk_common_header p) = 0) ErrSctpPacketSourcePortZero
    (guard (hd_destination_port (pk_common_header p) = 0) ErrSctpPacketDestinationPortZero
    (check_init_chunks (length (pk_chunks p)) (hd_verification_tag (pk_common_header p)) (pk_chunks p)))"

section \<open>The checksum crate\<close>

text \<open>\<open>crc32c_append(c, data)\<close> continues the checksum \<open>c\<close> of a prefix over \<open>data\<close>.\<close>

locale crc32c_append =
  fixes crc :: "u32 \<Rightarrow> bytes \<Rightarrow> u32"
  assumes append_append: "crc (crc c a) b = crc c (a @ b)"
begin

lemma checksum_of_zeroed:
  assumes "length hdr = 8" "length ck = 4"
  shows "generate_packet_checksum crc (hdr @ ck @ body) = Ok (crc 0 (hdr @ be32 0 @ body))"
proof -
  have "be32 0 = [0, 0, 0, 0]" by (simp add: be32_def)
  with assms show ?thesis
    by (simp add: generate_packet_checksum_def slice_def append_append)
qed

end

text \<open>A bitwise CRC-32C (polynomial 0x1EDC6F41, reflected) satisfies the law.\<close>

definition crc32c_bit :: "u32 \<Rightarrow> u32" where
  "crc32c_bit c = (if bit c 0 then drop_bit 1 c XOR 0x82F63B78 else drop_bit 1 c)"

definition crc32c_step :: "u8 \<Rightarrow> u32 \<Rightarrow> u32" where
  "crc32c_step b c = (crc32c_bit ^^ 8) (c XOR ucast b)"

definition crc32c_ref :: crc_fun where
  "crc32c_ref c data = NOT (fold crc32c_step data (NOT c))"

interpretation crc32c_ref: crc32c_append crc32c_ref
  by unfold_locales (simp add: crc32c_ref_def)

section \<open>Chunks survive framing\<close>

fun wf_chunk :: "chunk \<Rightarrow> bool" where
  "wf_chunk (CInit i) = wf_init i"
| "wf_chunk (CAbort cs) = wf_error_causes cs"
| "wf_chunk (CCookieEcho c) = (CHUNK_HEADER_SIZE + length c < 65536)"
| "wf_chunk (CHeartbeat ps) = wf_heartbeat ps"
| "wf_chunk (CHeartbeatAck ps) = False"
| "wf_chunk (CPayloadData d) = wf_payload_data d"
| "wf_chunk (CSack s) = wf_sack s"
| "wf_chunk (CReconfig c) = wf_reconfig c"
| "wf_chunk (CForwardTsn f) = wf_forward_tsn f"
| "wf_chunk (CError cs) = wf_error_causes cs"
| "wf_chunk _ = True"

fun chunk_on_wire :: "chunk \<Rightarrow> chunk" where
  "chunk_on_wire (CPayloadData d) = CPayloadData (payload_data_on_wire d)"
| "chunk_on_wire c = c"

lemma chunk_value_length_on_wire [simp]: "chunk_value_length (chunk_on_wire c) = chunk_value_length c"
  by (cases c) (simp_all add: payload_data_value_length_def payload_data_on_wire_def)

text \<open>What the loop reads of a marshalled chunk: its type byte and its length field.\<close>

definition framed :: "u8 \<Rightarrow> bytes \<Rightarrow> nat \<Rightarrow> bool" where
  "framed t m vl \<longleftrightarrow> length m = 4 + vl \<and> 4 + vl < 65536 \<and> m ! 0 = t \<and>
     unat (of_be16 (m ! 2) (m ! 3)) = 4 + vl"

lemma framed_header:
  assumes "m = chunk_header_marshal \<lparr>ch_typ = t, ch_flags = f, ch_value_length = of_nat vl\<rparr> @ body"
    and "length m = 4 + vl" and "4 + vl < 65536"
  shows "framed t m vl"
proof -
  have w: "unat (of_nat vl + 4 :: u16) = 4 + vl"
    using unat_vl_plus_4 [of vl] assms(3) by simp
  have "m = [t, f] @ [ucast (drop_bit 8 (of_nat vl + 4 :: u16)), ucast (of_nat vl + 4 :: u16)] @ body"
    using assms(1) by (simp add: chunk_header_marshal_def be16_def CHUNK_HEADER_SIZE_def)
  then have "m ! 0 = t" "m ! 2 = ucast (drop_bit 8 (of_nat vl + 4 :: u16))" "m ! 3 = ucast (of_nat vl + 4 :: u16)"
    by simp_all
  with w assms(2,3) of_be16_be16 [of "of_nat vl + 4"] show ?thesis by (simp add: framed_def)
qed

lemma empty_chunk_framed: "framed t (empty_chunk_marshal t) 0"
  by (rule framed_header [of _ _ 0 0 "[]"]) (simp_all add: empty_chunk_marshal_def)

lemma chunk_codec_empty:
  "chunk_unmarshal CT_COOKIE_ACK (empty_chunk_marshal CT_COOKIE_ACK) = Ok CCookieAck"
  "chunk_unmarshal CT_SHUTDOWN_ACK (empty_chunk_marshal CT_SHUTDOWN_ACK) = Ok CShutdownAck"
  "chunk_unmarshal CT_SHUTDOWN_COMPLETE (empty_chunk_marshal CT_SHUTDOWN_COMPLETE) = Ok CShutdownComplete"
  by (simp_all add: chunk_unmarshal_def ct_defs cookie_ack_unmarshal_def shutdown_ack_unmarshal_def
      shutdown_complete_unmarshal_def empty_chunk_header guard_def)

text \<open>One lemma per kind of chunk that has a body, in a common shape.\<close>

lemma chunk_codec_init:
  assumes "wf_init i"
  shows "\<exists>t. framed t (init_marshal i) (init_value_length i) \<and>
    chunk_unmarshal t (init_marshal i) = Ok (CInit i)"
proof (intro exI conjI)
  let ?t = "if ci_is_ack i then CT_INIT_ACK else CT_INIT"
  show "framed ?t (init_marshal i) (init_value_length i)"
    using assms init_codec.length_enc [OF assms]
    by (intro framed_header [OF init_marshal_def [unfolded init_header_def]])
       (simp_all add: wf_init_def size_defs)
  show "chunk_unmarshal ?t (init_marshal i) = Ok (CInit i)"
    using init_codec.dec_enc [OF assms] by (simp add: chunk_unmarshal_def ct_defs)
qed

lemma chunk_codec_payload:
  assumes "wf_payload_data d"
  shows "framed CT_PAYLOAD_DATA (payload_data_marshal d) (payload_data_value_length d) \<and>
    chunk_unmarshal CT_PAYLOAD_DATA (payload_data_marshal d) = Ok (CPayloadData (payload_data_on_wire d))"
proof
  show "framed CT_PAYLOAD_DATA (payload_data_marshal d) (payload_data_value_length d)"
    using assms data_codec.length_enc [OF assms]
    by (intro framed_header [OF payload_data_marshal_def [unfolded payload_data_header_def]])
       (simp_all add: wf_payload_data_def size_defs)
  show "chunk_unmarshal CT_PAYLOAD_DATA (payload_data_marshal d) = Ok (CPayloadData (payload_data_on_wire d))"
    using data_codec.dec_enc [OF assms] by (simp add: chunk_unmarshal_def ct_defs)
qed

lemma chunk_codec_sack:
  assumes "wf_sack d"
  shows "framed CT_SACK (sack_marshal d) (sack_value_length d) \<and>
    chunk_unmarshal CT_SACK (sack_marshal d) = Ok (CSack d)"
proof
  show "framed CT_SACK (sack_marshal d) (sack_value_length d)"
    using assms sack_codec.length_enc [OF assms]
    by (intro framed_header [OF sack_marshal_def [unfolded sack_header_def]])
       (simp_all add: wf_sack_def size_defs)
  show "chunk_unmarshal CT_SACK (sack_marshal d) = Ok (CSack d)"
    using sack_codec.dec_enc [OF assms] by (simp add: chunk_unmarshal_def ct_defs)
qed

lemma chunk_codec_forward_tsn:
  assumes "wf_forward_tsn d"
  shows "framed CT_FORWARD_TSN (forward_tsn_marshal d) (forward_tsn_value_length d) \<and>
    chunk_unmarshal CT_FORWARD_TSN (forward_tsn_marshal d) = Ok (CForwardTsn d)"
proof
  show "framed CT_FORWARD_TSN (forward_tsn_marshal d) (forward_tsn_value_length d)"
    using assms forward_tsn_codec.length_enc [OF assms]
    by (intro framed_header [OF forward_tsn_marshal_def [unfolded forward_tsn_header_def]])
       (simp_all add: wf_forward_tsn_def size_defs)
  show "chunk_unmarshal CT_FORWARD_TSN (forward_tsn_marshal d) = Ok (CForwardTsn d)"
    using forward_tsn_codec.dec_enc [OF assms] by (simp add: chunk_unmarshal_def ct_defs)
qed

lemma chunk_codec_causes:
  assumes "wf_error_causes cs"
  shows "framed CT_ABORT (abort_marshal cs) (error_causes_value_length cs) \<and>
    chunk_unmarshal CT_ABORT (abort_marshal cs) = Ok (CAbort cs)"
    and "framed CT_ERROR (error_marshal cs) (error_causes_value_length cs) \<and>
    chunk_unmarshal CT_ERROR (error_marshal cs) = Ok (CError cs)"
proof -
  have "framed CT_ABORT (abort_marshal cs) (error_causes_value_length cs)"
    using assms abort_codec.length_enc [OF assms]
    by (intro framed_header [OF abort_marshal_def]) (simp_all add: wf_error_causes_def size_defs)
  then show "framed CT_ABORT (abort_marshal cs) (error_causes_value_length cs) \<and>
    chunk_unmarshal CT_ABORT (abort_marshal cs) = Ok (CAbort cs)"
    using abort_codec.dec_enc [OF assms] by (simp add: chunk_unmarshal_def ct_defs)
  have "framed CT_ERROR (error_marshal cs) (error_causes_value_length cs)"
    using assms error_codec.length_enc [OF assms]
    by (intro framed_header [OF error_marshal_def]) (simp_all add: wf_error_causes_def size_defs)
  then show "framed CT_ERROR (error_marshal cs) (error_causes_value_length cs) \<and>
    chunk_unmarshal CT_ERROR (error_marshal cs) = Ok (CError cs)"
    using error_codec.dec_enc [OF assms] by (simp add: chunk_unmarshal_def ct_defs)
qed

lemma chunk_codec_cookie:
  assumes "CHUNK_HEADER_SIZE + length c < 65536"
  shows "framed CT_COOKIE_ECHO (cookie_echo_marshal c) (length c) \<and>
    chunk_unmarshal CT_COOKIE_ECHO (cookie_echo_marshal c) = Ok (CCookieEcho c)"
proof
  show "framed CT_COOKIE_ECHO (cookie_echo_marshal c) (length c)"
    using assms cookie_codec.length_enc [OF assms]
    by (intro framed_header [OF cookie_echo_marshal_def]) (simp_all add: size_defs)
  show "chunk_unmarshal CT_COOKIE_ECHO (cookie_echo_marshal c) = Ok (CCookieEcho c)"
    using cookie_codec.dec_enc [OF assms] by (simp add: chunk_unmarshal_def ct_defs)
qed

lemma chunk_codec_shutdown:
  "framed CT_SHUTDOWN (shutdown_marshal t) 4 \<and>
   chunk_unmarshal CT_SHUTDOWN (shutdown_marshal t) = Ok (CShutdown t)"
proof
  show "framed CT_SHUTDOWN (shutdown_marshal t) 4"
    by (rule framed_header [of _ _ 0 4 "be32 t"]) (simp_all add: shutdown_marshal_def)
  show "chunk_unmarshal CT_SHUTDOWN (shutdown_marshal t) = Ok (CShutdown t)"
    using shutdown_codec.dec_enc by (simp add: chunk_unmarshal_def ct_defs)
qed

lemma chunk_codec_heartbeat:
  assumes "wf_heartbeat ps"
  shows "framed CT_HEARTBEAT (heartbeat_marshal ps) (heartbeat_value_length ps) \<and>
    chunk_unmarshal CT_HEARTBEAT (heartbeat_marshal ps) = Ok (CHeartbeat ps)"
proof
  show "framed CT_HEARTBEAT (heartbeat_marshal ps) (heartbeat_value_length ps)"
    using assms heartbeat_codec.length_enc [OF assms]
    by (intro framed_header [OF heartbeat_marshal_def])
       (cases ps rule: wf_heartbeat.cases; simp add: heartbeat_value_length_def size_defs)+
  show "chunk_unmarshal CT_HEARTBEAT (heartbeat_marshal ps) = Ok (CHeartbeat ps)"
    using heartbeat_codec.dec_enc [OF assms] by (simp add: chunk_unmarshal_def ct_defs)
qed

lemma reconfig_marshal_header:
  "reconfig_marshal c = Ok raw \<Longrightarrow> \<exists>body. raw = chunk_header_marshal \<lparr>ch_typ = CT_RECONFIG, ch_flags = 0,
     ch_value_length = of_nat (reconfig_value_length c)\<rparr> @ body"
  by (auto simp: reconfig_marshal_def Let_def split: option.splits)

lemma chunk_codec_reconfig:
  assumes "wf_reconfig c"
  shows "\<exists>m. reconfig_marshal c = Ok m \<and> framed CT_RECONFIG m (reconfig_value_length c) \<and>
    chunk_unmarshal CT_RECONFIG m = Ok (CReconfig c)"
proof -
  obtain m where m: "reconfig_marshal c = Ok m" "reconfig_unmarshal m = Ok c"
      "length m = 4 + reconfig_value_length c"
    using reconfig_unmarshal_marshal [OF assms] .
  moreover have "framed CT_RECONFIG m (reconfig_value_length c)"
    using reconfig_marshal_header [OF m(1)] m(3) assms
    by (auto simp: wf_reconfig_def size_defs intro!: framed_header)
  ultimately show ?thesis by (auto simp: chunk_unmarshal_def ct_defs)
qed

lemma chunk_codec:
  assumes "wf_chunk c"
  shows "\<exists>m t. chunk_marshal c = Ok m \<and> framed t m (chunk_value_length c) \<and>
    chunk_unmarshal t m = Ok (chunk_on_wire c)"
proof (cases c)
  case (CInit i)
  then show ?thesis using chunk_codec_init assms by auto
next
  case (CReconfig r)
  then show ?thesis using chunk_codec_reconfig [of r] assms by fastforce
next
  case (CShutdown t)
  then show ?thesis using chunk_codec_shutdown [of t] by auto
qed (use assms in \<open>auto intro: exI empty_chunk_framed chunk_codec_empty
      dest: chunk_codec_payload chunk_codec_sack chunk_codec_forward_tsn chunk_codec_causes
        chunk_codec_cookie chunk_codec_heartbeat\<close>)

section \<open>The packet layer\<close>

definition padded :: "bytes \<Rightarrow> bytes" where
  "padded m = m @ replicate (get_padding_size (length m)) 0"

lemma length_padded_mod: "length (padded m) mod 4 = 0"
  by (simp add: padded_def get_padding_size_mod)

text \<open>Cumulative padding is per-chunk padding, because every prefix is aligned.\<close>

lemma write_chunks_padded:
  assumes "list_all2 (\<lambda>c m. chunk_marshal c = Ok m) cs ms" and "length acc mod 4 = 0"
  shows "write_chunks acc cs = Ok (acc @ concat (map padded ms))"
  using assms
proof (induction cs ms arbitrary: acc rule: list_all2_induct)
  case (Cons c cs m ms)
  have "get_padding_size (length (acc @ m)) = get_padding_size (length m)"
    using Cons.prems by (simp add: get_padding_size_aligned)
  moreover have "length (acc @ padded m) mod 4 = 0"
    using Cons.prems length_padded_mod [of m] by (simp add: mod_add_left_eq [symmetric])
  ultimately show ?case
    using Cons.IH [of "acc @ padded m"] Cons.hyps by (simp add: padded_def Let_def)
qed simp

lemma chunks_loop_step:
  assumes "raw = pre @ padded m @ rest" and "framed t m (chunk_value_length c)"
    and "chunk_unmarshal t m = Ok c"
    and "chunks_loop raw (length pre + length (padded m)) = Ok cs"
  shows "chunks_loop raw (length pre) = Ok (c # cs)"
proof -
  let ?vl = "chunk_value_length c"
  have fr: "length m = 4 + ?vl" "m ! 0 = t" "unat (of_be16 (m ! 2) (m ! 3)) = 4 + ?vl"
    using assms(2) by (simp_all add: framed_def)
  have idx: "raw ! (length pre + i) = m ! i" if "i < 4" for i
    using that assms(1) fr(1) by (simp add: padded_def nth_append)
  have i0: "raw ! length pre = t" using idx [of 0] fr(2) by simp
  have len: "length pre + 4 + ?vl \<le> length raw"
    using assms(1) fr(1) by (simp add: padded_def)
  have "slice raw (length pre) (length pre + (4 + ?vl)) = Ok m"
    using slice_middle [of "length pre" pre "length pre + (4 + ?vl)" m
        "replicate (get_padding_size (length m)) 0 @ rest"] assms(1) fr(1)
    by (simp add: padded_def)
  then have "slice_chunk raw (length pre) = Ok m"
    using len idx [of 2] idx [of 3] fr(3) by (simp add: slice_chunk_def guard_def size_defs Let_def)
  moreover have "length (padded m) = 4 + ?vl + get_padding_size ?vl"
    using fr(1) by (simp add: padded_def)
  ultimately show ?thesis
    using len i0 assms(3,4) by (subst chunks_loop.simps) (simp add: size_defs Let_def add.assoc)
qed

lemma chunks_loop_concat:
  assumes "list_all2 (\<lambda>c m. \<exists>t. framed t m (chunk_value_length c) \<and> chunk_unmarshal t m = Ok c) cs ms"
    and "raw = pre @ concat (map padded ms)"
  shows "chunks_loop raw (length pre) = Ok cs"
  using assms
proof (induction cs ms arbitrary: pre rule: list_all2_induct)
  case Nil
  then show ?case by (simp add: chunks_loop.simps)
next
  case (Cons c cs m ms)
  then have "chunks_loop raw (length (pre @ padded m)) = Ok cs" by simp
  with Cons show ?case by (auto intro!: chunks_loop_step)
qed

lemma chunks_marshal_list:
  assumes "list_all wf_chunk cs"
  shows "\<exists>ms. list_all2 (\<lambda>c m. chunk_marshal c = Ok m) cs ms \<and>
    list_all2 (\<lambda>c m. \<exists>t. framed t m (chunk_value_length c) \<and> chunk_unmarshal t m = Ok c)
      (map chunk_on_wire cs) ms"
  using assms
proof (induction cs)
  case (Cons c cs)
  then obtain ms where ms: "list_all2 (\<lambda>c m. chunk_marshal c = Ok m) cs ms"
    "list_all2 (\<lambda>c m. \<exists>t. framed t m (chunk_value_length c) \<and> chunk_unmarshal t m = Ok c)
      (map chunk_on_wire cs) ms" by auto
  from Cons.prems have "wf_chunk c" by simp
  then obtain m t where "chunk_marshal c = Ok m" "framed t m (chunk_value_length c)"
    "chunk_unmarshal t m = Ok (chunk_on_wire c)" using chunk_codec by blast
  with ms show ?case by (intro exI [of _ "m # ms"]) auto
qed simp

lemma length_concat_padded:
  assumes "list_all2 (\<lambda>c m. \<exists>t. framed t m (chunk_value_length c) \<and> chunk_unmarshal t m = Ok c) cs ms"
  shows "length (concat (map padded ms)) =
    sum_list (map (\<lambda>c. let n = CHUNK_HEADER_SIZE + chunk_value_length c in n + get_padding_size n) cs)"
  using assms
  by (induction cs ms rule: list_all2_induct) (auto simp: framed_def padded_def size_defs Let_def)

lemma get_u32_le_le32: "get_u32_le (le32 w @ r) = Ok (w, r)"
  by (simp add: le32_def be32_def of_be32_be32)

lemma length_le32 [simp]: "length (le32 w) = 4"
  by (simp add: le32_def)

lemma concat_padded_mod: "length (concat (map padded ms)) mod 4 = 0"
proof (induction ms)
  case (Cons m ms)
  then show ?case using length_padded_mod [of m] by (simp add: mod_add_eq [symmetric])
qed simp

lemma packet_codec:
  assumes "crc32c_append crc" and "list_all wf_chunk (pk_chunks p)"
  obtains raw where "packet_marshal crc p = Ok raw"
    "packet_unmarshal crc raw = Ok (p\<lparr>pk_chunks := map chunk_on_wire (pk_chunks p)\<rparr>)"
    "length raw = marshaled_len p" "length raw mod 4 = 0"
proof -
  obtain ms where ms: "list_all2 (\<lambda>c m. chunk_marshal c = Ok m) (pk_chunks p) ms"
    "list_all2 (\<lambda>c m. \<exists>t. framed t m (chunk_value_length c) \<and> chunk_unmarshal t m = Ok c)
      (map chunk_on_wire (pk_chunks p)) ms"
    using chunks_marshal_list [OF assms(2)] by blast
  let ?h = "pk_common_header p"
  let ?hdr = "be16 (hd_source_port ?h) @ be16 (hd_destination_port ?h) @ be32 (hd_verification_tag ?h)"
  let ?body = "concat (map padded ms)"
  let ?sum = "crc 0 (?hdr @ be32 0 @ ?body)"
  let ?raw = "?hdr @ le32 ?sum @ ?body"
  have marshal: "packet_marshal crc p = Ok ?raw"
    using write_chunks_padded [OF ms(1), of "[]"]
    by (simp add: packet_marshal_def write_framed_def Let_def)
  have "chunks_loop ?raw (length (?hdr @ le32 ?sum)) = Ok (map chunk_on_wire (pk_chunks p))"
    by (rule chunks_loop_concat [OF ms(2)]) simp
  moreover have "generate_packet_checksum crc ?raw = Ok ?sum"
    by (rule crc32c_append.checksum_of_zeroed [OF assms(1)]) simp_all
  ultimately have unm: "packet_unmarshal crc ?raw = Ok (p\<lparr>pk_chunks := map chunk_on_wire (pk_chunks p)\<rparr>)"
    by (simp add: packet_unmarshal_def PACKET_HEADER_SIZE_def guard_def get_u16_be16 get_u32_be32
        get_u32_le_le32)
  have len: "length ?raw = marshaled_len p"
    using length_concat_padded [OF ms(2)]
    by (simp add: marshaled_len_def PACKET_HEADER_SIZE_def comp_def)
  have "length ?raw mod 4 = 0"
  proof -
    have "length ?raw = 12 + length ?body" by simp
    then show ?thesis
      using concat_padded_mod [of ms] by (simp only: mod_eq_0_iff_dvd dvd_add) simp
  qed
  then show thesis by (rule that [OF marshal unm len])
qed

subsection \<open>The two parsers agree\<close>

lemma slice_shift: "slice (pre @ raw) (length pre + a) (length pre + b) = slice raw a b"
  by (simp add: slice_def)

lemma slice_chunk_shift: "slice_chunk (pre @ raw) (length pre + off) = slice_chunk raw off"
  using slice_shift [of pre raw off]
  by (simp add: slice_chunk_def nth_append guard_def Let_def add.assoc)

lemma chunks_loop_shift: "chunks_loop (pre @ raw) (length pre + off) = chunks_loop raw off"
proof (induction raw off rule: chunks_loop.induct)
  case (1 raw off)
  show ?case
  proof (cases "off + CHUNK_HEADER_SIZE > length raw")
    case True
    then show ?thesis by (simp add: chunks_loop.simps)
  next
    case False
    let ?k = "\<lambda>r d c. and_then (chunks_loop r (d + off + (CHUNK_HEADER_SIZE + chunk_value_length c
          + get_padding_size (chunk_value_length c)))) (\<lambda>cs. Ok (c # cs))"
    have "(pre @ raw) ! (length pre + off) = raw ! off" by simp
    moreover have "?k (pre @ raw) (length pre) c = ?k raw 0 c"
      if "slice_chunk raw off = Ok buf" "chunk_unmarshal (raw ! off) buf = Ok c" for buf c
      using 1 [OF _ _ that refl] False by (simp add: CHUNK_HEADER_SIZE_def add.assoc)
    ultimately show ?thesis
      using False by (subst (1 2) chunks_loop.simps)
        (simp add: slice_chunk_shift Let_def CHUNK_HEADER_SIZE_def cong: and_then_cong)
  qed
qed

lemma partial_decode_finish_agrees:
  assumes "partial_decode_unmarshal crc raw = Ok pd"
  shows "partial_decode_finish pd = packet_unmarshal crc raw"
proof -
  have len: "12 \<le> length raw"
    using assms by (auto simp: partial_decode_unmarshal_def guard_def PACKET_HEADER_SIZE_def split: if_splits)
  have loop: "chunks_loop (drop 12 raw) 0 = chunks_loop raw 12"
    using chunks_loop_shift [of "take 12 raw" "drop 12 raw" 0] len by simp
  show ?thesis using assms len
    by (auto simp: partial_decode_unmarshal_def packet_unmarshal_def partial_decode_finish_def
        guard_def PACKET_HEADER_SIZE_def and_then_Ok_iff Let_def loop
        split: if_splits prod.splits)
qed

end
