(* ===== verification/Sctp_Packet_Safety.thy ===== *)
theory Sctp_Packet_Safety
  imports Sctp_Packet
begin

text \<open>Which bytes can make the packet parser panic. The chunk loop hands every
parser exactly the bytes that the length field announces (\<open>exact\<close>); on such
input every chunk parser but the one for error causes is free of panics, and
that one panics exactly on a cause that announces more bytes than are left. The
panics are shown on concrete packets.\<close>

section \<open>Exact slices\<close>

definition exact :: "bytes \<Rightarrow> bool" where
  "exact buf \<longleftrightarrow> 4 \<le> length buf \<and> unat (of_be16 (buf ! 2) (buf ! 3)) = length buf"

lemma slice_chunk_exact:
  assumes "slice_chunk raw off = Ok buf"
  shows "exact buf"
proof -
  let ?n = "unat (of_be16 (raw ! (off + 2)) (raw ! (off + 3)))"
  have n: "4 \<le> ?n" "off + ?n \<le> length raw" "buf = take ?n (drop off raw)"
    using assms by (auto simp: slice_chunk_def guard_def CHUNK_HEADER_SIZE_def slice_def Let_def
        split: if_splits)
  then have "length buf = ?n" "buf ! 2 = raw ! (off + 2)" "buf ! 3 = raw ! (off + 3)"
    by simp_all
  with n(1) show ?thesis by (simp add: exact_def)
qed

lemma slice_chunk_prefix:
  assumes "exact m"
  shows "slice_chunk (m @ rest) 0 = Ok m"
proof -
  have "4 \<le> length m" "unat (of_be16 (m ! 2) (m ! 3)) = length m"
    using assms by (auto simp: exact_def)
  then show ?thesis
    by (simp add: slice_chunk_def nth_append slice_def guard_def CHUNK_HEADER_SIZE_def Let_def
        numeral_2_eq_2)
qed

lemma slice_chunk_no_panic: "off + 4 \<le> length raw \<Longrightarrow> no_panic (slice_chunk raw off)"
  by (auto simp: slice_chunk_def guard_def slice_def Let_def)

lemma exact_header:
  assumes "exact buf"
  obtains h where "chunk_header_unmarshal buf = Ok h" "unat (ch_value_length h) = length buf - 4"
    "chunk_body buf h = Ok (drop 4 buf)"
proof -
  obtain a b c d r where buf: "buf = a # b # c # d # r"
    using assms by (auto simp: exact_def Suc_le_length_iff eval_nat_numeral)
  let ?w = "of_be16 c d"
  have w: "unat ?w = length buf" "4 \<le> length buf" using assms buf by (auto simp: exact_def)
  then have le: "(4 :: u16) \<le> ?w" by (simp add: word_le_nat_alt)
  have u: "uint ?w = int (length buf)" using w(1) by (metis uint_nat)
  have sub: "unat (?w - 4) = length buf - 4" using w le by (simp add: unat_sub)
  have "chunk_header_unmarshal buf = Ok \<lparr>ch_typ = a, ch_flags = b, ch_value_length = ?w - 4\<rparr>"
    using w u buf by (simp add: chunk_header_unmarshal_def guard_def CHUNK_HEADER_SIZE_def Let_def)
  moreover have "chunk_body buf \<lparr>ch_typ = a, ch_flags = b, ch_value_length = ?w - 4\<rparr> = Ok (drop 4 buf)"
    using sub w(2) by (simp add: chunk_body_def slice_def CHUNK_HEADER_SIZE_def)
  ultimately show thesis using that sub by force
qed

section \<open>Parsers without panics\<close>

lemma payload_data_no_panic:
  assumes "exact buf" shows "no_panic (payload_data_unmarshal buf)"
proof -
  obtain h where h: "chunk_header_unmarshal buf = Ok h" "unat (ch_value_length h) = length buf - 4"
    "chunk_body buf h = Ok (drop 4 buf)" using exact_header [OF assms] .
  show ?thesis
  proof (cases "16 \<le> length buf")
    case True
    then obtain a b c d where "get_u32 (drop 4 buf) = Ok (a, drop 8 buf)" "get_u16 (drop 8 buf) = Ok (b, drop 10 buf)"
      "get_u16 (drop 10 buf) = Ok (c, drop 12 buf)" "get_u32 (drop 12 buf) = Ok (d, drop 16 buf)"
      using get_u32_at [of 4 buf] get_u16_at [of 8 buf] get_u16_at [of 10 buf] get_u32_at [of 12 buf] by auto
    with h True show ?thesis
      by (simp add: payload_data_unmarshal_def guard_def size_defs slice_def)
  qed (use h in \<open>auto simp: payload_data_unmarshal_def guard_def size_defs\<close>)
qed

lemma gap_blocks_ok:
  "4 * n \<le> length r \<Longrightarrow> \<exists>gs. get_gap_ack_blocks_wire n r = Ok (gs, drop (4 * n) r)"
proof (induction n arbitrary: r)
  case (Suc n)
  obtain a b where ab: "get_u16 r = Ok (a, drop 2 r)" "get_u16 (drop 2 r) = Ok (b, drop 4 r)"
    using get_u16_ok [of r] get_u16_at [of 2 r] Suc.prems by auto
  have "4 * n \<le> length (drop 4 r)" using Suc.prems by simp
  then obtain gs where "get_gap_ack_blocks_wire n (drop 4 r) = Ok (gs, drop (4 * n) (drop 4 r))"
    using Suc.IH by blast
  with ab show ?case by (auto simp: add.commute)
qed simp

lemma sack_no_panic:
  assumes "exact buf" shows "no_panic (sack_unmarshal buf)"
proof -
  obtain h where h: "chunk_header_unmarshal buf = Ok h" "unat (ch_value_length h) = length buf - 4"
    "chunk_body buf h = Ok (drop 4 buf)" using exact_header [OF assms] .
  show ?thesis
  proof (cases "16 \<le> length buf")
    case True
    then obtain a b c d where rd: "get_u32 (drop 4 buf) = Ok (a, drop 8 buf)" "get_u32 (drop 8 buf) = Ok (b, drop 12 buf)"
      "get_u16 (drop 12 buf) = Ok (c, drop 14 buf)" "get_u16 (drop 14 buf) = Ok (d, drop 16 buf)"
      using get_u32_at [of 4 buf] get_u32_at [of 8 buf] get_u16_at [of 12 buf] get_u16_at [of 14 buf] by auto
    show ?thesis
    proof (cases "16 + 4 * unat c + 4 * unat d \<le> length buf")
      case le: True
      then have "4 * unat c \<le> length (drop 16 buf)" "4 * unat d \<le> length (drop (4 * unat c) (drop 16 buf))"
        by simp_all
      then obtain gs ds rs where "get_gap_ack_blocks_wire (unat c) (drop 16 buf) = Ok (gs, drop (4 * unat c) (drop 16 buf))"
          "get_u32s (unat d) (drop (4 * unat c) (drop 16 buf)) = Ok (ds, rs)"
        using gap_blocks_ok get_u32s_ok by metis
      with h rd True show ?thesis
        by (simp add: sack_unmarshal_def guard_def size_defs Let_def)
    qed (use h rd True in \<open>auto simp: sack_unmarshal_def guard_def size_defs Let_def\<close>)
  qed (use h in \<open>auto simp: sack_unmarshal_def guard_def size_defs Let_def\<close>)
qed

lemma forward_tsn_streams_loop_no_panic:
  "off + remaining = length buf \<Longrightarrow> no_panic (forward_tsn_streams_loop buf (length buf) off remaining)"
proof (induction remaining arbitrary: off rule: less_induct)
  case (less remaining)
  show ?case
  proof (cases "4 \<le> remaining")
    case True
    then have sl: "slice buf off (length buf) = Ok (drop off buf)"
      using less.prems by (simp add: slice_def)
    have "off + 2 \<le> length buf" "off + 2 + 2 \<le> length buf" using less.prems True by simp_all
    then obtain a b where "get_u16 (drop off buf) = Ok (a, drop (off + 2) buf)"
        "get_u16 (drop (off + 2) buf) = Ok (b, drop (off + 2 + 2) buf)"
      using get_u16_at by metis
    then have "forward_tsn_stream_unmarshal (drop off buf) = Ok \<lparr>fts_identifier = a, fts_sequence = b\<rparr>"
      using less.prems True by (simp add: forward_tsn_stream_unmarshal_def guard_def size_defs)
    moreover have "no_panic (forward_tsn_streams_loop buf (length buf) (off + 4) (remaining - 4))"
      using less.prems True by (intro less.IH) auto
    ultimately show ?thesis using sl
      by (subst forward_tsn_streams_loop.simps) (auto simp: size_defs intro!: no_panic_and_then)
  next
    case False
    then have "length buf - off < 4" using less.prems by linarith
    then show ?thesis using less.prems
      by (subst forward_tsn_streams_loop.simps)
         (simp add: slice_def forward_tsn_stream_unmarshal_def guard_def size_defs)
  qed
qed

lemma forward_tsn_no_panic:
  assumes "exact buf" shows "no_panic (forward_tsn_unmarshal buf)"
proof -
  obtain h where h: "chunk_header_unmarshal buf = Ok h" "unat (ch_value_length h) = length buf - 4"
    "chunk_body buf h = Ok (drop 4 buf)" using exact_header [OF assms] .
  show ?thesis
  proof (cases "8 \<le> length buf")
    case True
    then obtain a where "get_u32 (drop 4 buf) = Ok (a, drop 8 buf)" using get_u32_at [of 4 buf] by auto
    moreover have "no_panic (forward_tsn_streams_loop buf (length buf) 8 (length buf - 8))"
      using True by (intro forward_tsn_streams_loop_no_panic) simp
    ultimately show ?thesis using h True
      by (auto simp: forward_tsn_unmarshal_def guard_def size_defs Let_def intro!: no_panic_and_then)
  qed (use h in \<open>auto simp: forward_tsn_unmarshal_def guard_def size_defs Let_def\<close>)
qed

lemma init_params_loop_no_panic:
  "e = length raw \<Longrightarrow> no_panic (init_params_loop raw e off rem)"
proof (induction raw e off rem rule: init_params_loop.induct)
  case (1 raw e off rem)
  show ?case
  proof (cases "rem > 4 \<and> off < e")
    case True
    then have "slice raw off e = Ok (drop off raw)" using "1.prems" by (simp add: slice_def)
    with True 1 show ?thesis
      by (subst init_params_loop.simps)
         (auto simp: Let_def intro!: no_panic_and_then build_param_no_panic)
  qed (subst init_params_loop.simps, auto)
qed

lemma init_no_panic:
  assumes "exact buf" shows "no_panic (init_unmarshal buf)"
proof -
  obtain h where h: "chunk_header_unmarshal buf = Ok h" "unat (ch_value_length h) = length buf - 4"
    "chunk_body buf h = Ok (drop 4 buf)" using exact_header [OF assms] .
  show ?thesis
  proof (cases "20 \<le> length buf")
    case True
    then obtain a b c d e where "get_u32 (drop 4 buf) = Ok (a, drop 8 buf)" "get_u32 (drop 8 buf) = Ok (b, drop 12 buf)"
      "get_u16 (drop 12 buf) = Ok (c, drop 14 buf)" "get_u16 (drop 14 buf) = Ok (d, drop 16 buf)"
      "get_u32 (drop 16 buf) = Ok (e, drop 20 buf)"
      using get_u32_at [of 4 buf] get_u32_at [of 8 buf] get_u16_at [of 12 buf] get_u16_at [of 14 buf]
        get_u32_at [of 16 buf] by auto
    with h True show ?thesis
      by (auto simp: init_unmarshal_def guard_def size_defs Let_def
          intro!: no_panic_and_then init_params_loop_no_panic)
  qed (use h in \<open>auto simp: init_unmarshal_def guard_def size_defs Let_def\<close>)
qed

lemma reconfig_no_panic:
  assumes "exact buf" shows "no_panic (reconfig_unmarshal buf)"
proof -
  obtain h where h: "chunk_header_unmarshal buf = Ok h" "unat (ch_value_length h) = length buf - 4"
    "chunk_body buf h = Ok (drop 4 buf)" using exact_header [OF assms] .
  have "no_panic (slice buf off (4 + (length buf - 4)))" if "off < 4 + (length buf - 4)" for off
    using that assms by (simp add: slice_def exact_def)
  with h show ?thesis
    by (auto simp: reconfig_unmarshal_def guard_def size_defs Let_def
        intro!: no_panic_and_then build_param_no_panic)
qed

lemma simple_no_panic:
  assumes "exact buf"
  shows "no_panic (cookie_echo_unmarshal buf)" "no_panic (cookie_ack_unmarshal buf)"
    "no_panic (shutdown_ack_unmarshal buf)" "no_panic (shutdown_complete_unmarshal buf)"
    "no_panic (heartbeat_unmarshal buf)" "no_panic (shutdown_unmarshal buf)"
proof -
  obtain h where h: "chunk_header_unmarshal buf = Ok h" "unat (ch_value_length h) = length buf - 4"
    "chunk_body buf h = Ok (drop 4 buf)" using exact_header [OF assms] .
  have "length buf = 8 \<Longrightarrow> \<exists>x. get_u32 (drop 4 buf) = Ok (x, drop 8 buf)"
    using get_u32_at [of 4 buf] by simp
  with h show "no_panic (shutdown_unmarshal buf)"
    by (auto simp: shutdown_unmarshal_def guard_def size_defs)
  show "no_panic (cookie_echo_unmarshal buf)" "no_panic (cookie_ack_unmarshal buf)"
    "no_panic (shutdown_ack_unmarshal buf)" "no_panic (shutdown_complete_unmarshal buf)"
    using h by (simp_all add: cookie_echo_unmarshal_def cookie_ack_unmarshal_def
        shutdown_ack_unmarshal_def shutdown_complete_unmarshal_def guard_def)
  show "no_panic (heartbeat_unmarshal buf)"
    using h by (auto simp: heartbeat_unmarshal_def guard_def
        intro!: no_panic_and_then build_param_no_panic)
qed

lemma chunk_unmarshal_no_panic:
  assumes "exact buf" "t \<noteq> CT_ABORT" "t \<noteq> CT_ERROR"
  shows "no_panic (chunk_unmarshal t buf)"
proof -
  have wrap: "no_panic r \<Longrightarrow> no_panic (and_then r (\<lambda>x. Ok (f x)))" for r :: "'a result" and f :: "'a \<Rightarrow> chunk"
    by (auto intro: no_panic_and_then)
  have branch: "(b \<Longrightarrow> no_panic x) \<Longrightarrow> (\<not> b \<Longrightarrow> no_panic y) \<Longrightarrow> no_panic (if b then x else y)"
    for b and x y :: "chunk result" by simp
  show ?thesis
    unfolding chunk_unmarshal_def
    by (intro branch; (rule wrap)?)
       (simp_all add: assms init_no_panic payload_data_no_panic sack_no_panic reconfig_no_panic
         forward_tsn_no_panic simple_no_panic)
qed

section \<open>Panics of the error causes\<close>

text \<open>The offsets at which the loops stand: the causes of an ABORT or ERROR chunk and the chunks of
a packet.\<close>

inductive cause_at :: "bytes \<Rightarrow> nat \<Rightarrow> bool" for buf where
  first: "cause_at buf CHUNK_HEADER_SIZE"
| more: "cause_at buf off \<Longrightarrow> off + 4 \<le> length buf \<Longrightarrow> error_cause_unmarshal (drop off buf) = Ok c \<Longrightarrow>
    cause_at buf (off + error_cause_length c)"

inductive chunk_at :: "bytes \<Rightarrow> nat \<Rightarrow> bool" for raw where
  first: "chunk_at raw PACKET_HEADER_SIZE"
| more: "chunk_at raw off \<Longrightarrow> off + CHUNK_HEADER_SIZE \<le> length raw \<Longrightarrow> slice_chunk raw off = Ok buf \<Longrightarrow>
    chunk_unmarshal (raw ! off) buf = Ok c \<Longrightarrow>
    chunk_at raw (off + (CHUNK_HEADER_SIZE + chunk_value_length c + get_padding_size (chunk_value_length c)))"

text \<open>A cause reached by the loop whose length field exceeds the rest of the chunk.\<close>

definition cause_overruns :: "bytes \<Rightarrow> bool" where
  "cause_overruns buf \<longleftrightarrow> (\<exists>co. cause_at buf co \<and> co + 4 \<le> length buf \<and>
     length buf - co < unat (of_be16 (buf ! (co + 2)) (buf ! (co + 3))))"

lemma error_cause_panic_iff:
  assumes "co + 4 \<le> length buf"
  shows "error_cause_unmarshal (drop co buf) = panic \<longleftrightarrow>
    length buf - co < unat (of_be16 (buf ! (co + 2)) (buf ! (co + 3)))"
proof -
  have "4 \<le> length (drop co buf)" using assms by simp
  then obtain a b c d r where r: "drop co buf = a # b # c # d # r"
    by (cases "drop co buf" rule: get_u32.cases) auto
  have "drop co buf ! 2 = buf ! (co + 2)" "drop co buf ! 3 = buf ! (co + 3)" using assms by simp_all
  then have cd: "buf ! (co + 2) = c" "buf ! (co + 3) = d" using r by simp_all
  have "length buf - co = length (a # b # c # d # r)" using arg_cong [OF r, of length] by simp
  then show ?thesis
    unfolding r cd by (auto simp: error_cause_unmarshal_def guard_def size_defs slice_def Let_def)
qed

lemma causes_loop_step:
  assumes "co + 4 \<le> length buf"
  shows "error_causes_loop buf (length buf) co =
    and_then (error_cause_unmarshal (drop co buf)) (\<lambda>c.
    and_then (error_causes_loop buf (length buf) (co + error_cause_length c)) (\<lambda>cs. Ok (c # cs)))"
  using assms by (subst error_causes_loop.simps) (simp add: slice_def)

lemma causes_loop_panic_at:
  assumes "cause_at buf co" "error_causes_loop buf (length buf) co = panic"
  shows "cause_overruns buf"
  using assms
proof (induction "length buf - co" arbitrary: co rule: less_induct)
  case less
  have le: "co + 4 \<le> length buf"
    using less.prems(2) by (subst (asm) error_causes_loop.simps) (auto split: if_splits)
  show ?case
  proof (cases "error_cause_unmarshal (drop co buf)")
    case (Inl e)
    then have "error_cause_unmarshal (drop co buf) = panic" using less.prems(2) causes_loop_step [OF le] by simp
    then show ?thesis using less.prems(1) le error_cause_panic_iff [OF le] by (auto simp: cause_overruns_def)
  next
    case (Inr c)
    have "error_causes_loop buf (length buf) (co + error_cause_length c) = panic"
      using less.prems(2) Inr causes_loop_step [OF le]
      by (cases "error_causes_loop buf (length buf) (co + error_cause_length c)") simp_all
    then show ?thesis
      using less.hyps [of "co + error_cause_length c"] cause_at.more [OF less.prems(1) le Inr] le
      by (simp add: error_cause_length_def ERROR_CAUSE_HEADER_LENGTH_def)
  qed
qed

lemma causes_loop_panic_first:
  assumes "cause_at buf co" "error_causes_loop buf (length buf) co = panic"
  shows "error_causes_loop buf (length buf) CHUNK_HEADER_SIZE = panic"
  using assms by induction (simp_all add: causes_loop_step)

lemma causes_panic_iff: "error_causes_loop buf (length buf) CHUNK_HEADER_SIZE = panic \<longleftrightarrow> cause_overruns buf"
proof
  assume "cause_overruns buf"
  then obtain co where co: "cause_at buf co" "co + 4 \<le> length buf" "error_cause_unmarshal (drop co buf) = panic"
    using error_cause_panic_iff by (auto simp: cause_overruns_def)
  then show "error_causes_loop buf (length buf) CHUNK_HEADER_SIZE = panic"
    by (intro causes_loop_panic_first [OF co(1)]) (simp add: causes_loop_step)
qed (rule causes_loop_panic_at [OF cause_at.first])

lemma chunk_panic_iff:
  assumes "exact buf" "t = buf ! 0"
  shows "chunk_unmarshal t buf = panic \<longleftrightarrow> (t = CT_ABORT \<or> t = CT_ERROR) \<and> cause_overruns buf"
proof (cases "t = CT_ABORT \<or> t = CT_ERROR")
  case True
  obtain h where h: "chunk_header_unmarshal buf = Ok h" "unat (ch_value_length h) = length buf - 4"
    using exact_header [OF assms(1)] by metis
  obtain a b c d r where buf: "buf = a # b # c # d # r"
    using assms(1) by (auto simp: exact_def Suc_le_length_iff eval_nat_numeral)
  have "ch_typ h = t" "CHUNK_HEADER_SIZE + unat (ch_value_length h) = length buf"
    using h assms by (auto simp: buf chunk_header_unmarshal_def guard_def Let_def exact_def CHUNK_HEADER_SIZE_def split: if_splits)
  then have "chunk_unmarshal t buf = panic \<longleftrightarrow> error_causes_loop buf (length buf) CHUNK_HEADER_SIZE = panic"
    using True h(1)
    by (cases "error_causes_loop buf (length buf) CHUNK_HEADER_SIZE")
       (auto simp: chunk_unmarshal_def ct_defs abort_unmarshal_def error_unmarshal_def guard_def)
  then show ?thesis using True causes_panic_iff by simp
qed (use chunk_unmarshal_no_panic [OF assms(1), of t] in fastforce)

lemma slice_chunk_type: "slice_chunk raw off = Ok buf \<Longrightarrow> raw ! off = buf ! 0"
  by (auto simp: slice_chunk_def guard_def CHUNK_HEADER_SIZE_def slice_def Let_def split: if_splits)

text \<open>A chunk reached by the loop with such a cause.\<close>

definition panic_chunk :: "bytes \<Rightarrow> nat \<Rightarrow> bytes \<Rightarrow> bool" where
  "panic_chunk raw off buf \<longleftrightarrow> chunk_at raw off \<and> off + CHUNK_HEADER_SIZE \<le> length raw \<and> slice_chunk raw off = Ok buf \<and>
     (raw ! off = CT_ABORT \<or> raw ! off = CT_ERROR) \<and> cause_overruns buf"

lemma chunks_loop_unfold_at:
  assumes "off + CHUNK_HEADER_SIZE \<le> length raw" "slice_chunk raw off = Ok buf"
  shows "chunks_loop raw off = and_then (chunk_unmarshal (raw ! off) buf) (\<lambda>c.
    and_then (chunks_loop raw (off + (CHUNK_HEADER_SIZE + chunk_value_length c + get_padding_size (chunk_value_length c))))
      (\<lambda>cs. Ok (c # cs)))"
  using assms by (subst chunks_loop.simps) (auto simp: CHUNK_HEADER_SIZE_def Let_def)

lemma chunks_loop_panic_at:
  assumes "chunk_at raw off" "chunks_loop raw off = panic"
  shows "\<exists>o' buf. panic_chunk raw o' buf"
  using assms
proof (induction "length raw - off" arbitrary: off rule: less_induct)
  case less
  have le: "off + CHUNK_HEADER_SIZE \<le> length raw"
    using less.prems(2) by (subst (asm) chunks_loop.simps) (auto split: if_splits)
  obtain buf where buf: "slice_chunk raw off = Ok buf"
    using less.prems(2) le slice_chunk_no_panic [of off raw]
    by (cases "slice_chunk raw off") (auto simp: chunks_loop.simps [of raw off] CHUNK_HEADER_SIZE_def)
  note step = chunks_loop_unfold_at [OF le buf]
  show ?case
  proof (cases "chunk_unmarshal (raw ! off) buf")
    case (Inl e)
    then have "chunk_unmarshal (raw ! off) buf = panic" using less.prems(2) step by simp
    then have "panic_chunk raw off buf"
      using chunk_panic_iff [OF slice_chunk_exact [OF buf] slice_chunk_type [OF buf]] less.prems(1) le buf
      by (simp add: panic_chunk_def)
    then show ?thesis by blast
  next
    case (Inr c)
    let ?n = "off + (CHUNK_HEADER_SIZE + chunk_value_length c + get_padding_size (chunk_value_length c))"
    have "chunks_loop raw ?n = panic" using less.prems(2) Inr step by (cases "chunks_loop raw ?n") simp_all
    then show ?thesis
      using less.hyps [of ?n] chunk_at.more [OF less.prems(1) le buf Inr] le by (simp add: CHUNK_HEADER_SIZE_def)
  qed
qed

lemma chunks_loop_panic_first:
  assumes "chunk_at raw off" "chunks_loop raw off = panic"
  shows "chunks_loop raw PACKET_HEADER_SIZE = panic"
  using assms by induction (simp_all add: chunks_loop_unfold_at)

lemma chunks_loop_panic_iff: "chunks_loop raw PACKET_HEADER_SIZE = panic \<longleftrightarrow> (\<exists>off buf. panic_chunk raw off buf)"
proof
  assume "\<exists>off buf. panic_chunk raw off buf"
  then obtain off buf where p: "panic_chunk raw off buf" by blast
  then have at: "chunk_at raw off" and le: "off + CHUNK_HEADER_SIZE \<le> length raw" and buf: "slice_chunk raw off = Ok buf"
    by (simp_all add: panic_chunk_def)
  have "chunk_unmarshal (raw ! off) buf = panic"
    using chunk_panic_iff [OF slice_chunk_exact [OF buf] slice_chunk_type [OF buf]] p by (simp add: panic_chunk_def)
  then show "chunks_loop raw PACKET_HEADER_SIZE = panic"
    by (intro chunks_loop_panic_first [OF at]) (simp add: chunks_loop_unfold_at [OF le buf])
qed (rule chunks_loop_panic_at [OF chunk_at.first])

section \<open>Properties of the packet layer\<close>

text \<open>A packet with a valid checksum.\<close>

definition seal :: "crc_fun \<Rightarrow> common_header \<Rightarrow> bytes \<Rightarrow> bytes" where
  "seal crc h body =
    (let hdr = be16 (hd_source_port h) @ be16 (hd_destination_port h) @ be32 (hd_verification_tag h)
     in hdr @ le32 (crc 0 (hdr @ be32 0 @ body)) @ body)"

lemma seal_checksum:
  assumes "crc32c_append crc"
  shows "\<exists>ck. generate_packet_checksum crc (seal crc h body) = Ok ck \<and> seal crc h body =
    be16 (hd_source_port h) @ be16 (hd_destination_port h) @ be32 (hd_verification_tag h) @ le32 ck @ body"
  using crc32c_append.checksum_of_zeroed [OF assms, of "be16 (hd_source_port h) @
      be16 (hd_destination_port h) @ be32 (hd_verification_tag h)" _ body]
  by (simp add: seal_def Let_def)

lemma packet_unmarshal_seal:
  assumes "crc32c_append crc"
  shows "packet_unmarshal crc (seal crc h body) =
    and_then (chunks_loop body 0) (\<lambda>cs. Ok \<lparr>pk_common_header = h, pk_chunks = cs\<rparr>)"
proof -
  obtain ck where ck: "generate_packet_checksum crc (seal crc h body) = Ok ck" "seal crc h body =
    be16 (hd_source_port h) @ be16 (hd_destination_port h) @ be32 (hd_verification_tag h) @ le32 ck @ body"
    using seal_checksum [OF assms] by blast
  have "chunks_loop (seal crc h body) 12 = chunks_loop body 0"
    using chunks_loop_shift [of "be16 (hd_source_port h) @ be16 (hd_destination_port h) @
        be32 (hd_verification_tag h) @ le32 ck" body 0] ck(2) by simp
  with ck show ?thesis
    by (cases h) (simp add: packet_unmarshal_def PACKET_HEADER_SIZE_def guard_def get_u16_be16
        get_u32_be32 get_u32_le_le32)
qed

lemma partial_decode_seal:
  assumes "crc32c_append crc" "4 \<le> length body" "chunk_header_unmarshal body = Ok h"
    and "ch_typ h = CT_INIT \<or> ch_typ h = CT_INIT_ACK" "length body < 8"
  shows "partial_decode_unmarshal crc (seal crc ch body) = panic"
proof -
  obtain ck where ck: "generate_packet_checksum crc (seal crc ch body) = Ok ck" "seal crc ch body =
    be16 (hd_source_port ch) @ be16 (hd_destination_port ch) @ be32 (hd_verification_tag ch) @ le32 ck @ body"
    using seal_checksum [OF assms(1)] by blast
  have "get_u32 (drop 4 body) = panic"
    using assms(5) by (cases "drop 4 body" rule: get_u32.cases)
      (auto dest: arg_cong [where f = length])
  with ck assms(2-4) show ?thesis
    by (auto simp: partial_decode_unmarshal_def PACKET_HEADER_SIZE_def CHUNK_HEADER_SIZE_def guard_def
        get_u16_be16 get_u32_be32 get_u32_le_le32 Let_def)
qed

text \<open>C2. Packet round trip: for every packet of well-formed chunks, marshalling succeeds, writes
exactly the number of bytes that \<open>marshaled_len\<close> pre-allocates, that number is a multiple of
four, and parsing the bytes yields the packet again, with the sender-only fields of DATA chunks
(acknowledged, retransmit, miss indicator and so on) reset to their defaults. Well-formed
(\<open>wf_chunk\<close>) means that every chunk and every parameter fits its 16-bit length field, and for
the chunks with parameters: the last parameter of an INIT has a value (the parser skips one of
four bytes), a HEARTBEAT has exactly one parameter, the heartbeat information, a RECONFIG has its
first parameter, a requested HMAC list names known algorithms, and an unknown parameter has a type
that the parser has no arm for and whose high bit tells it to skip. HEARTBEAT ACK is not covered:
the code writes it, but \<open>Packet::unmarshal\<close> rejects it.\<close>

theorem packet_roundtrip:
  assumes "crc32c_append crc" and "list_all wf_chunk (pk_chunks p)"
  shows "\<exists>raw. packet_marshal crc p = Ok raw \<and>
    packet_unmarshal crc raw = Ok (p\<lparr>pk_chunks := map chunk_on_wire (pk_chunks p)\<rparr>) \<and>
    length raw = marshaled_len p \<and> length raw mod 4 = 0"
  using packet_codec [OF assms] by metis

definition sample_packet :: packet where
  "sample_packet = \<lparr>pk_common_header = \<lparr>hd_source_port = 5000, hd_destination_port = 5000,
      hd_verification_tag = 7\<rparr>,
    pk_chunks = [CSack \<lparr>sa_cumulative_tsn_ack = 3, sa_advertised_receiver_window_credit = 1500,
        sa_gap_ack_blocks = [\<lparr>gb_start = 2, gb_end = 3\<rparr>], sa_duplicate_tsn = [1]\<rparr>,
      CPayloadData (payload_data_default\<lparr>pd_beginning_fragment := True, pd_tsn := 9,
        pd_user_data := [1, 2, 3], pd_nsent := 4\<rparr>)]\<rparr>"

theorem packet_roundtrip_witness:
  "\<exists>raw. packet_marshal crc32c_ref sample_packet = Ok raw \<and>
    packet_unmarshal crc32c_ref raw =
      Ok (sample_packet\<lparr>pk_chunks := map chunk_on_wire (pk_chunks sample_packet)\<rparr>) \<and>
    length raw = marshaled_len sample_packet \<and> length raw mod 4 = 0"
  by (rule packet_roundtrip [OF crc32c_ref.crc32c_append_axioms])
     (simp add: sample_packet_def wf_sack_def sack_value_length_def wf_payload_data_def
       payload_data_value_length_def payload_data_default_def size_defs)

text \<open>C21. The endpoint parses a datagram in two steps (\<open>PartialDecode::unmarshal\<close>,
later \<open>finish\<close>); whenever the first step accepts the datagram, finishing it gives
exactly the result, value, error or panic, of the one-step \<open>Packet::unmarshal\<close>.\<close>

theorem partial_decode_agrees:
  assumes "partial_decode_unmarshal crc raw = Ok pd"
  shows "partial_decode_finish pd = packet_unmarshal crc raw"
  using assms by (rule partial_decode_finish_agrees)

theorem partial_decode_agrees_witness:
  "\<exists>pd. partial_decode_unmarshal (\<lambda>_ _. 0) ([19, 136, 19, 136, 0, 0, 0, 7, 0, 0, 0, 0] @ [11, 0, 0, 4]) = Ok pd \<and>
    partial_decode_finish pd =
      packet_unmarshal (\<lambda>_ _. 0) ([19, 136, 19, 136, 0, 0, 0, 7, 0, 0, 0, 0] @ [11, 0, 0, 4])"
proof -
  let ?raw = "[19, 136, 19, 136, 0, 0, 0, 7, 0, 0, 0, 0] @ [11, 0, 0, 4] :: bytes"
  have "\<exists>pd. partial_decode_unmarshal (\<lambda>_ _. 0) ?raw = Ok pd"
    by (simp add: partial_decode_unmarshal_def guard_def size_defs PACKET_HEADER_SIZE_def
        generate_packet_checksum_def slice_def of_be16_def of_be32_def chunk_header_unmarshal_def
        Let_def ct_defs)
  then show ?thesis using partial_decode_agrees by metis
qed

text \<open>C20. Malformed input is an error, not a crash, with one exception: parsing a datagram panics
if and only if its checksum is right and the loop over the chunks reaches an ABORT or ERROR chunk in
which the loop over the causes reaches a cause whose length field announces more bytes than the
chunk has left. So no length field of the packet's other chunks and their parameters makes the
parser slice out of range.\<close>

theorem packet_panic_only_in_error_causes:
  "packet_unmarshal crc raw = panic \<longleftrightarrow>
    12 \<le> length raw \<and>
    (\<exists>ck r. get_u32_le (drop 8 raw) = Ok (ck, r) \<and> generate_packet_checksum crc raw = Ok ck) \<and>
    (\<exists>off buf. panic_chunk raw off buf)"
proof (cases "12 \<le> length raw")
  case len: True
  then obtain a b c where rd: "get_u16 raw = Ok (a, drop 2 raw)" "get_u16 (drop 2 raw) = Ok (b, drop 4 raw)"
      "get_u32 (drop 4 raw) = Ok (c, drop 8 raw)"
    using get_u16_ok [of raw] get_u16_at [of 2 raw] get_u32_at [of 4 raw] by auto
  have "4 \<le> length (drop 8 raw)" using len by simp
  then obtain d r where "get_u32_le (drop 8 raw) = Ok (d, r)"
    by (cases "drop 8 raw" rule: get_u32_le.cases) auto
  moreover obtain ck where "generate_packet_checksum crc raw = Ok ck"
    using len by (auto simp: generate_packet_checksum_def slice_def)
  ultimately have "packet_unmarshal crc raw = panic \<longleftrightarrow> d = ck \<and> chunks_loop raw PACKET_HEADER_SIZE = panic"
    using rd len by (cases "chunks_loop raw PACKET_HEADER_SIZE")
      (auto simp: packet_unmarshal_def guard_def PACKET_HEADER_SIZE_def)
  then show ?thesis
    using len \<open>get_u32_le (drop 8 raw) = Ok (d, r)\<close> \<open>generate_packet_checksum crc raw = Ok ck\<close>
    by (auto simp: chunks_loop_panic_iff)
qed (simp add: packet_unmarshal_def guard_def PACKET_HEADER_SIZE_def)

text \<open>C27. The exception is real: \<open>ErrorCause::unmarshal\<close> trusts the cause length.
A datagram with a valid checksum whose ERROR chunk holds a cause that announces
more bytes than the chunk carries makes the parser panic, whatever the rest.\<close>

theorem error_cause_overrun_panics:
  assumes "crc32c_append crc" and "8 + length v < 65536" and "unat len > 4 + length v"
  shows "packet_unmarshal crc (seal crc h
    ([CT_ERROR, f] @ be16 (of_nat (8 + length v)) @ be16 code @ be16 len @ v @ rest)) = panic"
proof -
  let ?m = "[CT_ERROR, f] @ be16 (of_nat (8 + length v)) @ be16 code @ be16 len @ v"
  have fld: "?m ! 2 = ucast (drop_bit 8 (of_nat (8 + length v) :: u16))"
      "?m ! 3 = ucast (of_nat (8 + length v) :: u16)" by (simp_all add: be16_def)
  have n: "unat (of_nat (8 + length v) :: u16) = 8 + length v"
    using assms(2) by (rule unat_of_nat_u16)
  have w: "unat (of_be16 (?m ! 2) (?m ! 3)) = 8 + length v"
    unfolding fld of_be16_be16 by (rule n)
  have ex: "exact ?m" using w by (simp add: exact_def)
  have i: "(?m @ rest) ! 0 = CT_ERROR" by simp
  have sl: "slice_chunk (?m @ rest) 0 = Ok ?m" by (rule slice_chunk_prefix [OF ex])
  obtain hh where hh: "chunk_header_unmarshal ?m = Ok hh" "unat (ch_value_length hh) = length ?m - 4"
    using exact_header [OF ex] by metis
  have ty: "ch_typ hh = CT_ERROR"
    using hh(1) by (auto simp: chunk_header_unmarshal_def guard_def get_u16_be16 Let_def split: if_splits)
  have "error_cause_unmarshal (be16 code @ be16 len @ v) = panic"
    using assms(3) by (simp add: error_cause_unmarshal_def guard_def size_defs get_u16_be16 slice_def Let_def)
  then have "error_causes_loop ?m (length ?m) 4 = panic"
    by (subst error_causes_loop.simps) (simp add: slice_def)
  then have "error_unmarshal ?m = panic"
  proof -
    have "CHUNK_HEADER_SIZE + unat (ch_value_length hh) = length ?m"
      using hh(2) by (simp add: CHUNK_HEADER_SIZE_def)
    moreover assume "error_causes_loop ?m (length ?m) 4 = panic"
    ultimately show ?thesis
      unfolding error_unmarshal_def hh(1) and_then.simps
      by (simp only: ty guard_def CHUNK_HEADER_SIZE_def simp_thms if_False)
  qed
  then have "chunk_unmarshal CT_ERROR ?m = panic"
    by (simp add: chunk_unmarshal_def ct_defs)
  moreover have "\<not> length (?m @ rest) < 4" "0 \<noteq> length (?m @ rest)" by simp_all
  ultimately have "chunks_loop (?m @ rest) 0 = panic"
    unfolding chunks_loop.simps [of "?m @ rest" 0] sl i by (simp add: CHUNK_HEADER_SIZE_def)
  then show ?thesis
    using packet_unmarshal_seal [OF assms(1), of h "?m @ rest"] by simp
qed

theorem error_cause_overrun_panics_witness:
  "packet_unmarshal crc32c_ref (seal crc32c_ref
     \<lparr>hd_source_port = 5000, hd_destination_port = 5000, hd_verification_tag = 1\<rparr>
     ([CT_ERROR, 0] @ be16 8 @ be16 13 @ be16 255)) = panic"
  using error_cause_overrun_panics [OF crc32c_ref.crc32c_append_axioms, of "[]" 255 _ 0 13 "[]"] by simp

text \<open>C28. A datagram that consists of the common header and a bare INIT or INIT ACK
header (chunk length 4) passes every check of \<open>PartialDecode::unmarshal\<close> and then
makes it panic: the initiate tag is read without a length check.\<close>

theorem init_header_only_panics:
  assumes "crc32c_append crc" and "t = CT_INIT \<or> t = CT_INIT_ACK" and "n < 4"
  shows "partial_decode_unmarshal crc (seal crc h ([t, f, 0, 4] @ replicate n 0)) = panic"
proof -
  let ?b = "[t, f, 0, 4] @ replicate n (0 :: u8)"
  have "of_be16 0 4 = 4" by (simp add: of_be16_def)
  moreover have "\<forall>i\<in>set [1..int n]. ?b ! (CHUNK_HEADER_SIZE + nat (i - 1)) = 0"
    by (auto simp: CHUNK_HEADER_SIZE_def nth_append nth_Cons')
  ultimately have "chunk_header_unmarshal ?b = Ok \<lparr>ch_typ = t, ch_flags = f, ch_value_length = 0\<rparr>"
    by (simp add: chunk_header_unmarshal_def guard_def CHUNK_HEADER_SIZE_def Let_def list_ex_iff)
  then show ?thesis
    using assms by (intro partial_decode_seal) auto
qed

theorem init_header_only_panics_witness:
  "partial_decode_unmarshal crc32c_ref (seal crc32c_ref
     \<lparr>hd_source_port = 5000, hd_destination_port = 5000, hd_verification_tag = 0\<rparr>
     ([CT_INIT, 0, 0, 4] @ replicate 0 0)) = panic"
  by (rule init_header_only_panics [OF crc32c_ref.crc32c_append_axioms]) simp_all

end
