(* ===== verification/Sctp_Serial.thy ===== *)
theory Sctp_Serial
  imports Rtc_Prelude
begin

text \<open>Serial number arithmetic of \<open>rtc-sctp/src/util.rs\<close>, at both widths, and the
padding helper. The locale \<open>serial_number\<close> is the contract the queues and the
association rely on: comparison of two serial numbers is a statement about their
wrapped distance.\<close>

section \<open>Definitions\<close>

definition sna32lt :: "u32 \<Rightarrow> u32 \<Rightarrow> bool" where
  "sna32lt i1 i2 \<longleftrightarrow> (i1 < i2 \<and> i2 - i1 < 2 ^ 31) \<or> (i1 > i2 \<and> i1 - i2 > 2 ^ 31)"

definition sna32lte :: "u32 \<Rightarrow> u32 \<Rightarrow> bool" where
  "sna32lte i1 i2 \<longleftrightarrow> i1 = i2 \<or> sna32lt i1 i2"

definition sna32gt :: "u32 \<Rightarrow> u32 \<Rightarrow> bool" where
  "sna32gt i1 i2 \<longleftrightarrow> (i1 < i2 \<and> i2 - i1 \<ge> 2 ^ 31) \<or> (i1 > i2 \<and> i1 - i2 \<le> 2 ^ 31)"

definition sna32gte :: "u32 \<Rightarrow> u32 \<Rightarrow> bool" where
  "sna32gte i1 i2 \<longleftrightarrow> i1 = i2 \<or> sna32gt i1 i2"

definition sna16lt :: "u16 \<Rightarrow> u16 \<Rightarrow> bool" where
  "sna16lt i1 i2 \<longleftrightarrow> (i1 < i2 \<and> i2 - i1 < 2 ^ 15) \<or> (i1 > i2 \<and> i1 - i2 > 2 ^ 15)"

definition sna16lte :: "u16 \<Rightarrow> u16 \<Rightarrow> bool" where
  "sna16lte i1 i2 \<longleftrightarrow> i1 = i2 \<or> sna16lt i1 i2"

definition sna16gt :: "u16 \<Rightarrow> u16 \<Rightarrow> bool" where
  "sna16gt i1 i2 \<longleftrightarrow> (i1 < i2 \<and> i2 - i1 \<ge> 2 ^ 15) \<or> (i1 > i2 \<and> i1 - i2 \<le> 2 ^ 15)"

definition sna16gte :: "u16 \<Rightarrow> u16 \<Rightarrow> bool" where
  "sna16gte i1 i2 \<longleftrightarrow> i1 = i2 \<or> sna16gt i1 i2"

section \<open>The contract\<close>

locale serial_number =
  fixes lt lte gt gte :: "'a::len word \<Rightarrow> 'a word \<Rightarrow> bool"
  assumes lt_dist: "lt a b \<longleftrightarrow> 0 < unat (b - a) \<and> unat (b - a) < 2 ^ (LENGTH('a) - 1)"
    and lte_iff: "lte a b \<longleftrightarrow> a = b \<or> lt a b"
    and gt_dist: "gt a b \<longleftrightarrow> 2 ^ (LENGTH('a) - 1) \<le> unat (b - a)"
    and gte_iff: "gte a b \<longleftrightarrow> a = b \<or> gt a b"
begin

lemma lte_dist: "lte a b \<longleftrightarrow> unat (b - a) < 2 ^ (LENGTH('a) - 1)"
  by (cases "a = b") (auto simp: lte_iff lt_dist unat_gt_0)

lemma gt_not_lte: "gt a b \<longleftrightarrow> \<not> lte a b"
  unfolding gt_dist lte_dist by auto

lemma lt_irrefl: "\<not> lt a a"
  by (simp add: lt_dist)

lemma lte_refl: "lte a a"
  by (simp add: lte_dist)

lemma gte_not_lt: "gte a b \<longleftrightarrow> \<not> lt a b"
  unfolding gte_iff gt_not_lte lte_iff using lt_irrefl by auto

lemma dist_flip: "x \<noteq> 0 \<Longrightarrow> unat (- x :: 'a word) = 2 ^ LENGTH('a) - unat x"
  using unat_sub_if' [of 0 x] by (simp add: unat_eq_zero)

lemma half_twice: "2 ^ LENGTH('a) = 2 * (2 ^ (LENGTH('a) - 1) :: nat)"
  by (metis len_not_eq_0 mult.commute not_gr_zero power_minus_mult)

lemma lt_asym: "lt a b \<Longrightarrow> \<not> lt b a"
  using dist_flip [of "b - a"] half_twice by (cases "a = b") (auto simp: lt_dist)

lemma lte_antisym: "lte a b \<Longrightarrow> lte b a \<Longrightarrow> a = b"
  using lt_asym by (auto simp: lte_iff)

lemma lte_trans_window:
  assumes "unat (b - a) + unat (c - b) < 2 ^ (LENGTH('a) - 1)"
  shows "lte a c"
proof -
  have "c - a = (b - a) + (c - b)" by simp
  then have "unat (c - a) \<le> unat (b - a) + unat (c - b)"
    by (metis unat_plus_if' le_refl diff_le_self)
  with assms show ?thesis by (simp add: lte_dist)
qed

lemma lt_step: "lt a b \<Longrightarrow> unat (b - (a + 1)) = unat (b - a) - 1"
  by (metis diff_diff_eq gr_implies_not0 lt_dist unat_minus_one unat_0)

lemma lt_imp_succ_lte: "lt a b \<Longrightarrow> lte (a + 1) b"
  using lt_step [of a b] by (auto simp: lt_dist lte_dist)

text \<open>Inside a window of half the number space the comparison is the order of the
offsets from the start of the window.\<close>

lemma lt_window:
  assumes "unat (x - base) < 2 ^ (LENGTH('a) - 1)" "unat (t - base) < 2 ^ (LENGTH('a) - 1)"
  shows "lt x t \<longleftrightarrow> unat (x - base) < unat (t - base)"
proof -
  have ahead: "lt u v" if "unat (u - base) < unat (v - base)" "unat (v - base) < 2 ^ (LENGTH('a) - 1)" for u v
  proof -
    have "unat ((v - base) - (u - base)) = unat (v - base) - unat (u - base)"
      using that by (intro unat_sub) (simp add: word_le_nat_alt)
    then show ?thesis using that by (simp add: lt_dist)
  qed
  have "x = t" if "unat (x - base) = unat (t - base)"
    using that by (metis diff_add_cancel word_unat_eq_iff)
  then show ?thesis using ahead assms lt_asym lt_irrefl by (metis linorder_neqE_nat)
qed

end

lemma sna32lt_dist: "sna32lt a b \<longleftrightarrow> 0 < unat (b - a) \<and> unat (b - a) < 2 ^ 31"
proof -
  have "unat a < 2 ^ 32" "unat b < 2 ^ 32"
    using unsigned_less [of a] unsigned_less [of b] by simp_all
  then show ?thesis unfolding sna32lt_def by (auto simp: word_less_nat_alt unat_sub_if')
qed

lemma sna32gt_dist: "sna32gt a b \<longleftrightarrow> 2 ^ 31 \<le> unat (b - a)"
proof -
  have "unat a < 2 ^ 32" "unat b < 2 ^ 32"
    using unsigned_less [of a] unsigned_less [of b] by simp_all
  then show ?thesis unfolding sna32gt_def
    by (auto simp: word_less_nat_alt word_le_nat_alt unat_sub_if')
qed

lemma sna16lt_dist: "sna16lt a b \<longleftrightarrow> 0 < unat (b - a) \<and> unat (b - a) < 2 ^ 15"
proof -
  have "unat a < 2 ^ 16" "unat b < 2 ^ 16"
    using unsigned_less [of a] unsigned_less [of b] by simp_all
  then show ?thesis unfolding sna16lt_def by (auto simp: word_less_nat_alt unat_sub_if')
qed

lemma sna16gt_dist: "sna16gt a b \<longleftrightarrow> 2 ^ 15 \<le> unat (b - a)"
proof -
  have "unat a < 2 ^ 16" "unat b < 2 ^ 16"
    using unsigned_less [of a] unsigned_less [of b] by simp_all
  then show ?thesis unfolding sna16gt_def
    by (auto simp: word_less_nat_alt word_le_nat_alt unat_sub_if')
qed

interpretation sna32: serial_number sna32lt sna32lte sna32gt sna32gte
  by unfold_locales (simp_all add: sna32lt_dist sna32gt_dist sna32lte_def sna32gte_def)

interpretation sna16: serial_number sna16lt sna16lte sna16gt sna16gte
  by unfold_locales (simp_all add: sna16lt_dist sna16gt_dist sna16lte_def sna16gte_def)

lemma sna32_succ_lt: "sna32lt a (a + 1)"
  by (simp add: sna32lt_dist)

text \<open>C25. For 32-bit serial numbers the comparisons used by every SCTP queue are
decided by the wrapped distance alone: \<open>sna32lt\<close> holds exactly when the second
number is 1 to 2^31 - 1 steps ahead of the first, \<open>sna32gt\<close> is the exact negation
of \<open>sna32lte\<close> and \<open>sna32gte\<close> of \<open>sna32lt\<close> (also at the distance 2^31 that RFC 1982
leaves undefined), no two numbers precede each other, and all the comparisons
are invariant under adding the same offset to both sides, so that they are
insensitive to TSN wrap-around.\<close>

theorem sna32_serial_order:
  "sna32lt a b = (b - a \<in> {1 .. 2 ^ 31 - 1})
   \<and> sna32gt a b = (\<not> sna32lte a b) \<and> sna32gte a b = (\<not> sna32lt a b)
   \<and> \<not> (sna32lt a b \<and> sna32lt b a)
   \<and> sna32lt (a + d) (b + d) = sna32lt a b \<and> sna32gt (a + d) (b + d) = sna32gt a b"
proof -
  have "sna32lt a b = (b - a \<in> {1 .. 2 ^ 31 - 1})"
    unfolding sna32lt_dist by (auto simp: word_le_nat_alt)
  moreover have "sna32lt (a + d) (b + d) = sna32lt a b" "sna32gt (a + d) (b + d) = sna32gt a b"
    by (simp_all add: sna32lt_dist sna32gt_dist)
  ultimately show ?thesis
    using sna32.gt_not_lte sna32.gte_not_lt sna32.lt_asym by blast
qed

end
