(* ===== verification/Sctp_Pending.thy ===== *)
theory Sctp_Pending
  imports Sctp_Chunk_Codec
begin

text \<open>The queue of chunks waiting for their first transmission
(\<open>rtc-sctp/src/queue/pending_queue.rs\<close>). Unordered chunks overtake ordered ones,
but once the first fragment of a message has been popped its queue stays selected
until the last fragment has left. The theory shows the counters exact, that the
association's peek-then-pop use always makes progress, and that the fragments of
a message leave the queue contiguously.\<close>

section \<open>The queue\<close>

record pending_queue =
  pq_unordered_queue :: "chunk_payload_data list"
  pq_ordered_queue :: "chunk_payload_data list"
  pq_queue_len :: nat
  pq_n_bytes :: nat
  pq_selected :: bool
  pq_unordered_is_selected :: bool

definition pq_new :: pending_queue where
  "pq_new = \<lparr>pq_unordered_queue = [], pq_ordered_queue = [], pq_queue_len = 0, pq_n_bytes = 0,
     pq_selected = False, pq_unordered_is_selected = False\<rparr>"

definition pq_push :: "chunk_payload_data \<Rightarrow> pending_queue \<Rightarrow> pending_queue" where
  "pq_push c q =
    (let q = q\<lparr>pq_n_bytes := pq_n_bytes q + length (pd_user_data c)\<rparr>;
         q = (if pd_unordered c
              then q\<lparr>pq_unordered_queue := pq_unordered_queue q @ [c]\<rparr>
              else q\<lparr>pq_ordered_queue := pq_ordered_queue q @ [c]\<rparr>)
     in q\<lparr>pq_queue_len := pq_queue_len q + 1\<rparr>)"

fun front :: "'a list \<Rightarrow> 'a option" where
  "front [] = None"
| "front (x # _) = Some x"

definition pq_peek :: "pending_queue \<Rightarrow> chunk_payload_data option" where
  "pq_peek q =
    (if pq_selected q
     then (if pq_unordered_is_selected q then front (pq_unordered_queue q) else front (pq_ordered_queue q))
     else case front (pq_unordered_queue q) of
            Some c \<Rightarrow> Some c
          | None \<Rightarrow> front (pq_ordered_queue q))"

text \<open>\<open>pop_front\<close> on the two queues.\<close>

definition pq_pop_unordered :: "pending_queue \<Rightarrow> chunk_payload_data option \<times> pending_queue" where
  "pq_pop_unordered q =
     (front (pq_unordered_queue q), q\<lparr>pq_unordered_queue := tl (pq_unordered_queue q)\<rparr>)"

definition pq_pop_ordered :: "pending_queue \<Rightarrow> chunk_payload_data option \<times> pending_queue" where
  "pq_pop_ordered q =
     (front (pq_ordered_queue q), q\<lparr>pq_ordered_queue := tl (pq_ordered_queue q)\<rparr>)"

definition pq_pop :: "bool \<Rightarrow> bool \<Rightarrow> pending_queue \<Rightarrow> chunk_payload_data option \<times> pending_queue" where
  "pq_pop beginning_fragment unordered q =
    (if \<not> pq_selected q \<and> \<not> beginning_fragment then (None, q)
     else
       let (popped, q) =
         (if pq_selected q then
            let (popped, q) =
              (if pq_unordered_is_selected q then pq_pop_unordered q else pq_pop_ordered q)
            in (case popped of
                  Some p \<Rightarrow> if pd_ending_fragment p then (popped, q\<lparr>pq_selected := False\<rparr>) else (popped, q)
                | None \<Rightarrow> (popped, q))
          else if unordered then
            let (popped, q) = pq_pop_unordered q
            in (case popped of
                  Some p \<Rightarrow>
                    if \<not> pd_ending_fragment p
                    then (popped, q\<lparr>pq_selected := True, pq_unordered_is_selected := True\<rparr>)
                    else (popped, q)
                | None \<Rightarrow> (popped, q))
          else
            let (popped, q) = pq_pop_ordered q
            in (case popped of
                  Some p \<Rightarrow>
                    if \<not> pd_ending_fragment p
                    then (popped, q\<lparr>pq_selected := True, pq_unordered_is_selected := False\<rparr>)
                    else (popped, q)
                | None \<Rightarrow> (popped, q)))
       in case popped of
            Some p \<Rightarrow> (popped, q\<lparr>pq_n_bytes := pq_n_bytes q - length (pd_user_data p),
                               pq_queue_len := pq_queue_len q - 1\<rparr>)
          | None \<Rightarrow> (popped, q))"

definition pq_is_empty :: "pending_queue \<Rightarrow> bool" where
  "pq_is_empty q \<longleftrightarrow> pq_queue_len q = 0"

section \<open>Invariant\<close>

text \<open>A queue that starts at a message boundary (\<open>start\<close>) and ends at one: fragments
of a message follow each other, from the beginning to the ending fragment.\<close>

fun frag_seq :: "bool \<Rightarrow> chunk_payload_data list \<Rightarrow> bool" where
  "frag_seq start [] = start"
| "frag_seq start (c # cs) = (pd_beginning_fragment c = start \<and> frag_seq (pd_ending_fragment c) cs)"

definition data_bytes :: "chunk_payload_data list \<Rightarrow> nat" where
  "data_bytes cs = sum_list (map (\<lambda>c. length (pd_user_data c)) cs)"

definition pq_inv :: "pending_queue \<Rightarrow> bool" where
  "pq_inv q \<longleftrightarrow>
     pq_queue_len q = length (pq_unordered_queue q) + length (pq_ordered_queue q) \<and>
     pq_n_bytes q = data_bytes (pq_unordered_queue q) + data_bytes (pq_ordered_queue q) \<and>
     list_all pd_unordered (pq_unordered_queue q) \<and>
     list_all (\<lambda>c. \<not> pd_unordered c) (pq_ordered_queue q) \<and>
     frag_seq (\<not> (pq_selected q \<and> pq_unordered_is_selected q)) (pq_unordered_queue q) \<and>
     frag_seq (\<not> (pq_selected q \<and> \<not> pq_unordered_is_selected q)) (pq_ordered_queue q)"

lemma data_bytes_simps [simp]:
  "data_bytes [] = 0"
  "data_bytes (c # cs) = length (pd_user_data c) + data_bytes cs"
  "data_bytes (cs @ ds) = data_bytes cs + data_bytes ds"
  by (simp_all add: data_bytes_def)

lemma frag_seq_append: "frag_seq s xs \<Longrightarrow> frag_seq True ys \<Longrightarrow> frag_seq s (xs @ ys)"
  by (induction xs arbitrary: s) auto

lemma front_Some_iff: "front xs = Some x \<longleftrightarrow> (\<exists>ys. xs = x # ys)"
  by (cases xs) auto

lemma front_None_iff [simp]: "front xs = None \<longleftrightarrow> xs = []"
  by (cases xs) auto

lemma pq_inv_new: "pq_inv pq_new"
  by (simp add: pq_inv_def pq_new_def)

text \<open>\<open>send_payload_data\<close> pushes the fragments of one message in a row.\<close>

lemma fold_pq_push_simps:
  assumes "list_all (\<lambda>c. pd_unordered c = u) cs"
  shows "fold pq_push cs q = q\<lparr>
    pq_unordered_queue := pq_unordered_queue q @ (if u then cs else []),
    pq_ordered_queue := pq_ordered_queue q @ (if u then [] else cs),
    pq_queue_len := pq_queue_len q + length cs,
    pq_n_bytes := pq_n_bytes q + data_bytes cs\<rparr>"
  using assms by (induction cs arbitrary: q) (auto simp: pq_push_def Let_def)

lemma pq_inv_push_message:
  assumes "pq_inv q" and "list_all (\<lambda>c. pd_unordered c = u) cs" and "frag_seq True cs"
  shows "pq_inv (fold pq_push cs q)"
  using assms
  by (auto simp: fold_pq_push_simps [OF assms(2)] pq_inv_def frag_seq_append list_all_iff)

section \<open>The contract\<close>

text \<open>What the association's send loop relies on: peeking a non-empty queue finds a
chunk, popping with that chunk's flags removes exactly that chunk, and the counters
follow.\<close>

locale pending_spec =
  fixes inv :: "'q \<Rightarrow> bool" and peek :: "'q \<Rightarrow> chunk_payload_data option"
    and pop :: "bool \<Rightarrow> bool \<Rightarrow> 'q \<Rightarrow> chunk_payload_data option \<times> 'q"
    and len :: "'q \<Rightarrow> nat" and bytes_of :: "'q \<Rightarrow> nat" and mid :: "'q \<Rightarrow> bool"
    and urgent normal :: "'q \<Rightarrow> chunk_payload_data list"
  assumes peek_pop: "inv q \<Longrightarrow> peek q = Some c \<Longrightarrow>
      \<exists>q'. pop (pd_beginning_fragment c) (pd_unordered c) q = (Some c, q') \<and> inv q' \<and>
        len q = Suc (len q') \<and> bytes_of q = length (pd_user_data c) + bytes_of q' \<and>
        pd_beginning_fragment c = (\<not> mid q) \<and> mid q' = (\<not> pd_ending_fragment c) \<and>
        (if pd_unordered c then urgent q = c # urgent q' \<and> normal q' = normal q
         else normal q = c # normal q' \<and> urgent q' = urgent q)"
    and peek_None: "inv q \<Longrightarrow> peek q = None \<longleftrightarrow> len q = 0"
    and empty_bytes: "inv q \<Longrightarrow> len q = 0 \<Longrightarrow> bytes_of q = 0 \<and> \<not> mid q \<and> urgent q = [] \<and> normal q = []"
begin

fun drain :: "nat \<Rightarrow> 'q \<Rightarrow> chunk_payload_data list" where
  "drain 0 q = []"
| "drain (Suc n) q =
    (case peek q of
       None \<Rightarrow> []
     | Some c \<Rightarrow> c # drain n (snd (pop (pd_beginning_fragment c) (pd_unordered c) q)))"

lemma drain_complete:
  "inv q \<Longrightarrow> len q \<le> n \<Longrightarrow>
   length (drain n q) = len q \<and> data_bytes (drain n q) = bytes_of q \<and>
   frag_seq (\<not> mid q) (drain n q) \<and>
   filter pd_unordered (drain n q) = urgent q \<and> filter (\<lambda>c. \<not> pd_unordered c) (drain n q) = normal q"
proof (induction n arbitrary: q)
  case 0
  then show ?case using empty_bytes by auto
next
  case (Suc n)
  show ?case
  proof (cases "peek q")
    case None
    with Suc.prems peek_None [of q] empty_bytes [of q] show ?thesis by simp
  next
    case (Some c)
    obtain q' where q': "pop (pd_beginning_fragment c) (pd_unordered c) q = (Some c, q')" "inv q'"
        "len q = Suc (len q')" "bytes_of q = length (pd_user_data c) + bytes_of q'"
        "pd_beginning_fragment c = (\<not> mid q)" "mid q' = (\<not> pd_ending_fragment c)"
        "if pd_unordered c then urgent q = c # urgent q' \<and> normal q' = normal q
         else normal q = c # normal q' \<and> urgent q' = urgent q"
      using peek_pop [OF Suc.prems(1) Some] by blast
    with Suc.IH [of q'] Suc.prems Some show ?thesis by (auto split: if_splits)
  qed
qed

end

lemma pq_peek_pop:
  assumes "pq_inv q" and "pq_peek q = Some c"
  shows "\<exists>q'. pq_pop (pd_beginning_fragment c) (pd_unordered c) q = (Some c, q') \<and> pq_inv q' \<and>
    pq_queue_len q = Suc (pq_queue_len q') \<and>
    pq_n_bytes q = length (pd_user_data c) + pq_n_bytes q' \<and>
    pd_beginning_fragment c = (\<not> pq_selected q) \<and> pq_selected q' = (\<not> pd_ending_fragment c) \<and>
    (if pd_unordered c
     then pq_unordered_queue q = c # pq_unordered_queue q' \<and> pq_ordered_queue q' = pq_ordered_queue q
     else pq_ordered_queue q = c # pq_ordered_queue q' \<and> pq_unordered_queue q' = pq_unordered_queue q)"
proof (cases "pq_selected q")
  case True
  show ?thesis
  proof (cases "pq_unordered_is_selected q")
    case u: True
    with True assms(2) obtain cs where "pq_unordered_queue q = c # cs"
      by (auto simp: pq_peek_def front_Some_iff)
    with True u assms(1) show ?thesis
      by (auto simp: pq_pop_def pq_pop_unordered_def pq_inv_def)
  next
    case u: False
    with True assms(2) obtain cs where "pq_ordered_queue q = c # cs"
      by (auto simp: pq_peek_def front_Some_iff)
    with True u assms(1) show ?thesis
      by (auto simp: pq_pop_def pq_pop_ordered_def pq_inv_def)
  qed
next
  case False
  show ?thesis
  proof (cases "pq_unordered_queue q")
    case Nil
    with False assms(2) obtain cs where "pq_ordered_queue q = c # cs"
      by (auto simp: pq_peek_def front_Some_iff)
    with False Nil assms(1) show ?thesis
      by (auto simp: pq_pop_def pq_pop_ordered_def pq_inv_def)
  next
    case (Cons d cs)
    with False assms show ?thesis
      by (auto simp: pq_peek_def pq_pop_def pq_pop_unordered_def pq_inv_def)
  qed
qed

lemma pq_peek_None: "pq_inv q \<Longrightarrow> pq_peek q = None \<longleftrightarrow> pq_queue_len q = 0"
  by (auto simp: pq_peek_def pq_inv_def split: option.splits if_splits)

interpretation pending: pending_spec pq_inv pq_peek pq_pop pq_queue_len pq_n_bytes pq_selected
    pq_unordered_queue pq_ordered_queue
proof
  show "pq_inv q \<Longrightarrow> pq_queue_len q = 0 \<Longrightarrow> pq_n_bytes q = 0 \<and> \<not> pq_selected q \<and>
      pq_unordered_queue q = [] \<and> pq_ordered_queue q = []" for q
    by (auto simp: pq_inv_def)
qed (use pq_peek_pop pq_peek_None in blast)+

section \<open>Properties\<close>

text \<open>Draining the queue the way \<open>pop_pending_data_chunks_to_send\<close> does when nothing
limits it: peek, then pop with the flags of the peeked chunk.\<close>

fun pq_drain :: "nat \<Rightarrow> pending_queue \<Rightarrow> chunk_payload_data list" where
  "pq_drain 0 q = []"
| "pq_drain (Suc n) q =
    (case pq_peek q of
       None \<Rightarrow> []
     | Some c \<Rightarrow> c # pq_drain n (snd (pq_pop (pd_beginning_fragment c) (pd_unordered c) q)))"

lemma pq_drain_eq: "pq_drain n q = pending.drain n q"
  by (induction n arbitrary: q) (auto split: option.splits)

text \<open>C6. Starting from a queue built by pushing whole messages, draining it returns
every queued chunk exactly once; the unordered chunks come out in the order they were
pushed and so do the ordered ones; the byte and length counters agree with what is
returned; and the fragments of a message are never interleaved with another message:
the output is a sequence of complete messages (after the rest of a message whose
first fragment had already left).\<close>

theorem pending_drain_no_interleaving:
  assumes "pq_inv q"
  shows "filter pd_unordered (pq_drain (pq_queue_len q) q) = pq_unordered_queue q \<and>
    filter (\<lambda>c. \<not> pd_unordered c) (pq_drain (pq_queue_len q) q) = pq_ordered_queue q \<and>
    frag_seq (\<not> pq_selected q) (pq_drain (pq_queue_len q) q) \<and>
    length (pq_drain (pq_queue_len q) q) = pq_queue_len q \<and>
    data_bytes (pq_drain (pq_queue_len q) q) = pq_n_bytes q"
  using pending.drain_complete [OF assms, of "pq_queue_len q"] by (simp add: pq_drain_eq)

definition frag_sample :: "bool \<Rightarrow> bool \<Rightarrow> bool \<Rightarrow> u8 \<Rightarrow> chunk_payload_data" where
  "frag_sample u b e x = payload_data_default\<lparr>pd_unordered := u, pd_beginning_fragment := b,
     pd_ending_fragment := e, pd_user_data := [x]\<rparr>"

definition pending_sample :: pending_queue where
  "pending_sample = fold pq_push [frag_sample True True True 3]
     (snd (pq_pop True False (fold pq_push [frag_sample False True False 1, frag_sample False False True 2] pq_new)))"

theorem pending_drain_no_interleaving_witness:
  "pq_inv pending_sample \<and> pq_selected pending_sample \<and>
   pq_drain (pq_queue_len pending_sample) pending_sample =
     [frag_sample False False True 2, frag_sample True True True 3] \<and>
   frag_seq (\<not> pq_selected pending_sample) (pq_drain (pq_queue_len pending_sample) pending_sample)"
proof -
  note defs = pending_sample_def frag_sample_def pq_new_def pq_push_def pq_pop_def pq_pop_ordered_def
    pq_pop_unordered_def pq_peek_def payload_data_default_def
  have inv: "pq_inv pending_sample" by (simp add: defs pq_inv_def)
  moreover have "pq_selected pending_sample" by (simp add: defs)
  moreover have "pq_drain (pq_queue_len pending_sample) pending_sample =
     [frag_sample False False True 2, frag_sample True True True 3]"
    by (simp add: defs eval_nat_numeral)
  ultimately show ?thesis using pending_drain_no_interleaving [OF inv] by blast
qed

text \<open>The invariant behind it (exact counters, chunks in the queue of their kind,
message boundaries) holds of the empty queue and is preserved by pushing any complete
message and by every pop that takes the chunk that peek returned.\<close>

theorem pending_invariant:
  "pq_inv pq_new \<and>
   (pq_inv q \<and> list_all (\<lambda>c. pd_unordered c = u) cs \<and> frag_seq True cs \<longrightarrow> pq_inv (fold pq_push cs q)) \<and>
   (pq_inv q \<and> pq_peek q = Some c \<longrightarrow>
     (\<exists>q'. pq_pop (pd_beginning_fragment c) (pd_unordered c) q = (Some c, q') \<and> pq_inv q'))"
  using pq_inv_new pq_inv_push_message pq_peek_pop by blast

theorem pending_invariant_witness:
  "pq_inv (fold pq_push [frag_sample False True False 1, frag_sample False False True 2] pq_new)"
  using pending_invariant [of pq_new False "[frag_sample False True False 1, frag_sample False False True 2]"]
  by (simp add: frag_sample_def payload_data_default_def)

end
