(* ===== verification/Sctp_Payload.thy ===== *)
theory Sctp_Payload
  imports Sctp_Serial Sctp_Pending
begin

text \<open>The TSN-indexed queue (\<open>rtc-sctp/src/queue/payload_queue.rs\<close>) that serves both as
the sender's in-flight queue and as the receiver's queue of chunks beyond the
cumulative TSN. The hash map is an association list with distinct keys; \<open>get_mut\<close>
followed by a mutation is \<open>pl_modify\<close>. The theory shows the queue consistent
(the sorted index lists exactly the keys, in serial order; the byte counter is
exact), that it behaves as a map, and what the gap ack blocks report.\<close>

section \<open>The queue\<close>

record payload_queue =
  pl_chunk_map :: "(u32 \<times> chunk_payload_data) list"
  pl_sorted :: "u32 list"
  pl_dup_tsn :: "u32 list"
  pl_n_bytes :: nat

definition pl_new :: payload_queue where
  "pl_new = \<lparr>pl_chunk_map = [], pl_sorted = [], pl_dup_tsn = [], pl_n_bytes = 0\<rparr>"

definition pl_insert_sorted :: "u32 \<Rightarrow> payload_queue \<Rightarrow> payload_queue" where
  "pl_insert_sorted tsn q =
    (let idx = partition_point (\<lambda>x. sna32lt x tsn) (pl_sorted q)
     in q\<lparr>pl_sorted := insert_at idx tsn (pl_sorted q)\<rparr>)"

definition pl_get :: "u32 \<Rightarrow> payload_queue \<Rightarrow> chunk_payload_data option" where
  "pl_get tsn q = map_of (pl_chunk_map q) tsn"

definition pl_can_push :: "chunk_payload_data \<Rightarrow> u32 \<Rightarrow> payload_queue \<Rightarrow> bool" where
  "pl_can_push p cumulative_tsn q \<longleftrightarrow>
     \<not> (pl_get (pd_tsn p) q \<noteq> None \<or> sna32lte (pd_tsn p) cumulative_tsn)"

definition pl_push_no_check :: "chunk_payload_data \<Rightarrow> payload_queue \<Rightarrow> payload_queue" where
  "pl_push_no_check p q =
    (let q = q\<lparr>pl_n_bytes := pl_n_bytes q + length (pd_user_data p)\<rparr>;
         q = pl_insert_sorted (pd_tsn p) q
     in q\<lparr>pl_chunk_map := AList.update (pd_tsn p) p (pl_chunk_map q)\<rparr>)"

definition pl_push :: "chunk_payload_data \<Rightarrow> u32 \<Rightarrow> payload_queue \<Rightarrow> bool \<times> payload_queue" where
  "pl_push p cumulative_tsn q =
    (if pl_get (pd_tsn p) q \<noteq> None \<or> sna32lte (pd_tsn p) cumulative_tsn
     then (False, q\<lparr>pl_dup_tsn := pl_dup_tsn q @ [pd_tsn p]\<rparr>)
     else (True, pl_push_no_check p q))"

definition pl_pop :: "u32 \<Rightarrow> payload_queue \<Rightarrow> chunk_payload_data option \<times> payload_queue" where
  "pl_pop tsn q =
    (if front (pl_sorted q) = Some tsn then
       let q = q\<lparr>pl_sorted := tl (pl_sorted q)\<rparr> in
       case pl_get tsn q of
         Some c \<Rightarrow> (Some c, q\<lparr>pl_chunk_map := AList.delete tsn (pl_chunk_map q),
                             pl_n_bytes := pl_n_bytes q - length (pd_user_data c)\<rparr>)
       | None \<Rightarrow> (None, q)
     else (None, q))"

definition pl_modify ::
    "u32 \<Rightarrow> (chunk_payload_data \<Rightarrow> chunk_payload_data) \<Rightarrow> payload_queue \<Rightarrow> payload_queue" where
  "pl_modify tsn f q =
    (case pl_get tsn q of
       Some c \<Rightarrow> q\<lparr>pl_chunk_map := AList.update tsn (f c) (pl_chunk_map q)\<rparr>
     | None \<Rightarrow> q)"

definition pl_pop_duplicates :: "payload_queue \<Rightarrow> u32 list \<times> payload_queue" where
  "pl_pop_duplicates q = (pl_dup_tsn q, q\<lparr>pl_dup_tsn := []\<rparr>)"

text \<open>The loop of \<open>get_gap_ack_blocks\<close>: \<open>b\<close> is the block under construction.\<close>

definition gap_diff :: "u32 \<Rightarrow> u32 \<Rightarrow> u16" where
  "gap_diff cumulative_tsn tsn =
     (if tsn \<ge> cumulative_tsn then ucast (tsn - cumulative_tsn) else 0)"

fun gap_blocks_loop :: "u32 \<Rightarrow> gap_ack_block \<Rightarrow> u32 list \<Rightarrow> gap_ack_block list" where
  "gap_blocks_loop cum b [] = [b]"
| "gap_blocks_loop cum b (tsn # rest) =
    (let diff = gap_diff cum tsn in
     if gb_end b + 1 = diff
     then gap_blocks_loop cum (b\<lparr>gb_end := gb_end b + 1\<rparr>) rest
     else b # gap_blocks_loop cum \<lparr>gb_start = diff, gb_end = diff\<rparr> rest)"

definition pl_get_gap_ack_blocks :: "u32 \<Rightarrow> payload_queue \<Rightarrow> gap_ack_block list" where
  "pl_get_gap_ack_blocks cum q =
    (if pl_chunk_map q = [] then []
     else case pl_sorted q of
            [] \<Rightarrow> [\<lparr>gb_start = 0, gb_end = 0\<rparr>]
          | tsn # rest \<Rightarrow>
              gap_blocks_loop cum \<lparr>gb_start = gap_diff cum tsn, gb_end = gap_diff cum tsn\<rparr> rest)"

definition pl_mark_as_acked :: "u32 \<Rightarrow> payload_queue \<Rightarrow> nat \<times> payload_queue" where
  "pl_mark_as_acked tsn q =
    (case pl_get tsn q of
       Some c \<Rightarrow>
         (length (pd_user_data c),
          q\<lparr>pl_chunk_map := AList.update tsn
               (c\<lparr>pd_acked := True, pd_retransmit := False, pd_user_data := []\<rparr>) (pl_chunk_map q),
            pl_n_bytes := pl_n_bytes q - length (pd_user_data c)\<rparr>)
     | None \<Rightarrow> (0, q))"

definition pl_get_last_tsn_received :: "payload_queue \<Rightarrow> u32 option" where
  "pl_get_last_tsn_received q = (if pl_sorted q = [] then None else Some (last (pl_sorted q)))"

definition pl_mark_all_to_retransmit :: "payload_queue \<Rightarrow> payload_queue" where
  "pl_mark_all_to_retransmit q =
     q\<lparr>pl_chunk_map := map (\<lambda>(tsn, c).
         (tsn, if pd_acked c \<or> is_abandoned c then c else c\<lparr>pd_retransmit := True\<rparr>)) (pl_chunk_map q)\<rparr>"

definition pl_len :: "payload_queue \<Rightarrow> nat" where
  "pl_len q = length (pl_chunk_map q)"

definition pl_is_empty :: "payload_queue \<Rightarrow> bool" where
  "pl_is_empty q \<longleftrightarrow> pl_len q = 0"

section \<open>Invariant\<close>

definition pl_bytes :: "payload_queue \<Rightarrow> nat" where
  "pl_bytes q = sum_list (map ((\<lambda>c. length (pd_user_data c)) \<circ> snd) (pl_chunk_map q))"

definition pl_inv :: "payload_queue \<Rightarrow> bool" where
  "pl_inv q \<longleftrightarrow>
     distinct (map fst (pl_chunk_map q)) \<and> distinct (pl_sorted q) \<and>
     set (pl_sorted q) = fst ` set (pl_chunk_map q) \<and>
     (\<forall>(t, c) \<in> set (pl_chunk_map q). pd_tsn c = t) \<and>
     pl_n_bytes q = pl_bytes q"

text \<open>All TSNs lie in the half space that starts at \<open>base\<close>, in serial order.\<close>

definition pl_window :: "u32 \<Rightarrow> payload_queue \<Rightarrow> bool" where
  "pl_window base q \<longleftrightarrow>
     (\<forall>t \<in> set (pl_sorted q). unat (t - base) < 2 ^ 31) \<and>
     sorted_wrt (\<lambda>x y. unat (x - base) < unat (y - base)) (pl_sorted q)"

lemma pl_inv_get_iff: "pl_inv q \<Longrightarrow> pl_get t q \<noteq> None \<longleftrightarrow> t \<in> set (pl_sorted q)"
  by (auto simp: pl_inv_def pl_get_def map_of_eq_None_iff)

lemma pl_inv_get_tsn: "pl_inv q \<Longrightarrow> pl_get t q = Some c \<Longrightarrow> pd_tsn c = t"
  by (auto simp: pl_inv_def pl_get_def dest!: map_of_SomeD)

lemma pl_inv_len: "pl_inv q \<Longrightarrow> pl_len q = length (pl_sorted q)"
  using distinct_card [of "pl_sorted q"] distinct_card [of "map fst (pl_chunk_map q)"]
  by (simp add: pl_inv_def pl_len_def)

lemma pl_inv_new: "pl_inv pl_new" "pl_window b pl_new"
  by (simp_all add: pl_inv_def pl_new_def pl_bytes_def pl_window_def)

lemma sorted_wrt_split:
  assumes "sorted_wrt (\<lambda>x y. f x < (f y :: nat)) xs" and "\<forall>x\<in>set xs. P x \<longleftrightarrow> f x < f t" and "t \<notin> set xs"
    and "\<forall>x\<in>set xs. f x = f t \<longrightarrow> x = t"
  shows "sorted_wrt (\<lambda>x y. f x < f y) (takeWhile P xs @ t # dropWhile P xs)"
  using assms
proof (induction xs)
  case (Cons x xs)
  show ?case
  proof (cases "P x")
    case True
    with Cons have "sorted_wrt (\<lambda>x y. f x < f y) (takeWhile P xs @ t # dropWhile P xs)" by auto
    moreover have "f x < f y" if "y \<in> set (takeWhile P xs @ t # dropWhile P xs)" for y
      using that Cons.prems True by (auto dest: set_takeWhileD set_dropWhileD)
    ultimately show ?thesis using True by auto
  next
    case False
    then have "f t < f x" using Cons.prems by fastforce
    with False Cons.prems show ?thesis by auto
  qed
qed simp

lemma pl_insert_window:
  assumes "pl_window base q" and "unat (t - base) < 2 ^ 31" and "t \<notin> set (pl_sorted q)"
  shows "pl_window base (pl_insert_sorted t q)"
proof -
  have lt: "\<forall>x\<in>set (pl_sorted q). sna32lt x t \<longleftrightarrow> unat (x - base) < unat (t - base)"
    using assms by (auto simp: pl_window_def sna32.lt_window)
  have eq: "\<forall>x\<in>set (pl_sorted q). unat (x - base) = unat (t - base) \<longrightarrow> x = t"
    by (metis diff_add_cancel word_unat_eq_iff)
  have "sorted_wrt (\<lambda>x y. unat (x - base) < unat (y - base))
      (takeWhile (\<lambda>x. sna32lt x t) (pl_sorted q) @ t # dropWhile (\<lambda>x. sna32lt x t) (pl_sorted q))"
    using sorted_wrt_split [of "\<lambda>x. unat (x - base)", OF _ lt assms(3) eq] assms(1)
    by (simp add: pl_window_def)
  then show ?thesis
    using assms by (auto simp: pl_window_def pl_insert_sorted_def Let_def insert_at_partition_point
        dest: set_takeWhileD set_dropWhileD)
qed

lemma pl_push_no_check_inv:
  assumes "pl_inv q" and "pl_get (pd_tsn p) q = None"
  shows "pl_inv (pl_push_no_check p q)"
proof -
  have "pd_tsn p \<notin> fst ` set (pl_chunk_map q)" "pd_tsn p \<notin> set (pl_sorted q)"
    using assms by (auto simp: pl_get_def map_of_eq_None_iff pl_inv_def)
  moreover have "(t, c) \<in> set (AList.update (pd_tsn p) p (pl_chunk_map q)) \<Longrightarrow> pd_tsn c = t" for t c
    using assms(1) by (auto simp: pl_inv_def dest!: set_update_cases)
  ultimately show ?thesis
    using assms(1)
    by (auto simp: pl_inv_def pl_push_no_check_def pl_insert_sorted_def Let_def pl_bytes_def
        distinct_update sum_list_map_update_other)
qed

lemma pl_push_no_check_get:
  "pl_get t (pl_push_no_check p q) = (if t = pd_tsn p then Some p else pl_get t q)"
  by (simp add: pl_get_def pl_push_no_check_def pl_insert_sorted_def Let_def update_conv')

lemma pl_push_no_check_window:
  assumes "pl_inv q" "pl_window base q" "pl_get (pd_tsn p) q = None" "unat (pd_tsn p - base) < 2 ^ 31"
  shows "pl_window base (pl_push_no_check p q)"
proof -
  have "pd_tsn p \<notin> set (pl_sorted q)" using pl_inv_get_iff [OF assms(1)] assms(3) by blast
  then have "pl_window base (pl_insert_sorted (pd_tsn p) (q\<lparr>pl_n_bytes := n\<rparr>))" for n
    using assms(2,4) by (intro pl_insert_window) (simp_all add: pl_window_def)
  then show ?thesis by (simp add: pl_push_no_check_def Let_def pl_window_def)
qed

text \<open>A TSN that \<open>can_push\<close> lets through lies in the half space behind the cumulative TSN.\<close>

lemma not_lte_window:
  assumes "\<not> sna32lte t cum"
  shows "unat (t - (cum + 1)) < 2 ^ 31"
proof -
  let ?d = "cum - t"
  have ge: "2 ^ 31 \<le> unat ?d" using assms by (simp add: sna32.lte_dist)
  then have ne: "?d \<noteq> 0" by auto
  have "unat (t - cum) = 2 ^ 32 - unat ?d" using sna32.dist_flip [OF ne] by simp
  moreover have "unat ?d < 2 ^ 32" using unsigned_less [of ?d] by simp
  moreover have "t - cum \<noteq> 0" using ne by auto
  then have "unat (t - cum - 1) = unat (t - cum) - 1" by (rule unat_minus_one)
  ultimately show ?thesis using ge by (simp add: diff_diff_eq)
qed

lemma pl_pop_front:
  assumes "pl_inv q" and "front (pl_sorted q) = Some t"
  obtains c q' where "pl_get t q = Some c" "pl_pop t q = (Some c, q')" "pl_inv q'"
    "pl_sorted q = t # pl_sorted q'" "pl_n_bytes q = length (pd_user_data c) + pl_n_bytes q'"
    "\<And>u. pl_get u q' = (if u = t then None else pl_get u q)" "pl_dup_tsn q' = pl_dup_tsn q"
proof -
  obtain ts where ts: "pl_sorted q = t # ts" using assms(2) by (auto simp: front_Some_iff)
  then obtain c where c: "pl_get t q = Some c" using pl_inv_get_iff [OF assms(1), of t] by auto
  let ?m = "pl_chunk_map q"
  let ?q = "q\<lparr>pl_sorted := ts, pl_chunk_map := AList.delete t ?m,
      pl_n_bytes := pl_n_bytes q - length (pd_user_data c)\<rparr>"
  have pop: "pl_pop t q = (Some c, ?q)"
    using ts c by (simp add: pl_pop_def pl_get_def)
  have bytes: "pl_bytes q = length (pd_user_data c) + pl_bytes ?q"
    using assms(1) c sum_list_map_delete [of ?m t c "\<lambda>c. length (pd_user_data c)"]
    by (simp add: pl_inv_def pl_get_def pl_bytes_def)
  have "pl_inv ?q"
    using assms(1) ts bytes set_delete_subset [of t ?m]
    by (auto simp: pl_inv_def pl_bytes_def distinct_delete)
  moreover have "pl_n_bytes q = length (pd_user_data c) + pl_n_bytes ?q"
    using bytes assms(1) by (simp add: pl_inv_def)
  ultimately show thesis
    using that [OF c pop] ts by (simp add: pl_get_def delete_conv')
qed

lemma pl_pop_not_front:
  "front (pl_sorted q) \<noteq> Some t \<Longrightarrow> pl_pop t q = (None, q)"
  by (simp add: pl_pop_def)

lemma pl_window_tl:
  assumes "pl_window base q" "pl_sorted q = t # pl_sorted q'"
  shows "pl_window base q'" "\<forall>u\<in>set (pl_sorted q'). unat (t - base) < unat (u - base)"
  using assms by (simp_all add: pl_window_def)

text \<open>The window can move up to the first TSN still queued.\<close>

lemma pl_window_shift:
  assumes "pl_window base q" "\<forall>t\<in>set (pl_sorted q). unat d \<le> unat (t - base)"
  shows "pl_window (base + d) q"
proof -
  have sub: "unat (t - (base + d)) = unat (t - base) - unat d" if "t \<in> set (pl_sorted q)" for t
    using assms(2) that unat_sub [of d "t - base"] by (simp add: word_le_nat_alt algebra_simps)
  have "sorted_wrt (\<lambda>x y. unat (x - (base + d)) < unat (y - (base + d))) (pl_sorted q)"
    using assms sub unfolding pl_window_def
    by (auto intro: sorted_wrt_mono_rel [rotated] simp: diff_less_mono)
  with assms sub show ?thesis by (auto simp: pl_window_def less_imp_diff_less)
qed

lemma pl_modify_get:
  "pl_get u (pl_modify t f q) = (if u = t then map_option f (pl_get t q) else pl_get u q)"
  by (auto simp: pl_modify_def pl_get_def update_conv' split: option.splits)

lemma pl_modify_inv:
  assumes "pl_inv q"
    and "\<And>c. pl_get t q = Some c \<Longrightarrow>
      pd_tsn (f c) = pd_tsn c \<and> length (pd_user_data (f c)) = length (pd_user_data c)"
  shows "pl_inv (pl_modify t f q)"
proof (cases "pl_get t q")
  case (Some c)
  let ?m = "pl_chunk_map q"
  have c: "map_of ?m t = Some c" "pd_tsn c = t" "t \<in> fst ` set ?m"
    using Some pl_inv_get_tsn [OF assms(1)] by (auto simp: pl_get_def dest: map_of_SomeD intro: rev_image_eqI)
  have "sum_list (map ((\<lambda>c. length (pd_user_data c)) \<circ> snd) (AList.update t (f c) ?m)) = pl_bytes q"
    using sum_list_map_update_same [of ?m t c "\<lambda>c. length (pd_user_data c)" "f c"] assms c Some
    by (simp add: pl_inv_def pl_bytes_def)
  with assms(1) assms(2) [OF Some] c Some show ?thesis
    by (auto simp: pl_modify_def pl_inv_def pl_bytes_def distinct_update dest!: set_update_cases)
qed (simp add: pl_modify_def assms)

lemma pl_modify_sorted [simp]:
  "pl_sorted (pl_modify t f q) = pl_sorted q" "pl_n_bytes (pl_modify t f q) = pl_n_bytes q"
  "pl_dup_tsn (pl_modify t f q) = pl_dup_tsn q"
  by (simp_all add: pl_modify_def split: option.split)

lemma pl_mark_as_acked_Some:
  assumes "pl_inv q" and "pl_get t q = Some c"
  obtains q' where "pl_mark_as_acked t q = (length (pd_user_data c), q')" "pl_inv q'"
    "pl_sorted q' = pl_sorted q" "pl_n_bytes q = length (pd_user_data c) + pl_n_bytes q'"
    "\<And>u. pl_get u q' = (if u = t then Some (c\<lparr>pd_acked := True, pd_retransmit := False, pd_user_data := []\<rparr>)
       else pl_get u q)"
proof -
  let ?m = "pl_chunk_map q"
  let ?c = "c\<lparr>pd_acked := True, pd_retransmit := False, pd_user_data := []\<rparr>"
  let ?q = "q\<lparr>pl_chunk_map := AList.update t ?c ?m, pl_n_bytes := pl_n_bytes q - length (pd_user_data c)\<rparr>"
  have c: "map_of ?m t = Some c" "pd_tsn c = t" "t \<in> fst ` set ?m"
    using assms pl_inv_get_tsn [OF assms(1)] by (auto simp: pl_get_def dest: map_of_SomeD intro: rev_image_eqI)
  have bytes: "pl_bytes q = length (pd_user_data c) + pl_bytes ?q"
    using sum_list_map_update_same [of ?m t c "\<lambda>c. length (pd_user_data c)" ?c] assms c
    by (simp add: pl_inv_def pl_bytes_def)
  have "pl_inv ?q"
    using assms c bytes
    by (auto simp: pl_inv_def pl_bytes_def distinct_update dest!: set_update_cases)
  moreover have "pl_mark_as_acked t q = (length (pd_user_data c), ?q)"
    using assms(2) by (simp add: pl_mark_as_acked_def)
  moreover have "pl_n_bytes q = length (pd_user_data c) + pl_n_bytes ?q"
    using bytes assms(1) by (simp add: pl_inv_def)
  moreover have "\<And>u. pl_get u ?q = (if u = t then Some ?c else pl_get u q)"
    by (simp add: pl_get_def update_conv')
  ultimately show thesis by (intro that [of ?q]) simp_all
qed

lemma pl_mark_all_get:
  "pl_get u (pl_mark_all_to_retransmit q) =
     map_option (\<lambda>c. if pd_acked c \<or> is_abandoned c then c else c\<lparr>pd_retransmit := True\<rparr>) (pl_get u q)"
  by (simp add: pl_get_def pl_mark_all_to_retransmit_def map_of_map)

lemma pl_mark_all_inv: "pl_inv q \<Longrightarrow> pl_inv (pl_mark_all_to_retransmit q)"
proof -
  assume inv: "pl_inv q"
  let ?f = "\<lambda>(tsn :: u32, c). (tsn, if pd_acked c \<or> is_abandoned c then c else c\<lparr>pd_retransmit := True\<rparr>)"
  have f: "fst \<circ> ?f = fst" "(\<lambda>c. length (pd_user_data c)) \<circ> snd \<circ> ?f = (\<lambda>c. length (pd_user_data c)) \<circ> snd"
    by (auto simp: fun_eq_iff)
  have "fst ` ?f ` set (pl_chunk_map q) = fst ` set (pl_chunk_map q)"
    by (simp only: image_comp f)
  with inv show ?thesis
    by (auto simp: pl_inv_def pl_mark_all_to_retransmit_def pl_bytes_def f)
qed

section \<open>The contract\<close>

text \<open>What the association uses of its queues: a map from TSNs to chunks from which only
the oldest chunk can be removed.\<close>

locale tsn_store =
  fixes inv :: "'q \<Rightarrow> bool" and get :: "u32 \<Rightarrow> 'q \<Rightarrow> chunk_payload_data option"
    and push :: "chunk_payload_data \<Rightarrow> 'q \<Rightarrow> 'q"
    and pop :: "u32 \<Rightarrow> 'q \<Rightarrow> chunk_payload_data option \<times> 'q"
    and size_of :: "'q \<Rightarrow> nat" and bytes_of :: "'q \<Rightarrow> nat"
  assumes push_inv: "inv q \<Longrightarrow> get (pd_tsn p) q = None \<Longrightarrow> inv (push p q)"
    and push_get: "get t (push p q) = (if t = pd_tsn p then Some p else get t q)"
    and push_size: "inv q \<Longrightarrow> get (pd_tsn p) q = None \<Longrightarrow> size_of (push p q) = Suc (size_of q)"
    and push_bytes: "bytes_of (push p q) = bytes_of q + length (pd_user_data p)"
    and pop_Some: "inv q \<Longrightarrow> pop t q = (Some c, q') \<Longrightarrow> get t q = Some c \<and> inv q' \<and>
      (\<forall>u. get u q' = (if u = t then None else get u q)) \<and> size_of q = Suc (size_of q') \<and>
      bytes_of q = length (pd_user_data c) + bytes_of q'"
    and pop_None: "inv q \<Longrightarrow> pop t q = (None, q') \<Longrightarrow> q' = q"
begin

text \<open>Popping consecutive TSNs while that succeeds.\<close>

fun pop_run :: "nat \<Rightarrow> u32 \<Rightarrow> 'q \<Rightarrow> u32 \<times> 'q" where
  "pop_run 0 t q = (t, q)"
| "pop_run (Suc n) t q =
    (case pop (t + 1) q of (Some c, q') \<Rightarrow> pop_run n (t + 1) q' | (None, q') \<Rightarrow> (t, q'))"

lemma pop_run_spec:
  assumes "inv q" and "pop_run n t q = (t', q')"
  shows "\<exists>k. t' = t + of_nat k \<and> k \<le> n \<and> inv q' \<and> size_of q = k + size_of q' \<and>
    (\<forall>i<k. get (t + of_nat (Suc i)) q \<noteq> None)"
  using assms
proof (induction n arbitrary: t q)
  case (Suc n)
  show ?case
  proof (cases "fst (pop (t + 1) q)")
    case None
    then have "q' = q" "t' = t" using Suc.prems pop_None [of q "t + 1"] by (auto split: prod.splits option.splits)
    then show ?thesis using Suc.prems by (intro exI [of _ 0]) simp
  next
    case (Some c)
    then obtain q1 where q1: "pop (t + 1) q = (Some c, q1)" by (metis prod.collapse)
    note p = pop_Some [OF Suc.prems(1) q1]
    obtain k where k: "t' = t + 1 + of_nat k" "k \<le> n" "inv q'" "size_of q1 = k + size_of q'"
        "\<forall>i<k. get (t + 1 + of_nat (Suc i)) q1 \<noteq> None"
      using Suc.IH [of q1 "t + 1"] Suc.prems q1 p by auto
    have "get (t + of_nat (Suc i)) q \<noteq> None" if "i < Suc k" for i
    proof (cases i)
      case (Suc j)
      then have "get (t + 1 + of_nat (Suc j)) q1 \<noteq> None" using k(5) that by simp
      then show ?thesis using p Suc by (auto simp: add.assoc split: if_splits)
    qed (use p in simp)
    with k p show ?thesis by (intro exI [of _ "Suc k"]) (simp add: add.assoc)
  qed
qed simp

end

lemma pl_pop_Some:
  assumes "pl_inv q" "pl_pop t q = (Some c, q')"
  shows "pl_get t q = Some c \<and> pl_inv q' \<and> (\<forall>u. pl_get u q' = (if u = t then None else pl_get u q)) \<and>
    pl_len q = Suc (pl_len q') \<and> pl_n_bytes q = length (pd_user_data c) + pl_n_bytes q' \<and>
    pl_sorted q = t # pl_sorted q'"
proof -
  have f: "front (pl_sorted q) = Some t"
    using assms(2) pl_pop_not_front [of q t] by fastforce
  show ?thesis
  proof (rule pl_pop_front [OF assms(1) f])
    fix d q1
    assume "pl_get t q = Some d" "pl_pop t q = (Some d, q1)" "pl_inv q1" "pl_sorted q = t # pl_sorted q1"
      "pl_n_bytes q = length (pd_user_data d) + pl_n_bytes q1"
      "\<And>u. pl_get u q1 = (if u = t then None else pl_get u q)" "pl_dup_tsn q1 = pl_dup_tsn q"
    then show ?thesis using assms pl_inv_len [of q] pl_inv_len [of q1] by auto
  qed
qed

lemma pl_pop_None:
  assumes "pl_inv q" "pl_pop t q = (None, q')"
  shows "q' = q \<and> front (pl_sorted q) \<noteq> Some t"
proof (cases "front (pl_sorted q) = Some t")
  case True
  obtain c q1 where "pl_pop t q = (Some c, q1)" by (rule pl_pop_front [OF assms(1) True])
  with assms(2) show ?thesis by simp
qed (use assms pl_pop_not_front [of q t] in auto)

lemma pl_push_no_check_len:
  assumes "pl_inv q" "pl_get (pd_tsn p) q = None"
  shows "pl_len (pl_push_no_check p q) = Suc (pl_len q)"
proof -
  have "length (pl_sorted (pl_push_no_check p q)) = Suc (length (pl_sorted q))"
    by (simp add: pl_push_no_check_def pl_insert_sorted_def Let_def)
  then show ?thesis
    using pl_inv_len [OF assms(1)] pl_inv_len [OF pl_push_no_check_inv [OF assms]] by simp
qed

interpretation tsnq: tsn_store pl_inv pl_get pl_push_no_check pl_pop pl_len pl_n_bytes
proof
  show "pl_n_bytes (pl_push_no_check p q) = pl_n_bytes q + length (pd_user_data p)" for p q
    by (simp add: pl_push_no_check_def pl_insert_sorted_def Let_def)
qed (use pl_push_no_check_inv pl_push_no_check_get pl_push_no_check_len pl_pop_Some pl_pop_None in blast)+

section \<open>Gap ack blocks\<close>

lemma unat_bound: "unat (w :: u16) < 65536"
  using unsigned_less [of w] by simp

text \<open>The offsets a list of blocks stands for: the sender acknowledges
\<open>cumulative_tsn + i\<close> for every \<open>i\<close> from \<open>start\<close> to \<open>end\<close>.\<close>

definition block_offsets :: "gap_ack_block list \<Rightarrow> nat set" where
  "block_offsets bs = (\<Union>b\<in>set bs. {unat (gb_start b) .. unat (gb_end b)})"

definition blocks_ok :: "gap_ack_block list \<Rightarrow> bool" where
  "blocks_ok bs \<longleftrightarrow> (\<forall>b\<in>set bs. gb_start b \<le> gb_end b) \<and>
     sorted_wrt (\<lambda>x y. unat (gb_end x) + 1 < unat (gb_start y)) bs"

lemma gap_blocks_loop_spec:
  assumes "gb_start b \<le> gb_end b"
    and "\<forall>t\<in>set ts. unat (gb_end b) < unat (gap_diff cum t)"
    and "sorted_wrt (\<lambda>x y. unat (gap_diff cum x) < unat (gap_diff cum y)) ts"
  shows "block_offsets (gap_blocks_loop cum b ts) =
      {unat (gb_start b) .. unat (gb_end b)} \<union> (\<lambda>t. unat (gap_diff cum t)) ` set ts"
    and "blocks_ok (gap_blocks_loop cum b ts)"
    and "\<forall>x\<in>set (gap_blocks_loop cum b ts). unat (gb_start b) \<le> unat (gb_start x)"
  using assms
proof (induction ts arbitrary: b)
  case Nil
  {
    case 1 then show ?case by (simp add: block_offsets_def)
  next
    case 2 then show ?case by (simp add: blocks_ok_def)
  next
    case 3 then show ?case by simp
  }
next
  case (Cons t ts)
  let ?d = "gap_diff cum t"
  have step: "block_offsets (gap_blocks_loop cum b (t # ts)) =
      {unat (gb_start b) .. unat (gb_end b)} \<union> (\<lambda>t. unat (gap_diff cum t)) ` set (t # ts) \<and>
    blocks_ok (gap_blocks_loop cum b (t # ts)) \<and>
    (\<forall>x\<in>set (gap_blocks_loop cum b (t # ts)). unat (gb_start b) \<le> unat (gb_start x))"
    if pr: "gb_start b \<le> gb_end b" "\<forall>t\<in>set (t # ts). unat (gb_end b) < unat (gap_diff cum t)"
      "sorted_wrt (\<lambda>x y. unat (gap_diff cum x) < unat (gap_diff cum y)) (t # ts)" for b
  proof (cases "gb_end b + 1 = ?d")
    case True
    have "unat (gb_end b) < unat ?d" using pr by simp
    then have "unat (gb_end b) + 1 < 65536" using unat_bound [of ?d] by simp
    then have d: "unat (gb_end b + 1) = unat (gb_end b) + 1"
      by (simp add: unat_word_ariths)
    let ?b = "b\<lparr>gb_end := gb_end b + 1\<rparr>"
    have le: "gb_start ?b \<le> gb_end ?b" using pr(1) d by (simp add: word_le_nat_alt)
    have gt: "\<forall>u\<in>set ts. unat (gb_end ?b) < unat (gap_diff cum u)" using pr(3) True by simp
    have so: "sorted_wrt (\<lambda>x y. unat (gap_diff cum x) < unat (gap_diff cum y)) ts" using pr(3) by simp
    have "{unat (gb_start b) .. unat (gb_end b) + 1} = insert (unat ?d) {unat (gb_start b) .. unat (gb_end b)}"
      using d True pr(1) by (auto simp: word_le_nat_alt)
    then show ?thesis using Cons.IH [OF le gt so] True d by auto
  next
    case False
    let ?b = "\<lparr>gb_start = ?d, gb_end = ?d\<rparr>"
    have lt: "unat (gb_end b) < unat ?d" using pr by simp
    have far: "unat (gb_end b) + 1 < unat ?d"
    proof (rule ccontr)
      assume "\<not> ?thesis"
      with lt have "unat ?d = unat (gb_end b) + 1" by simp
      moreover have "unat (gb_end b + 1) = unat (gb_end b) + 1"
        using calculation unat_bound [of ?d] by (simp add: unat_word_ariths)
      ultimately show False using False by (metis word_unat_eq_iff)
    qed
    have gt: "\<forall>u\<in>set ts. unat (gb_end ?b) < unat (gap_diff cum u)" using pr(3) by simp
    have so: "sorted_wrt (\<lambda>x y. unat (gap_diff cum x) < unat (gap_diff cum y)) ts" using pr(3) by simp
    note IH = Cons.IH [of ?b, OF _ gt so]
    have rest: "gap_blocks_loop cum b (t # ts) = b # gap_blocks_loop cum ?b ts"
      using False by (simp add: Let_def)
    have "block_offsets (b # bs) = {unat (gb_start b) .. unat (gb_end b)} \<union> block_offsets bs" for bs
      by (simp add: block_offsets_def)
    moreover have "unat (gb_start b) \<le> unat (gb_end b)" using pr(1) by (simp add: word_le_nat_alt)
    moreover have "blocks_ok (b # gap_blocks_loop cum ?b ts)"
      using IH(2,3) pr(1) far by (auto simp: blocks_ok_def)
    ultimately show ?thesis using IH(1,3) far unfolding rest by auto
  qed
  {
    case 1 then show ?case using step by blast
  next
    case 2 then show ?case using step by blast
  next
    case 3 then show ?case using step by blast
  }
qed

lemma gap_diff_exact:
  assumes "cum < t" "unat (t - cum) < 65536"
  shows "unat (gap_diff cum t) = unat (t - cum)" "cum + of_nat (unat (gap_diff cum t)) = t"
proof -
  show eq: "unat (gap_diff cum t) = unat (t - cum)"
    using assms by (simp add: gap_diff_def less_imp_le unsigned_ucast_eq take_bit_nat_eq_self)
  show "cum + of_nat (unat (gap_diff cum t)) = t" unfolding eq by simp
qed

section \<open>Properties\<close>

text \<open>C5. The gap ack blocks of a SACK tell the truth: while the TSN space does not wrap
between the cumulative TSN and the newest queued chunk, and the chunks are within the
reach of a 16-bit offset, the TSNs that a sender reads off the blocks are exactly the
TSNs in the receive queue; the blocks are ascending, non-empty ranges and no two of
them touch.\<close>

theorem gap_ack_blocks_exact:
  assumes "pl_inv q" and "pl_window (cum + 1) q"
    and "\<forall>t\<in>set (pl_sorted q). cum < t \<and> unat (t - cum) < 65536"
  shows "(\<lambda>k. cum + of_nat k) ` block_offsets (pl_get_gap_ack_blocks cum q) = set (pl_sorted q) \<and>
    blocks_ok (pl_get_gap_ack_blocks cum q)"
proof (cases "pl_sorted q")
  case Nil
  then have "pl_chunk_map q = []" using assms(1) by (auto simp: pl_inv_def)
  with Nil show ?thesis by (simp add: pl_get_gap_ack_blocks_def block_offsets_def blocks_ok_def)
next
  case (Cons t ts)
  let ?b = "\<lparr>gb_start = gap_diff cum t, gb_end = gap_diff cum t\<rparr>"
  have ne: "pl_chunk_map q \<noteq> []" using Cons assms(1) by (auto simp: pl_inv_def)
  have diff: "unat (gap_diff cum x) = unat (x - (cum + 1)) + 1" if "x \<in> set (pl_sorted q)" for x
  proof -
    have x: "cum < x" "unat (x - cum) < 65536" using assms(3) that by auto
    then have "x - cum \<noteq> 0" by auto
    then have "unat (x - cum - 1) = unat (x - cum) - 1" "0 < unat (x - cum)"
      by (simp_all add: unat_minus_one unat_gt_0)
    then show ?thesis using gap_diff_exact(1) [OF x] by (simp add: diff_diff_eq)
  qed
  have "sorted_wrt (\<lambda>x y. unat (x - (cum + 1)) < unat (y - (cum + 1))) (t # ts)"
    using assms(2) Cons by (simp add: pl_window_def)
  then have so: "sorted_wrt (\<lambda>x y. unat (gap_diff cum x) < unat (gap_diff cum y)) (t # ts)"
    by (rule sorted_wrt_mono_rel [rotated]) (use diff Cons in simp)
  have blocks: "pl_get_gap_ack_blocks cum q = gap_blocks_loop cum ?b ts"
    using ne Cons by (simp add: pl_get_gap_ack_blocks_def)
  have gt: "\<forall>u\<in>set ts. unat (gb_end ?b) < unat (gap_diff cum u)" using so by simp
  note spec = gap_blocks_loop_spec [of ?b ts cum, OF _ gt]
  have "block_offsets (pl_get_gap_ack_blocks cum q) = (\<lambda>t. unat (gap_diff cum t)) ` set (t # ts)"
    using spec(1) so unfolding blocks by simp
  moreover have "(\<lambda>t. cum + of_nat (unat (gap_diff cum t))) ` set (t # ts) = (\<lambda>t. t) ` set (t # ts)"
    using gap_diff_exact(2) assms(3) Cons by (intro image_cong) auto
  then have "(\<lambda>k. cum + of_nat k) ` (\<lambda>t. unat (gap_diff cum t)) ` set (t # ts) = set (t # ts)"
    unfolding image_image by (simp only: image_ident)
  ultimately show ?thesis using spec(2) so Cons blocks by simp
qed

definition payload_sample :: payload_queue where
  "payload_sample = pl_push_no_check (payload_data_default\<lparr>pd_tsn := 12\<rparr>)
    (pl_push_no_check (payload_data_default\<lparr>pd_tsn := 15\<rparr>)
    (pl_push_no_check (payload_data_default\<lparr>pd_tsn := 13\<rparr>) pl_new))"

lemma payload_sample_eval:
  "pl_sorted payload_sample = [12, 13, 15]"
  "pl_inv payload_sample" "pl_window 11 payload_sample"
proof -
  note defs = payload_sample_def pl_push_no_check_def pl_insert_sorted_def pl_new_def
    payload_data_default_def insert_at_def partition_point_def sna32lt_def
  show sorted: "pl_sorted payload_sample = [12, 13, 15]" by (simp add: defs)
  show "pl_inv payload_sample" by (auto simp: defs pl_inv_def pl_bytes_def)
  show "pl_window 11 payload_sample" by (simp add: sorted pl_window_def)
qed

theorem gap_ack_blocks_exact_witness:
  "(\<lambda>k. 10 + of_nat k) ` block_offsets (pl_get_gap_ack_blocks 10 payload_sample) = {12, 13, 15 :: u32} \<and>
   blocks_ok (pl_get_gap_ack_blocks 10 payload_sample)"
  using gap_ack_blocks_exact [of payload_sample 10] by (simp add: payload_sample_eval)

text \<open>C26. Across the wrap of the TSN space the report is wrong: \<open>get_gap_ack_blocks\<close>
compares TSNs as plain integers, so a chunk whose TSN is numerically below the
cumulative TSN (it is ahead of it in serial order, for example TSN 0 after
0xFFFFFFFE) is reported as the block 0-0, which names the cumulative TSN itself and
not the chunk.\<close>

theorem gap_ack_blocks_wrong_at_wrap:
  assumes "pd_tsn p < cum"
  shows "pl_get_gap_ack_blocks cum (pl_push_no_check p pl_new) = [\<lparr>gb_start = 0, gb_end = 0\<rparr>] \<and>
    (\<lambda>k. cum + of_nat k) ` block_offsets (pl_get_gap_ack_blocks cum (pl_push_no_check p pl_new)) = {cum}"
proof -
  have "gap_diff cum (pd_tsn p) = 0" using assms by (auto simp: gap_diff_def)
  then show ?thesis
    by (simp add: pl_get_gap_ack_blocks_def pl_push_no_check_def pl_insert_sorted_def pl_new_def
        insert_at_def block_offsets_def)
qed

theorem gap_ack_blocks_wrong_at_wrap_witness:
  "pl_can_push (payload_data_default\<lparr>pd_tsn := 0\<rparr>) 0xFFFFFFFE pl_new \<and>
   pl_get_gap_ack_blocks 0xFFFFFFFE (pl_push_no_check (payload_data_default\<lparr>pd_tsn := 0\<rparr>) pl_new) =
     [\<lparr>gb_start = 0, gb_end = 0\<rparr>]"
  using gap_ack_blocks_wrong_at_wrap [of "payload_data_default\<lparr>pd_tsn := 0\<rparr>" "0xFFFFFFFE"]
  by (simp add: payload_data_default_def pl_can_push_def pl_get_def pl_new_def sna32lte_def sna32lt_def)

text \<open>The oldest TSN of the queue.\<close>

definition pl_oldest :: "u32 \<Rightarrow> u32 \<Rightarrow> payload_queue \<Rightarrow> bool" where
  "pl_oldest base t q \<longleftrightarrow> pl_get t q \<noteq> None \<and> (\<forall>u. pl_get u q \<noteq> None \<longrightarrow> unat (t - base) \<le> unat (u - base))"

lemma pl_oldest_front:
  assumes "pl_inv q" "pl_window base q"
  shows "pl_oldest base t q \<longleftrightarrow> front (pl_sorted q) = Some t"
proof (cases "pl_sorted q")
  case (Cons u us)
  then have "\<forall>x\<in>set us. unat (u - base) < unat (x - base)" using assms(2) by (simp add: pl_window_def)
  then show ?thesis
    using Cons unfolding pl_oldest_def pl_inv_get_iff [OF assms(1)] front_Some_iff by fastforce
next
  case Nil
  then show ?thesis unfolding pl_oldest_def pl_inv_get_iff [OF assms(1)] front_Some_iff by simp
qed

lemma pl_mark_as_acked_None: "pl_get t q = None \<Longrightarrow> pl_mark_as_acked t q = (0, q)"
  by (simp add: pl_mark_as_acked_def)

text \<open>C7. Invariant and behaviour of the TSN queue: every operation keeps the sorted index, the map
and the byte counter in agreement. A chunk is accepted by \<open>push\<close> exactly if its TSN is new and
ahead of the cumulative TSN; it is found afterwards, the other TSNs are as before and the queue
stays inside the half space behind the cumulative TSN; a rejected chunk is recorded as a duplicate
and changes nothing else. \<open>pop\<close> removes and returns the chunk of exactly the oldest TSN, and
does nothing for any other. Acknowledging a TSN empties its chunk, marks it acknowledged and not
to be retransmitted, and returns its former length; an absent TSN gives 0 and no change, and no
other TSN is touched. Both release exactly the bytes of the chunk concerned. Marking
all for retransmission concerns exactly the chunks neither acknowledged nor abandoned.\<close>

theorem payload_queue_invariant:
  assumes "pl_inv q" and "pl_window (cum + 1) q"
  shows "(case pl_push p cum q of
      (ok, q') \<Rightarrow> pl_inv q' \<and> pl_window (cum + 1) q' \<and> ok = (pl_get (pd_tsn p) q = None \<and> \<not> sna32lte (pd_tsn p) cum) \<and>
        (if ok then pl_n_bytes q' = pl_n_bytes q + length (pd_user_data p) \<and>
           (\<forall>u. pl_get u q' = (if u = pd_tsn p then Some p else pl_get u q))
         else q' = q\<lparr>pl_dup_tsn := pl_dup_tsn q @ [pd_tsn p]\<rparr>)) \<and>
    (case pl_pop t q of
      (None, q') \<Rightarrow> q' = q \<and> \<not> pl_oldest (cum + 1) t q
    | (Some c, q') \<Rightarrow> pl_inv q' \<and> pl_window (cum + 1) q' \<and> pl_oldest (cum + 1) t q \<and> pl_get t q = Some c \<and>
        pl_n_bytes q = length (pd_user_data c) + pl_n_bytes q' \<and>
        (\<forall>u. pl_get u q' = (if u = t then None else pl_get u q))) \<and>
    (case pl_get t q of
      None \<Rightarrow> pl_mark_as_acked t q = (0, q)
    | Some c \<Rightarrow> \<exists>q'. pl_mark_as_acked t q = (length (pd_user_data c), q') \<and> pl_inv q' \<and> pl_window (cum + 1) q' \<and>
        pl_n_bytes q = length (pd_user_data c) + pl_n_bytes q' \<and>
        (\<forall>u. pl_get u q' = (if u = t then Some (c\<lparr>pd_acked := True, pd_retransmit := False, pd_user_data := []\<rparr>)
           else pl_get u q))) \<and>
    pl_inv (pl_mark_all_to_retransmit q) \<and>
    (\<forall>u. pl_get u (pl_mark_all_to_retransmit q) =
      map_option (\<lambda>c. if pd_acked c \<or> is_abandoned c then c else c\<lparr>pd_retransmit := True\<rparr>) (pl_get u q))"
proof (intro conjI)
  show "case pl_push p cum q of
      (ok, q') \<Rightarrow> pl_inv q' \<and> pl_window (cum + 1) q' \<and> ok = (pl_get (pd_tsn p) q = None \<and> \<not> sna32lte (pd_tsn p) cum) \<and>
        (if ok then pl_n_bytes q' = pl_n_bytes q + length (pd_user_data p) \<and>
           (\<forall>u. pl_get u q' = (if u = pd_tsn p then Some p else pl_get u q))
         else q' = q\<lparr>pl_dup_tsn := pl_dup_tsn q @ [pd_tsn p]\<rparr>)"
  proof (cases "pl_get (pd_tsn p) q = None \<and> \<not> sna32lte (pd_tsn p) cum")
    case True
    then show ?thesis
      using assms tsnq.push_inv tsnq.push_bytes pl_push_no_check_window [OF assms _ not_lte_window]
      by (simp add: pl_push_def tsnq.push_get)
  qed (use assms in \<open>auto simp: pl_push_def pl_inv_def pl_window_def pl_bytes_def\<close>)
  show "case pl_pop t q of
      (None, q') \<Rightarrow> q' = q \<and> \<not> pl_oldest (cum + 1) t q
    | (Some c, q') \<Rightarrow> pl_inv q' \<and> pl_window (cum + 1) q' \<and> pl_oldest (cum + 1) t q \<and> pl_get t q = Some c \<and>
        pl_n_bytes q = length (pd_user_data c) + pl_n_bytes q' \<and>
        (\<forall>u. pl_get u q' = (if u = t then None else pl_get u q))"
  proof (cases "front (pl_sorted q) = Some t")
    case True
    obtain c q' where "pl_get t q = Some c" "pl_pop t q = (Some c, q')" "pl_inv q'" "pl_sorted q = t # pl_sorted q'"
      "pl_n_bytes q = length (pd_user_data c) + pl_n_bytes q'" "\<And>u. pl_get u q' = (if u = t then None else pl_get u q)"
      by (rule pl_pop_front [OF assms(1) True]) blast
    then show ?thesis using True pl_window_tl(1) [OF assms(2)] pl_oldest_front [OF assms] by simp
  qed (simp add: pl_pop_not_front pl_oldest_front [OF assms])
  show "case pl_get t q of
      None \<Rightarrow> pl_mark_as_acked t q = (0, q)
    | Some c \<Rightarrow> \<exists>q'. pl_mark_as_acked t q = (length (pd_user_data c), q') \<and> pl_inv q' \<and> pl_window (cum + 1) q' \<and>
        pl_n_bytes q = length (pd_user_data c) + pl_n_bytes q' \<and>
        (\<forall>u. pl_get u q' = (if u = t then Some (c\<lparr>pd_acked := True, pd_retransmit := False, pd_user_data := []\<rparr>)
           else pl_get u q))"
  proof (cases "pl_get t q")
    case (Some c)
    obtain q' where "pl_mark_as_acked t q = (length (pd_user_data c), q')" "pl_inv q'" "pl_sorted q' = pl_sorted q"
      "pl_n_bytes q = length (pd_user_data c) + pl_n_bytes q'"
      "\<And>u. pl_get u q' = (if u = t then Some (c\<lparr>pd_acked := True, pd_retransmit := False, pd_user_data := []\<rparr>)
       else pl_get u q)"
      by (rule pl_mark_as_acked_Some [OF assms(1) Some]) blast
    then show ?thesis using Some assms(2) by (simp add: pl_window_def)
  qed (simp add: pl_mark_as_acked_None)
qed (use assms pl_mark_all_get in \<open>simp_all add: pl_mark_all_inv\<close>)

theorem payload_queue_invariant_witness:
  "pl_inv payload_sample \<and> pl_window 11 payload_sample \<and> (case pl_pop 12 payload_sample of
      (None, q') \<Rightarrow> q' = payload_sample \<and> \<not> pl_oldest 11 12 payload_sample
    | (Some c, q') \<Rightarrow> pl_inv q' \<and> pl_window 11 q' \<and> pl_oldest 11 12 payload_sample \<and> pl_get 12 payload_sample = Some c \<and>
        pl_n_bytes payload_sample = length (pd_user_data c) + pl_n_bytes q' \<and>
        (\<forall>u. pl_get u q' = (if u = 12 then None else pl_get u payload_sample)))"
proof -
  have "(10 :: u32) + 1 = 11" by simp
  from payload_queue_invariant [of payload_sample 10 payload_data_default 12, unfolded this, OF payload_sample_eval(2,3)]
  show ?thesis using payload_sample_eval(2,3) by (elim conjE) (intro conjI)
qed

end
