(* ===== verification/Sctp_Reassembly.thy ===== *)
theory Sctp_Reassembly
  imports Sctp_Payload "HOL-Library.Multiset"
begin

text \<open>Reassembly of user messages (\<open>rtc-sctp/src/queue/reassembly_queue.rs\<close>): \<open>Chunks\<close>,
the set of fragments of one message, and the per-stream \<open>ReassemblyQueue\<close> with its
ordered and unordered halves. \<open>Instant::now()\<close> is the argument \<open>now\<close>. The theory
shows that a fragmented message is put together whatever the arrival order, that
ordered messages are delivered in SSN order, and that the byte counter which feeds
the advertised window is exact.\<close>

section \<open>Sets of fragments\<close>

record chunks =
  ck_ssn :: u16
  ck_ppi :: payload_protocol_identifier
  ck_chunks :: "chunk_payload_data list"
  ck_offset :: nat
  ck_index :: nat
  ck_timestamp :: instant

definition chunks_new ::
    "instant \<Rightarrow> u16 \<Rightarrow> payload_protocol_identifier \<Rightarrow> chunk_payload_data list \<Rightarrow> chunks" where
  "chunks_new now ssn ppi cs =
     \<lparr>ck_ssn = ssn, ck_ppi = ppi, ck_chunks = cs, ck_offset = 0, ck_index = 0, ck_timestamp = now\<rparr>"

definition chunks_len :: "chunks \<Rightarrow> nat" where
  "chunks_len s = fold (\<lambda>c l. l + length (pd_user_data c)) (ck_chunks s) 0"

definition chunks_to_payload :: "nat \<Rightarrow> chunks \<Rightarrow> bytes result" where
  "chunks_to_payload max_len s =
    (if chunks_len s > max_len then Fail ErrShortBuffer
     else Ok (fold (\<lambda>c buf. buf @ pd_user_data c) (ck_chunks s) []))"

text \<open>\<open>Chunks::read\<close>: the result and the contents of the caller's buffer.\<close>

fun chunks_read_loop :: "nat \<Rightarrow> bytes \<Rightarrow> chunk_payload_data list \<Rightarrow> nat result \<times> bytes" where
  "chunks_read_loop n_written buf [] = (Ok n_written, buf)"
| "chunks_read_loop n_written buf (c # cs) =
    (let to_copy = length (pd_user_data c);
         n = min to_copy (length buf - n_written);
         buf = take n_written buf @ take n (pd_user_data c) @ drop (n_written + n) buf in
     if n < to_copy then (Fail ErrShortBuffer, buf) else chunks_read_loop (n_written + n) buf cs)"

definition chunks_read :: "bytes \<Rightarrow> chunks \<Rightarrow> nat result \<times> bytes" where
  "chunks_read buf s = chunks_read_loop 0 buf (ck_chunks s)"

text \<open>\<open>Chunks::next\<close>: the next piece of at most \<open>max_length\<close> bytes.\<close>

function chunks_next_loop :: "nat \<Rightarrow> nat \<Rightarrow> bytes \<Rightarrow> chunks \<Rightarrow> bytes \<times> chunks" where
  "chunks_next_loop max_length n_written buf s =
    (if ck_index s < length (ck_chunks s) then
       let data = drop (ck_offset s) (pd_user_data (ck_chunks s ! ck_index s));
           to_copy = length data;
           n = min to_copy (max_length - n_written);
           buf = buf @ take n data in
       if n < to_copy then (buf, s\<lparr>ck_offset := ck_offset s + n\<rparr>)
       else chunks_next_loop max_length (n_written + n) buf
              (s\<lparr>ck_index := ck_index s + 1, ck_offset := 0\<rparr>)
     else (buf, s))"
  by pat_completeness auto
termination
  by (relation "measure (\<lambda>(_, _, _, s). length (ck_chunks s) - ck_index s)") auto

declare chunks_next_loop.simps [simp del]

definition chunks_next :: "nat \<Rightarrow> chunks \<Rightarrow> bytes option \<times> chunks" where
  "chunks_next max_length s =
    (if ck_index s \<ge> length (ck_chunks s) then (None, s)
     else let (buf, s) = chunks_next_loop max_length 0 [] s in (Some buf, s))"

text \<open>Condition 3 of \<open>is_complete\<close>: TSNs increase by one.\<close>

fun contiguous :: "chunk_payload_data list \<Rightarrow> bool" where
  "contiguous (c # d # cs) = (pd_tsn d = pd_tsn c + 1 \<and> contiguous (d # cs))"
| "contiguous _ = True"

definition chunks_is_complete :: "chunks \<Rightarrow> bool" where
  "chunks_is_complete s \<longleftrightarrow>
     ck_chunks s \<noteq> [] \<and> pd_beginning_fragment (ck_chunks s ! 0) \<and>
     pd_ending_fragment (ck_chunks s ! (length (ck_chunks s) - 1)) \<and> contiguous (ck_chunks s)"

definition chunks_push :: "chunk_payload_data \<Rightarrow> chunks \<Rightarrow> bool \<times> chunks" where
  "chunks_push c s =
    (let idx = partition_point (\<lambda>x. sna32lt (pd_tsn x) (pd_tsn c)) (ck_chunks s) in
     if idx < length (ck_chunks s) \<and> pd_tsn (ck_chunks s ! idx) = pd_tsn c then (False, s)
     else let s = s\<lparr>ck_chunks := insert_at idx c (ck_chunks s)\<rparr> in (chunks_is_complete s, s))"

section \<open>The queue of a stream\<close>

record reassembly_queue =
  rq_si :: u16
  rq_next_ssn :: u16
  rq_ordered :: "chunks list"
  rq_unordered :: "chunks list"
  rq_unordered_chunks :: "chunk_payload_data list"
  rq_n_bytes :: nat

definition rq_new :: "u16 \<Rightarrow> reassembly_queue" where
  "rq_new si = \<lparr>rq_si = si, rq_next_ssn = 0, rq_ordered = [], rq_unordered = [],
     rq_unordered_chunks = [], rq_n_bytes = 0\<rparr>"

text \<open>The scan of \<open>find_complete_unordered_chunk_set\<close>; a found set is its start index and
number of chunks.\<close>

fun find_complete_loop ::
    "nat \<Rightarrow> int \<Rightarrow> nat \<Rightarrow> u32 \<Rightarrow> chunk_payload_data list \<Rightarrow> (nat \<times> nat) option" where
  "find_complete_loop i start_idx n_chunks last_tsn [] = None"
| "find_complete_loop i start_idx n_chunks last_tsn (c # cs) =
    (if pd_beginning_fragment c then
       if pd_ending_fragment c then Some (i, 1)
       else find_complete_loop (i + 1) (int i) 1 (pd_tsn c) cs
     else if start_idx < 0 then find_complete_loop (i + 1) start_idx n_chunks last_tsn cs
     else if pd_tsn c \<noteq> last_tsn + 1 then find_complete_loop (i + 1) (- 1) n_chunks last_tsn cs
     else if pd_ending_fragment c then Some (nat start_idx, n_chunks + 1)
     else find_complete_loop (i + 1) start_idx (n_chunks + 1) (pd_tsn c) cs)"

definition rq_find_complete_unordered_chunk_set ::
    "instant \<Rightarrow> reassembly_queue \<Rightarrow> chunks option \<times> reassembly_queue" where
  "rq_find_complete_unordered_chunk_set now q =
    (case find_complete_loop 0 (- 1) 0 0 (rq_unordered_chunks q) of
       None \<Rightarrow> (None, q)
     | Some (start, n) \<Rightarrow>
         let cs = take n (drop start (rq_unordered_chunks q));
             q = q\<lparr>rq_unordered_chunks :=
                     take start (rq_unordered_chunks q) @ drop (start + n) (rq_unordered_chunks q)\<rparr>
         in (Some (chunks_new now 0 (pd_payload_type (cs ! 0)) cs), q))"

definition rq_push :: "instant \<Rightarrow> chunk_payload_data \<Rightarrow> reassembly_queue \<Rightarrow> bool \<times> reassembly_queue" where
  "rq_push now c q =
    (if pd_stream_identifier c \<noteq> rq_si q then (False, q)
     else if pd_unordered c then
       let q = q\<lparr>rq_n_bytes := rq_n_bytes q + length (pd_user_data c)\<rparr>;
           idx = partition_point (\<lambda>x. sna32lt (pd_tsn x) (pd_tsn c)) (rq_unordered_chunks q);
           q = q\<lparr>rq_unordered_chunks := insert_at idx c (rq_unordered_chunks q)\<rparr> in
       (case rq_find_complete_unordered_chunk_set now q of
          (Some cset, q) \<Rightarrow> (True, q\<lparr>rq_unordered := rq_unordered q @ [cset]\<rparr>)
        | (None, q) \<Rightarrow> (False, q))
     else if sna16lt (pd_stream_sequence_number c) (rq_next_ssn q) then (False, q)
     else
       let q = q\<lparr>rq_n_bytes := rq_n_bytes q + length (pd_user_data c)\<rparr>;
           ssn = pd_stream_sequence_number c;
           idx = partition_point (\<lambda>s. sna16lt (ck_ssn s) ssn) (rq_ordered q) in
       if idx < length (rq_ordered q) \<and> ck_ssn (rq_ordered q ! idx) = ssn
       then let (ok, s) = chunks_push c (rq_ordered q ! idx)
            in (ok, q\<lparr>rq_ordered := (rq_ordered q)[idx := s]\<rparr>)
       else let (ok, cset) = chunks_push c (chunks_new now ssn (pd_payload_type c) [])
            in (ok, q\<lparr>rq_ordered := insert_at idx cset (rq_ordered q)\<rparr>))"

definition rq_is_readable :: "reassembly_queue \<Rightarrow> bool" where
  "rq_is_readable q \<longleftrightarrow>
    (if rq_unordered q \<noteq> [] then True
     else if rq_ordered q \<noteq> [] then
       (let cset = rq_ordered q ! 0 in chunks_is_complete cset \<and> sna16lte (ck_ssn cset) (rq_next_ssn q))
     else False)"

definition rq_readable_ordered_chunks :: "reassembly_queue \<Rightarrow> chunks option" where
  "rq_readable_ordered_chunks q =
    (case front (rq_ordered q) of
       Some s \<Rightarrow> if \<not> chunks_is_complete s then None
                 else if sna16gt (ck_ssn s) (rq_next_ssn q) then None else Some s
     | None \<Rightarrow> None)"

definition rq_subtract_num_bytes :: "nat \<Rightarrow> reassembly_queue \<Rightarrow> reassembly_queue" where
  "rq_subtract_num_bytes n q =
    (if rq_n_bytes q \<ge> n then q\<lparr>rq_n_bytes := rq_n_bytes q - n\<rparr> else q\<lparr>rq_n_bytes := 0\<rparr>)"

text \<open>\<open>pop_front\<close> on the ordered half, with the update of \<open>next_ssn\<close> that precedes it.\<close>

definition rq_take_ordered :: "chunks \<Rightarrow> reassembly_queue \<Rightarrow> reassembly_queue" where
  "rq_take_ordered s q =
    (let q = (if ck_ssn s = rq_next_ssn q then q\<lparr>rq_next_ssn := rq_next_ssn q + 1\<rparr> else q)
     in q\<lparr>rq_ordered := tl (rq_ordered q)\<rparr>)"

definition rq_read :: "reassembly_queue \<Rightarrow> chunks option \<times> reassembly_queue" where
  "rq_read q =
    (let (res, q) =
      (case (front (rq_unordered q), rq_readable_ordered_chunks q) of
         (Some u, Some s) \<Rightarrow>
           if ck_timestamp u < ck_timestamp s
           then (Some u, q\<lparr>rq_unordered := tl (rq_unordered q)\<rparr>)
           else (Some s, rq_take_ordered s q)
       | _ \<Rightarrow>
           if rq_unordered q \<noteq> [] then (front (rq_unordered q), q\<lparr>rq_unordered := tl (rq_unordered q)\<rparr>)
           else if rq_ordered q \<noteq> [] then
             let s = rq_ordered q ! 0 in
             if \<not> chunks_is_complete s then (None, q)
             else if sna16gt (ck_ssn s) (rq_next_ssn q) then (None, q)
             else (Some s, rq_take_ordered s q)
           else (None, q))
     in case res of
          Some s \<Rightarrow> (Some s, rq_subtract_num_bytes (chunks_len s) q)
        | None \<Rightarrow> (None, q))"

definition rq_forward_tsn_for_ordered :: "u16 \<Rightarrow> reassembly_queue \<Rightarrow> reassembly_queue" where
  "rq_forward_tsn_for_ordered last_ssn q =
    (let num_bytes = fold (\<lambda>s n. n + fold (\<lambda>c acc. acc + length (pd_user_data c)) (ck_chunks s) 0)
           (filter (\<lambda>s. sna16lte (ck_ssn s) last_ssn \<and> \<not> chunks_is_complete s) (rq_ordered q)) 0;
         q = rq_subtract_num_bytes num_bytes q;
         q = q\<lparr>rq_ordered := filter (\<lambda>s. \<not> sna16lte (ck_ssn s) last_ssn \<or> chunks_is_complete s)
                 (rq_ordered q)\<rparr>
     in if sna16lte (rq_next_ssn q) last_ssn then q\<lparr>rq_next_ssn := last_ssn + 1\<rparr> else q)"

definition rq_forward_tsn_for_unordered :: "u32 \<Rightarrow> reassembly_queue \<Rightarrow> reassembly_queue" where
  "rq_forward_tsn_for_unordered new_cumulative_tsn q =
    (let n = length (takeWhile (\<lambda>c. \<not> sna32gt (pd_tsn c) new_cumulative_tsn) (rq_unordered_chunks q));
         q = fold (\<lambda>c q. rq_subtract_num_bytes (length (pd_user_data c)) q)
               (take n (rq_unordered_chunks q)) q
     in q\<lparr>rq_unordered_chunks := drop n (rq_unordered_chunks q)\<rparr>)"

section \<open>Byte accounting\<close>

definition set_bytes :: "chunks list \<Rightarrow> nat" where
  "set_bytes ss = sum_list (map (\<lambda>s. data_bytes (ck_chunks s)) ss)"

definition rq_bytes :: "reassembly_queue \<Rightarrow> nat" where
  "rq_bytes q = set_bytes (rq_ordered q) + set_bytes (rq_unordered q) + data_bytes (rq_unordered_chunks q)"

lemma chunks_len_bytes: "chunks_len s = data_bytes (ck_chunks s)"
  by (simp add: chunks_len_def data_bytes_def fold_add_sum)

lemma set_bytes_simps [simp]:
  "set_bytes [] = 0" "set_bytes (s # ss) = data_bytes (ck_chunks s) + set_bytes ss"
  "set_bytes (ss @ ts) = set_bytes ss + set_bytes ts"
  by (simp_all add: set_bytes_def)

lemma data_bytes_insert_at [simp]: "data_bytes (insert_at i c cs) = length (pd_user_data c) + data_bytes cs"
proof -
  have "data_bytes (take i cs) + data_bytes (drop i cs) = data_bytes cs"
    by (metis append_take_drop_id data_bytes_simps(3))
  then show ?thesis by (simp add: insert_at_def)
qed

lemma set_bytes_insert_at [simp]: "set_bytes (insert_at i s ss) = data_bytes (ck_chunks s) + set_bytes ss"
proof -
  have "set_bytes (take i ss) + set_bytes (drop i ss) = set_bytes ss"
    by (metis append_take_drop_id set_bytes_simps(3))
  then show ?thesis by (simp add: insert_at_def)
qed

lemma set_bytes_update:
  "i < length ss \<Longrightarrow> set_bytes (ss[i := s]) + data_bytes (ck_chunks (ss ! i)) = set_bytes ss + data_bytes (ck_chunks s)"
  by (induction ss arbitrary: i) (auto split: nat.split)

lemma data_bytes_remove:
  "data_bytes (take a cs @ drop (a + n) cs) + data_bytes (take n (drop a cs)) = data_bytes cs"
proof -
  have "cs = take a cs @ take n (drop a cs) @ drop (a + n) cs"
    by (metis append_take_drop_id drop_drop add.commute)
  then have "data_bytes cs = data_bytes (take a cs) + (data_bytes (take n (drop a cs)) + data_bytes (drop (a + n) cs))"
    by (metis data_bytes_simps(3))
  then show ?thesis by simp
qed

text \<open>The TSN of an arriving chunk is new to the set of fragments it belongs to; the
association's queue rejects duplicates before they get here.\<close>

definition rq_fresh :: "chunk_payload_data \<Rightarrow> reassembly_queue \<Rightarrow> bool" where
  "rq_fresh c q \<longleftrightarrow> (\<forall>s\<in>set (rq_ordered q). \<forall>d\<in>set (ck_chunks s). pd_tsn d \<noteq> pd_tsn c)"

lemma rq_find_bytes:
  assumes "rq_find_complete_unordered_chunk_set now q = (res, q')"
  shows "rq_bytes q = rq_bytes q' + (case res of None \<Rightarrow> 0 | Some s \<Rightarrow> data_bytes (ck_chunks s))"
    "rq_n_bytes q' = rq_n_bytes q"
  using assms data_bytes_remove
  by (auto simp: rq_find_complete_unordered_chunk_set_def rq_bytes_def chunks_new_def Let_def
      add.commute add.left_commute split: option.splits prod.splits)

lemma rq_push_bytes:
  assumes "rq_n_bytes q = rq_bytes q" "rq_fresh c q" "rq_push now c q = (ok, q')"
  shows "rq_n_bytes q' = rq_bytes q'"
proof -
  consider (other) "pd_stream_identifier c \<noteq> rq_si q" | (unord) "pd_stream_identifier c = rq_si q" "pd_unordered c"
    | (old) "pd_stream_identifier c = rq_si q" "\<not> pd_unordered c" "sna16lt (pd_stream_sequence_number c) (rq_next_ssn q)"
    | (ord) "pd_stream_identifier c = rq_si q" "\<not> pd_unordered c" "\<not> sna16lt (pd_stream_sequence_number c) (rq_next_ssn q)"
    by blast
  then show ?thesis
  proof cases
    case unord
    let ?idx = "partition_point (\<lambda>x. sna32lt (pd_tsn x) (pd_tsn c)) (rq_unordered_chunks q)"
    let ?q = "q\<lparr>rq_n_bytes := rq_n_bytes q + length (pd_user_data c),
      rq_unordered_chunks := insert_at ?idx c (rq_unordered_chunks q)\<rparr>"
    obtain res q1 where f: "rq_find_complete_unordered_chunk_set now ?q = (res, q1)" by fastforce
    have "rq_bytes ?q = rq_n_bytes ?q" using assms(1) by (simp add: rq_bytes_def)
    with rq_find_bytes [OF f] assms(3) unord f show ?thesis
      by (auto simp: rq_push_def Let_def rq_bytes_def split: option.splits)
  next
    case ord
    let ?idx = "partition_point (\<lambda>s. sna16lt (ck_ssn s) (pd_stream_sequence_number c)) (rq_ordered q)"
    show ?thesis
    proof (cases "?idx < length (rq_ordered q) \<and> ck_ssn (rq_ordered q ! ?idx) = pd_stream_sequence_number c")
      case True
      let ?s = "rq_ordered q ! ?idx"
      have in_set: "?s \<in> set (rq_ordered q)" using True by simp
      obtain b s' where p: "chunks_push c ?s = (b, s')" by fastforce
      have "partition_point P (ck_chunks ?s) < length (ck_chunks ?s) \<Longrightarrow>
          pd_tsn (ck_chunks ?s ! partition_point P (ck_chunks ?s)) \<noteq> pd_tsn c" for P
        using assms(2) in_set by (auto simp: rq_fresh_def)
      then have "data_bytes (ck_chunks s') = length (pd_user_data c) + data_bytes (ck_chunks ?s)"
        using p by (auto simp: chunks_push_def Let_def split: if_splits)
      with set_bytes_update [of ?idx "rq_ordered q" s'] True ord assms p show ?thesis
        by (auto simp: rq_push_def Let_def rq_bytes_def)
    next
      case False
      with ord assms(1,3) show ?thesis
        by (auto simp: rq_push_def Let_def rq_bytes_def chunks_push_def chunks_new_def
            partition_point_def insert_at_def [of _ _ "[]"] split: if_splits)
    qed
  qed (use assms in \<open>auto simp: rq_push_def\<close>)
qed

lemma rq_subtract_exact: "n \<le> rq_n_bytes q \<Longrightarrow> rq_subtract_num_bytes n q = q\<lparr>rq_n_bytes := rq_n_bytes q - n\<rparr>"
  by (simp add: rq_subtract_num_bytes_def)

text \<open>The four ways in which a read ends.\<close>

lemma rq_read_cases:
  assumes "rq_read q = (res, q')"
  obtains (none) "res = None" "q' = q" "rq_unordered q = []" "rq_readable_ordered_chunks q = None"
  | (unordered) u us where "res = Some u" "rq_unordered q = u # us"
      "q' = rq_subtract_num_bytes (chunks_len u) (q\<lparr>rq_unordered := us\<rparr>)"
  | (ordered) s ss where "res = Some s" "rq_ordered q = s # ss" "chunks_is_complete s"
      "\<not> sna16gt (ck_ssn s) (rq_next_ssn q)"
      "q' = rq_subtract_num_bytes (chunks_len s) (rq_take_ordered s q)"
proof (cases "rq_unordered q")
  case unil: Nil
  show thesis
  proof (cases "rq_ordered q")
    case Nil
    show thesis by (rule none) (use Nil unil assms in \<open>auto simp: rq_read_def rq_readable_ordered_chunks_def\<close>)
  next
    case (Cons s ss)
    show thesis
    proof (cases "chunks_is_complete s \<and> \<not> sna16gt (ck_ssn s) (rq_next_ssn q)")
      case True
      show thesis by (rule ordered [OF _ Cons])
        (use True Cons unil assms in \<open>auto simp: rq_read_def rq_readable_ordered_chunks_def\<close>)
    next
      case False
      show thesis by (rule none)
        (use False Cons unil assms in \<open>auto simp: rq_read_def rq_readable_ordered_chunks_def split: if_splits\<close>)
    qed
  qed
next
  case ucons: (Cons u us)
  show thesis
  proof (cases "rq_readable_ordered_chunks q")
    case None
    show thesis by (rule unordered [OF _ ucons]) (use None ucons assms in \<open>auto simp: rq_read_def\<close>)
  next
    case (Some s)
    then obtain ss where s: "rq_ordered q = s # ss" "chunks_is_complete s" "\<not> sna16gt (ck_ssn s) (rq_next_ssn q)"
      by (auto simp: rq_readable_ordered_chunks_def front_Some_iff split: option.splits if_splits)
    show thesis
    proof (cases "ck_timestamp u < ck_timestamp s")
      case True
      show thesis by (rule unordered [OF _ ucons]) (use True Some ucons assms in \<open>auto simp: rq_read_def\<close>)
    next
      case False
      show thesis by (rule ordered [OF _ s]) (use False Some ucons assms in \<open>auto simp: rq_read_def\<close>)
    qed
  qed
qed

lemma rq_read_Some_iff: "rq_is_readable q \<longleftrightarrow> fst (rq_read q) \<noteq> None"
proof (cases "rq_unordered q")
  case Nil
  then show ?thesis
    by (cases "rq_ordered q")
       (auto simp: rq_is_readable_def rq_read_def rq_readable_ordered_chunks_def Let_def
         sna16.gt_not_lte split: if_splits)
next
  case (Cons u us)
  then show ?thesis
    by (auto simp: rq_is_readable_def rq_read_def split: option.splits if_splits)
qed

lemma rq_take_ordered_simps [simp]:
  "rq_ordered (rq_take_ordered s q) = tl (rq_ordered q)"
  "rq_unordered (rq_take_ordered s q) = rq_unordered q"
  "rq_unordered_chunks (rq_take_ordered s q) = rq_unordered_chunks q"
  "rq_n_bytes (rq_take_ordered s q) = rq_n_bytes q" "rq_si (rq_take_ordered s q) = rq_si q"
  by (simp_all add: rq_take_ordered_def Let_def)

lemma rq_subtract_simps [simp]:
  "rq_ordered (rq_subtract_num_bytes n q) = rq_ordered q"
  "rq_unordered (rq_subtract_num_bytes n q) = rq_unordered q"
  "rq_unordered_chunks (rq_subtract_num_bytes n q) = rq_unordered_chunks q"
  "rq_next_ssn (rq_subtract_num_bytes n q) = rq_next_ssn q"
  "rq_si (rq_subtract_num_bytes n q) = rq_si q"
  by (simp_all add: rq_subtract_num_bytes_def)

lemma rq_read_bytes:
  assumes "rq_n_bytes q = rq_bytes q" "rq_read q = (res, q')"
  shows "rq_n_bytes q' = rq_bytes q'"
    and "case res of None \<Rightarrow> q' = q | Some s \<Rightarrow> rq_n_bytes q = chunks_len s + rq_n_bytes q'"
proof -
  have "rq_n_bytes q' = rq_bytes q' \<and>
      (case res of None \<Rightarrow> q' = q | Some s \<Rightarrow> rq_n_bytes q = chunks_len s + rq_n_bytes q')"
    using assms(2)
  proof (cases rule: rq_read_cases)
    case none then show ?thesis using assms(1) by simp
  next
    case (unordered u us)
    then have "chunks_len u \<le> rq_n_bytes (q\<lparr>rq_unordered := us\<rparr>)"
      using assms(1) by (simp add: rq_bytes_def chunks_len_bytes)
    with unordered assms(1) show ?thesis
      by (simp add: rq_subtract_exact rq_bytes_def chunks_len_bytes)
  next
    case (ordered s ss)
    then have "chunks_len s \<le> rq_n_bytes (rq_take_ordered s q)"
      using assms(1) by (simp add: rq_bytes_def chunks_len_bytes)
    with ordered assms(1) show ?thesis
      by (simp add: rq_subtract_exact rq_bytes_def chunks_len_bytes)
  qed
  then show "rq_n_bytes q' = rq_bytes q'"
    "case res of None \<Rightarrow> q' = q | Some s \<Rightarrow> rq_n_bytes q = chunks_len s + rq_n_bytes q'" by simp_all
qed

lemma set_bytes_filter: "set_bytes (filter P ss) + set_bytes (filter (\<lambda>s. \<not> P s) ss) = set_bytes ss"
  by (induction ss) auto

lemma fold_set_bytes:
  "fold (\<lambda>s n. n + fold (\<lambda>c acc. acc + length (pd_user_data c)) (ck_chunks s) 0) ss 0 = set_bytes ss"
  by (simp add: fold_add_sum set_bytes_def data_bytes_def)

lemma rq_forward_ordered_bytes:
  assumes "rq_n_bytes q = rq_bytes q"
  shows "rq_n_bytes (rq_forward_tsn_for_ordered lst q) = rq_bytes (rq_forward_tsn_for_ordered lst q)"
proof -
  let ?drop = "\<lambda>s. sna16lte (ck_ssn s) lst \<and> \<not> chunks_is_complete s"
  have keep: "filter (\<lambda>s. \<not> sna16lte (ck_ssn s) lst \<or> chunks_is_complete s) xs = filter (\<lambda>s. \<not> ?drop s) xs" for xs
    by (rule filter_cong) auto
  have "set_bytes (filter ?drop (rq_ordered q)) \<le> rq_n_bytes q"
    using assms set_bytes_filter [of ?drop "rq_ordered q"] by (simp add: rq_bytes_def)
  then show ?thesis
    using assms set_bytes_filter [of ?drop "rq_ordered q"]
    by (simp add: rq_forward_tsn_for_ordered_def fold_set_bytes keep Let_def rq_subtract_exact rq_bytes_def)
qed

lemma fold_subtract:
  "data_bytes cs \<le> rq_n_bytes q \<Longrightarrow>
   fold (\<lambda>c q. rq_subtract_num_bytes (length (pd_user_data c)) q) cs q =
     q\<lparr>rq_n_bytes := rq_n_bytes q - data_bytes cs\<rparr>"
proof (induction cs arbitrary: q)
  case (Cons c cs)
  then have "rq_subtract_num_bytes (length (pd_user_data c)) q = q\<lparr>rq_n_bytes := rq_n_bytes q - length (pd_user_data c)\<rparr>"
    by (intro rq_subtract_exact) simp
  with Cons show ?case by simp
qed simp

lemma rq_forward_unordered_bytes:
  assumes "rq_n_bytes q = rq_bytes q"
  shows "rq_n_bytes (rq_forward_tsn_for_unordered t q) = rq_bytes (rq_forward_tsn_for_unordered t q)"
proof -
  let ?n = "length (takeWhile (\<lambda>c. \<not> sna32gt (pd_tsn c) t) (rq_unordered_chunks q))"
  have split: "data_bytes (take ?n (rq_unordered_chunks q)) + data_bytes (drop ?n (rq_unordered_chunks q))
      = data_bytes (rq_unordered_chunks q)"
    by (metis append_take_drop_id data_bytes_simps(3))
  then have "data_bytes (take ?n (rq_unordered_chunks q)) \<le> rq_n_bytes q"
    using assms by (simp add: rq_bytes_def)
  then show ?thesis
    using assms split by (simp add: rq_forward_tsn_for_unordered_def fold_subtract Let_def rq_bytes_def)
qed

section \<open>Ordered delivery\<close>

text \<open>The ordered half holds sets of distinct SSNs, in serial order, from \<open>next_ssn\<close> on.\<close>

definition rq_window :: "reassembly_queue \<Rightarrow> bool" where
  "rq_window q \<longleftrightarrow>
     (\<forall>s\<in>set (rq_ordered q). unat (ck_ssn s - rq_next_ssn q) < 2 ^ 15) \<and>
     sorted_wrt (\<lambda>x y. unat (ck_ssn x - rq_next_ssn q) < unat (ck_ssn y - rq_next_ssn q)) (rq_ordered q)"

lemma chunks_push_ssn: "chunks_push c s = (ok, s') \<Longrightarrow> ck_ssn s' = ck_ssn s"
  by (auto simp: chunks_push_def Let_def split: if_splits)

lemma sorted_wrt_list_update:
  assumes "sorted_wrt (\<lambda>x y. f x < (f y :: nat)) xs" "i < length xs" "f y = f (xs ! i)"
  shows "sorted_wrt (\<lambda>x y. f x < f y) (xs[i := y])"
  using assms by (auto simp: sorted_wrt_iff_nth_less nth_list_update)

lemma sorted_wrt_insert_point:
  assumes "sorted_wrt (\<lambda>x y. f x < (f y :: nat)) xs" and "\<forall>x\<in>set xs. P x \<longleftrightarrow> f x < k"
    and "\<not> (partition_point P xs < length xs \<and> f (xs ! partition_point P xs) = k)" "f y = k"
  shows "sorted_wrt (\<lambda>x y. f x < f y) (insert_at (partition_point P xs) y xs)"
  using assms
proof (induction xs)
  case (Cons x xs)
  show ?case
  proof (cases "P x")
    case True
    with Cons have IH: "sorted_wrt (\<lambda>x y. f x < f y) (insert_at (partition_point P xs) y xs)"
      by (auto simp: partition_point_def)
    have "f x < f z" if "z \<in> set (insert_at (partition_point P xs) y xs)" for z
      using that Cons.prems True by auto
    with IH True show ?thesis by (simp add: partition_point_def insert_at_def)
  next
    case False
    then have "k < f x" using Cons.prems by (auto simp: partition_point_def)
    with False Cons.prems show ?thesis by (auto simp: partition_point_def insert_at_def)
  qed
qed (simp add: partition_point_def insert_at_def)

lemma not_lt16_window:
  assumes "\<not> sna16lt x n" "x - n \<noteq> 2 ^ 15"
  shows "unat (x - n) < 2 ^ 15"
proof (rule ccontr)
  assume c: "\<not> ?thesis"
  then have ne: "x - n \<noteq> 0" by auto
  have "unat (x - n) \<noteq> 2 ^ 15"
  proof
    assume "unat (x - n) = 2 ^ 15"
    then have "of_nat (unat (x - n)) = (of_nat (2 ^ 15) :: u16)" by simp
    then have "x - n = 2 ^ 15" by simp
    with assms(2) show False by simp
  qed
  moreover have "unat (n - x) = 2 ^ 16 - unat (x - n)" using sna16.dist_flip [OF ne] by simp
  ultimately have "sna16lt x n" using c unat_bound [of "x - n"] by (simp add: sna16lt_dist)
  with assms(1) show False by simp
qed

lemma rq_find_frame:
  "rq_find_complete_unordered_chunk_set now q = (res, q') \<Longrightarrow>
   rq_ordered q' = rq_ordered q \<and> rq_next_ssn q' = rq_next_ssn q \<and> rq_unordered q' = rq_unordered q"
  by (auto simp: rq_find_complete_unordered_chunk_set_def Let_def split: option.splits prod.splits)

lemma rq_push_unordered_frame:
  assumes "rq_push now c q = (ok, q')" "pd_stream_identifier c = rq_si q \<and> pd_unordered c"
  shows "rq_ordered q' = rq_ordered q \<and> rq_next_ssn q' = rq_next_ssn q"
proof -
  let ?idx = "partition_point (\<lambda>x. sna32lt (pd_tsn x) (pd_tsn c)) (rq_unordered_chunks q)"
  let ?q = "q\<lparr>rq_n_bytes := rq_n_bytes q + length (pd_user_data c),
    rq_unordered_chunks := insert_at ?idx c (rq_unordered_chunks q)\<rparr>"
  obtain res q1 where f: "rq_find_complete_unordered_chunk_set now ?q = (res, q1)" by fastforce
  have "rq_ordered q' = rq_ordered q1 \<and> rq_next_ssn q' = rq_next_ssn q1"
    using assms f by (auto simp: rq_push_def Let_def split: option.splits)
  with rq_find_frame [OF f] show ?thesis by simp
qed

lemma rq_push_window:
  assumes "rq_window q" "rq_push now c q = (ok, q')"
    and "\<not> pd_unordered c \<longrightarrow> pd_stream_sequence_number c - rq_next_ssn q \<noteq> 2 ^ 15"
  shows "rq_window q'" "rq_next_ssn q' = rq_next_ssn q"
proof -
  have "rq_window q' \<and> rq_next_ssn q' = rq_next_ssn q"
  proof (cases "pd_stream_identifier c = rq_si q \<and> \<not> pd_unordered c \<and>
      \<not> sna16lt (pd_stream_sequence_number c) (rq_next_ssn q)")
    case True
    let ?ssn = "pd_stream_sequence_number c"
    let ?f = "\<lambda>s. unat (ck_ssn s - rq_next_ssn q)"
    let ?P = "\<lambda>s. sna16lt (ck_ssn s) ?ssn"
    let ?idx = "partition_point ?P (rq_ordered q)"
    have k: "unat (?ssn - rq_next_ssn q) < 2 ^ 15" using True assms(3) by (intro not_lt16_window) auto
    have P: "\<forall>s\<in>set (rq_ordered q). ?P s \<longleftrightarrow> ?f s < unat (?ssn - rq_next_ssn q)"
      using assms(1) k by (auto simp: rq_window_def sna16.lt_window)
    have eq: "?f s = unat (?ssn - rq_next_ssn q) \<longleftrightarrow> ck_ssn s = ?ssn" for s
      by (metis diff_add_cancel word_unat_eq_iff)
    show ?thesis
    proof (cases "?idx < length (rq_ordered q) \<and> ck_ssn (rq_ordered q ! ?idx) = ?ssn")
      case hit: True
      obtain b s' where p: "chunks_push c (rq_ordered q ! ?idx) = (b, s')" by fastforce
      then have "sorted_wrt (\<lambda>x y. ?f x < ?f y) ((rq_ordered q)[?idx := s'])"
        using assms(1) hit chunks_push_ssn [OF p]
        by (intro sorted_wrt_list_update) (auto simp: rq_window_def)
      moreover have "\<forall>s\<in>set ((rq_ordered q)[?idx := s']). ?f s < 2 ^ 15"
        using assms(1) k hit chunks_push_ssn [OF p] by (auto simp: rq_window_def dest!: set_update_subset_insert [THEN subsetD])
      ultimately show ?thesis using assms(2) True hit p
        by (auto simp: rq_push_def Let_def rq_window_def)
    next
      case miss: False
      obtain b s' where p: "chunks_push c (chunks_new now ?ssn (pd_payload_type c) []) = (b, s')" by fastforce
      then have ssn: "ck_ssn s' = ?ssn" using chunks_push_ssn [OF p] by (simp add: chunks_new_def)
      have "sorted_wrt (\<lambda>x y. ?f x < ?f y) (insert_at ?idx s' (rq_ordered q))"
        using assms(1) miss P ssn eq
        by (intro sorted_wrt_insert_point) (auto simp: rq_window_def)
      then show ?thesis using assms(1,2) True miss p k ssn
        by (auto simp: rq_push_def Let_def rq_window_def)
    qed
  next
    case False
    show ?thesis
    proof (cases "pd_stream_identifier c = rq_si q \<and> pd_unordered c")
      case True
      with rq_push_unordered_frame [OF assms(2)] assms(1) show ?thesis by (simp add: rq_window_def)
    next
      case f: False
      then have "q' = q" using False assms(2) by (auto simp: rq_push_def split: if_splits)
      then show ?thesis using assms(1) by simp
    qed
  qed
  then show "rq_window q'" "rq_next_ssn q' = rq_next_ssn q" by simp_all
qed

lemma rq_read_window:
  assumes "rq_window q" "rq_read q = (res, q')"
  shows "rq_window q' \<and>
    (rq_ordered q' = rq_ordered q \<and> rq_next_ssn q' = rq_next_ssn q \<or>
     (\<exists>s. res = Some s \<and> rq_ordered q = s # rq_ordered q' \<and> chunks_is_complete s \<and>
        ck_ssn s = rq_next_ssn q \<and> rq_next_ssn q' = rq_next_ssn q + 1))"
  using assms(2)
proof (cases rule: rq_read_cases)
  case none then show ?thesis using assms(1) by simp
next
  case (unordered u us) then show ?thesis using assms(1) by (simp add: rq_window_def)
next
  case (ordered s ss)
  let ?n = "rq_next_ssn q"
  have "sna16lte (ck_ssn s) ?n" using ordered by (simp add: sna16.gt_not_lte)
  moreover have "sna16lte ?n (ck_ssn s)" using assms(1) ordered by (simp add: rq_window_def sna16.lte_dist)
  ultimately have eq: "ck_ssn s = ?n" by (rule sna16.lte_antisym)
  have sub: "unat (ck_ssn x - (?n + 1)) = unat (ck_ssn x - ?n) - 1" "0 < unat (ck_ssn x - ?n)"
    if "x \<in> set ss" for x
  proof -
    show pos: "0 < unat (ck_ssn x - ?n)" using assms(1) ordered that eq by (auto simp: rq_window_def)
    then have "ck_ssn x - ?n \<noteq> 0" by auto
    then show "unat (ck_ssn x - (?n + 1)) = unat (ck_ssn x - ?n) - 1"
      using unat_minus_one [of "ck_ssn x - ?n"] by (simp add: diff_diff_eq)
  qed
  have "sorted_wrt (\<lambda>x y. unat (ck_ssn x - ?n) < unat (ck_ssn y - ?n)) ss"
    using assms(1) ordered by (simp add: rq_window_def)
  then have "sorted_wrt (\<lambda>x y. unat (ck_ssn x - (?n + 1)) < unat (ck_ssn y - (?n + 1))) ss"
  proof (rule sorted_wrt_mono_rel [rotated])
    fix x y assume "x \<in> set ss" "y \<in> set ss" "unat (ck_ssn x - ?n) < unat (ck_ssn y - ?n)"
    then show "unat (ck_ssn x - (?n + 1)) < unat (ck_ssn y - (?n + 1))"
      using sub(1) [of x] sub(1) [of y] sub(2) [of x] by linarith
  qed
  moreover have "\<forall>x\<in>set ss. unat (ck_ssn x - (?n + 1)) < 2 ^ 15"
    using sub assms(1) ordered by (auto simp: rq_window_def less_imp_diff_less)
  ultimately show ?thesis using ordered eq
    by (simp add: rq_window_def rq_take_ordered_def)
qed

section \<open>Runs of a queue\<close>

text \<open>A run interleaves arriving chunks with reads; it collects every set of fragments a
read returned, marked with whether it left the ordered half.\<close>

datatype rq_op = Arrive instant chunk_payload_data | Read

fun rq_run :: "rq_op list \<Rightarrow> reassembly_queue \<Rightarrow> (bool \<times> chunks) list \<times> reassembly_queue" where
  "rq_run [] q = ([], q)"
| "rq_run (Arrive now c # ops) q = rq_run ops (snd (rq_push now c q))"
| "rq_run (Read # ops) q =
    (case rq_read q of
       (None, q') \<Rightarrow> rq_run ops q'
     | (Some s, q') \<Rightarrow>
         let (out, q'') = rq_run ops q'
         in ((length (rq_ordered q') < length (rq_ordered q), s) # out, q''))"

text \<open>No arriving ordered chunk is exactly half the SSN space ahead of the next SSN.\<close>

fun rq_run_in_window :: "rq_op list \<Rightarrow> reassembly_queue \<Rightarrow> bool" where
  "rq_run_in_window [] q = True"
| "rq_run_in_window (Arrive now c # ops) q =
    ((pd_unordered c \<or> pd_stream_sequence_number c - rq_next_ssn q \<noteq> 2 ^ 15) \<and>
     rq_run_in_window ops (snd (rq_push now c q)))"
| "rq_run_in_window (Read # ops) q = rq_run_in_window ops (snd (rq_read q))"

definition ordered_ssns :: "(bool \<times> chunks) list \<Rightarrow> u16 list" where
  "ordered_ssns out = map (ck_ssn \<circ> snd) (filter fst out)"

fun ssns_from :: "u16 \<Rightarrow> nat \<Rightarrow> u16 list" where
  "ssns_from n 0 = []"
| "ssns_from n (Suc k) = n # ssns_from (n + 1) k"

lemma length_ssns_from [simp]: "length (ssns_from n k) = k"
  by (induction k arbitrary: n) auto

lemma rq_run_ordered:
  assumes "rq_window q" "rq_run_in_window ops q" "out = fst (rq_run ops q)"
  shows "ordered_ssns out = ssns_from (rq_next_ssn q) (length (ordered_ssns out))"
  using assms
proof (induction ops q arbitrary: out rule: rq_run.induct)
  case (1 q) then show ?case by (simp add: ordered_ssns_def)
next
  case (2 now c ops q)
  obtain ok q1 where p: "rq_push now c q = (ok, q1)" by fastforce
  have w: "\<not> pd_unordered c \<longrightarrow> pd_stream_sequence_number c - rq_next_ssn q \<noteq> 2 ^ 15"
    using 2(3) by auto
  show ?case using 2 p rq_push_window [OF 2(2) p w] by simp
next
  case (3 ops q)
  obtain res q1 where r: "rq_read q = (res, q1)" by fastforce
  note w = rq_read_window [OF 3(3) r]
  show ?case
  proof (cases res)
    case None
    then show ?thesis using 3(1) [OF r [symmetric] None] 3(4,5) r w by auto
  next
    case (Some s)
    obtain rest q2 where run: "rq_run ops q1 = (rest, q2)" by fastforce
    have ih: "ordered_ssns rest = ssns_from (rq_next_ssn q1) (length (ordered_ssns rest))"
      using 3(2) [OF r [symmetric] Some] 3(4) r run w by auto
    have out: "out = (length (rq_ordered q1) < length (rq_ordered q), s) # rest"
      using 3(5) r Some run by simp
    from w show ?thesis
    proof (elim conjE disjE exE)
      assume "rq_ordered q1 = rq_ordered q" "rq_next_ssn q1 = rq_next_ssn q"
      then show ?thesis using ih out by (simp add: ordered_ssns_def)
    next
      fix t assume "res = Some t" "rq_ordered q = t # rq_ordered q1"
        "ck_ssn t = rq_next_ssn q" "rq_next_ssn q1 = rq_next_ssn q + 1"
      then show ?thesis using ih out Some by (simp add: ordered_ssns_def)
    qed
  qed
qed

section \<open>Only complete messages are delivered\<close>

definition complete_list :: "chunk_payload_data list \<Rightarrow> bool" where
  "complete_list cs \<longleftrightarrow> cs \<noteq> [] \<and> pd_beginning_fragment (cs ! 0) \<and>
     pd_ending_fragment (cs ! (length cs - 1)) \<and> contiguous cs"

lemma chunks_is_complete_list: "chunks_is_complete s = complete_list (ck_chunks s)"
  by (simp add: chunks_is_complete_def complete_list_def)

lemma contiguous_snoc:
  "contiguous (cs @ [c]) \<longleftrightarrow> contiguous cs \<and> (cs = [] \<or> pd_tsn c = pd_tsn (last cs) + 1)"
proof (induction cs)
  case (Cons d cs)
  then show ?case by (cases cs) auto
qed simp

text \<open>The scan's candidate is a contiguous run of fragments that opens with a beginning
fragment and ends just before the current position.\<close>

definition scan_inv :: "chunk_payload_data list \<Rightarrow> int \<Rightarrow> nat \<Rightarrow> u32 \<Rightarrow> bool" where
  "scan_inv pre start n lst \<longleftrightarrow> start < 0 \<or>
     (\<exists>a b. pre = a @ b \<and> nat start = length a \<and> n = length b \<and> b \<noteq> [] \<and>
        pd_beginning_fragment (b ! 0) \<and> contiguous b \<and> pd_tsn (last b) = lst)"

lemma find_complete_sound:
  assumes "find_complete_loop (length pre) start n lst cs = Some (i, k)" "scan_inv pre start n lst"
  shows "complete_list (take k (drop i (pre @ cs)))"
  using assms
proof (induction cs arbitrary: pre start n lst)
  case (Cons c cs)
  have len: "length pre + 1 = length (pre @ [c])" by simp
  consider (single) "pd_beginning_fragment c" "pd_ending_fragment c"
    | (first) "pd_beginning_fragment c" "\<not> pd_ending_fragment c"
    | (idle) "\<not> pd_beginning_fragment c" "start < 0"
    | (gap) "\<not> pd_beginning_fragment c" "\<not> start < 0" "pd_tsn c \<noteq> lst + 1"
    | (final) "\<not> pd_beginning_fragment c" "\<not> start < 0" "pd_tsn c = lst + 1" "pd_ending_fragment c"
    | (more) "\<not> pd_beginning_fragment c" "\<not> start < 0" "pd_tsn c = lst + 1" "\<not> pd_ending_fragment c"
    by blast
  then show ?case
  proof cases
    case single
    then have "i = length pre" "k = 1" using Cons.prems by simp_all
    then show ?thesis using single by (simp add: complete_list_def)
  next
    case first
    have "scan_inv (pre @ [c]) (int (length pre)) 1 (pd_tsn c)"
      using first unfolding scan_inv_def
      by (intro disjI2 exI [of _ pre] exI [of _ "[c]"]) simp
    then show ?thesis
      using Cons.IH [of "pre @ [c]" "int (length pre)" 1 "pd_tsn c"] Cons.prems first by simp
  next
    case idle
    then show ?thesis using Cons.IH [of "pre @ [c]" start n lst] Cons.prems by (simp add: scan_inv_def)
  next
    case gap
    then show ?thesis using Cons.IH [of "pre @ [c]" "- 1" n lst] Cons.prems by (simp add: scan_inv_def)
  next
    case final
    then obtain a b where ab: "pre = a @ b" "nat start = length a" "n = length b" "b \<noteq> []"
      "pd_beginning_fragment (b ! 0)" "contiguous b" "pd_tsn (last b) = lst"
      using Cons.prems(2) by (auto simp: scan_inv_def)
    have "i = length a" "k = length b + 1" using final ab Cons.prems by simp_all
    then have "take k (drop i (pre @ c # cs)) = b @ [c]" using ab by simp
    then show ?thesis using ab final by (simp add: complete_list_def contiguous_snoc nth_append)
  next
    case more
    then obtain a b where ab: "pre = a @ b" "nat start = length a" "n = length b" "b \<noteq> []"
      "pd_beginning_fragment (b ! 0)" "contiguous b" "pd_tsn (last b) = lst"
      using Cons.prems(2) by (auto simp: scan_inv_def)
    have "scan_inv (pre @ [c]) start (n + 1) (pd_tsn c)"
      using ab more unfolding scan_inv_def
      by (intro disjI2 exI [of _ a] exI [of _ "b @ [c]"]) (simp add: contiguous_snoc nth_append)
    then show ?thesis
      using Cons.IH [of "pre @ [c]" start "n + 1" "pd_tsn c"] Cons.prems more by simp
  qed
qed simp

lemma rq_find_complete:
  "rq_find_complete_unordered_chunk_set now q = (Some s, q') \<Longrightarrow> chunks_is_complete s"
  using find_complete_sound [of "[]" "- 1" 0 0 "rq_unordered_chunks q"]
  by (auto simp: rq_find_complete_unordered_chunk_set_def chunks_is_complete_list chunks_new_def
      scan_inv_def Let_def split: option.splits prod.splits)

definition rq_unordered_complete :: "reassembly_queue \<Rightarrow> bool" where
  "rq_unordered_complete q \<longleftrightarrow> (\<forall>s\<in>set (rq_unordered q). chunks_is_complete s)"

lemma rq_push_complete:
  assumes "rq_unordered_complete q" "rq_push now c q = (ok, q')"
  shows "rq_unordered_complete q'"
proof (cases "pd_stream_identifier c = rq_si q \<and> pd_unordered c")
  case True
  let ?idx = "partition_point (\<lambda>x. sna32lt (pd_tsn x) (pd_tsn c)) (rq_unordered_chunks q)"
  let ?q = "q\<lparr>rq_n_bytes := rq_n_bytes q + length (pd_user_data c),
    rq_unordered_chunks := insert_at ?idx c (rq_unordered_chunks q)\<rparr>"
  obtain res q1 where f: "rq_find_complete_unordered_chunk_set now ?q = (res, q1)" by fastforce
  have "rq_unordered q1 = rq_unordered q" using rq_find_frame [OF f] by simp
  then show ?thesis using assms True f rq_find_complete [of now ?q]
    by (cases res) (auto simp: rq_push_def Let_def rq_unordered_complete_def)
next
  case False
  then show ?thesis using assms
    by (auto simp: rq_push_def Let_def rq_unordered_complete_def split: if_splits prod.splits)
qed

lemma rq_read_complete:
  assumes "rq_unordered_complete q" "rq_read q = (res, q')"
  shows "rq_unordered_complete q' \<and> (\<forall>s. res = Some s \<longrightarrow> chunks_is_complete s)"
  using assms(2)
  by (cases rule: rq_read_cases)
    (use assms(1) in \<open>auto simp: rq_unordered_complete_def rq_subtract_num_bytes_def rq_take_ordered_def Let_def\<close>)

lemma rq_run_complete:
  "rq_unordered_complete q \<Longrightarrow> rq_run ops q = (out, q') \<Longrightarrow> (b, s) \<in> set out \<Longrightarrow> chunks_is_complete s"
proof (induction ops q arbitrary: out rule: rq_run.induct)
  case (2 now c ops q)
  then show ?case using rq_push_complete [of q now c] by (cases "rq_push now c q") auto
next
  case (3 ops q)
  obtain res q1 where r: "rq_read q = (res, q1)" by fastforce
  show ?case
  proof (cases res)
    case None
    then show ?thesis using 3(1) [OF r [symmetric] None] 3(3-) r rq_read_complete [OF 3(3) r] by auto
  next
    case (Some t)
    then show ?thesis using 3(2) [OF r [symmetric] Some] 3(3-) r rq_read_complete [OF 3(3) r]
      by (cases "rq_run ops q1") auto
  qed
qed simp

section \<open>Reassembly in any arrival order\<close>

text \<open>The fragments of one message as the sender makes them: consecutive TSNs from \<open>t0\<close>,
the first marked as beginning, the last as ending.\<close>

definition is_message :: "u32 \<Rightarrow> chunk_payload_data list \<Rightarrow> bool" where
  "is_message t0 fs \<longleftrightarrow> fs \<noteq> [] \<and> length fs < 2 ^ 31 \<and>
     (\<forall>i < length fs. pd_tsn (fs ! i) = t0 + of_nat i \<and>
        (pd_beginning_fragment (fs ! i) \<longleftrightarrow> i = 0) \<and> (pd_ending_fragment (fs ! i) \<longleftrightarrow> i = length fs - 1))"

definition frag_key :: "u32 \<Rightarrow> chunk_payload_data \<Rightarrow> nat" where
  "frag_key t0 c = unat (pd_tsn c - t0)"

lemma frag_key_nth: "is_message t0 fs \<Longrightarrow> i < length fs \<Longrightarrow> frag_key t0 (fs ! i) = i"
  by (simp add: is_message_def frag_key_def unat_of_nat_u32)

lemma message_sorted: "is_message t0 fs \<Longrightarrow> sorted_wrt (\<lambda>c d. frag_key t0 c < frag_key t0 d) fs"
  by (simp add: sorted_wrt_iff_nth_less frag_key_nth)

lemma message_key_bound: "is_message t0 fs \<Longrightarrow> c \<in> set fs \<Longrightarrow> frag_key t0 c < 2 ^ 31"
  by (auto simp: in_set_conv_nth frag_key_nth is_message_def)

lemma contiguous_nth:
  "(\<And>i. i + 1 < length cs \<Longrightarrow> pd_tsn (cs ! (i + 1)) = pd_tsn (cs ! i) + 1) \<Longrightarrow> contiguous cs"
proof (induction cs rule: contiguous.induct)
  case (1 c d cs)
  have "pd_tsn d = pd_tsn c + 1" using 1(2) [of 0] by simp
  moreover have "contiguous (d # cs)" using 1(2) [of "Suc _"] by (intro 1(1)) simp
  ultimately show ?case by simp
qed auto

lemma message_complete: "is_message t0 fs \<Longrightarrow> complete_list fs"
  by (simp add: complete_list_def is_message_def contiguous_nth)

text \<open>A strictly sorted list is determined by its elements.\<close>

lemma sorted_key_unique:
  fixes f :: "'a \<Rightarrow> nat"
  assumes "sorted_wrt (\<lambda>x y. f x < f y) xs" "sorted_wrt (\<lambda>x y. f x < f y) ys" "set xs = set ys"
  shows "xs = ys"
proof -
  have s: "sorted_wrt (<) (map f xs)" "sorted_wrt (<) (map f ys)" using assms by (simp_all add: sorted_wrt_map)
  then have "map f xs = map f ys" using assms(3) by (intro strict_sorted_equal) auto
  moreover have "inj_on f (set xs \<union> set ys)"
    using s(1) assms(3) by (simp add: distinct_map strict_sorted_iff)
  ultimately show ?thesis by (simp add: inj_on_map_eq_map)
qed

text \<open>What the pushed part of a message looks like in the set of fragments.\<close>

definition holds_frags :: "u32 \<Rightarrow> chunk_payload_data set \<Rightarrow> chunk_payload_data list \<Rightarrow> bool" where
  "holds_frags t0 C cs \<longleftrightarrow> set cs = C \<and> sorted_wrt (\<lambda>c d. frag_key t0 c < frag_key t0 d) cs"

lemma insert_frag:
  assumes "holds_frags t0 C cs" "\<forall>d\<in>insert c C. frag_key t0 d < 2 ^ 31"
    and "\<forall>d\<in>C. frag_key t0 d \<noteq> frag_key t0 c"
  shows "holds_frags t0 (insert c C) (insert_at (partition_point (\<lambda>x. sna32lt (pd_tsn x) (pd_tsn c)) cs) c cs)"
proof -
  let ?P = "\<lambda>x. sna32lt (pd_tsn x) (pd_tsn c)"
  have P: "\<forall>x\<in>set cs. ?P x \<longleftrightarrow> frag_key t0 x < frag_key t0 c"
    using assms(1,2) by (simp add: holds_frags_def frag_key_def sna32.lt_window [where base = t0])
  have "sorted_wrt (\<lambda>x y. frag_key t0 x < frag_key t0 y) (insert_at (partition_point ?P cs) c cs)"
    using assms(1,3) P by (intro sorted_wrt_insert_point) (auto simp: holds_frags_def)
  then show ?thesis using assms(1) by (simp add: holds_frags_def)
qed

lemma chunks_push_frag:
  assumes "holds_frags t0 C (ck_chunks s)" "\<forall>d\<in>insert c C. frag_key t0 d < 2 ^ 31"
    and "\<forall>d\<in>C. frag_key t0 d \<noteq> frag_key t0 c" "chunks_push c s = (ok, s')"
  shows "holds_frags t0 (insert c C) (ck_chunks s')"
proof -
  let ?idx = "partition_point (\<lambda>x. sna32lt (pd_tsn x) (pd_tsn c)) (ck_chunks s)"
  have "pd_tsn (ck_chunks s ! ?idx) \<noteq> pd_tsn c" if "?idx < length (ck_chunks s)"
    using that assms(1,3) nth_mem [OF that] by (auto simp: holds_frags_def frag_key_def)
  then have "ck_chunks s' = insert_at ?idx c (ck_chunks s)"
    using assms(4) by (auto simp: chunks_push_def Let_def split: if_splits)
  then show ?thesis using insert_frag [OF assms(1-3)] by simp
qed

lemma holds_frags_all: "is_message t0 fs \<Longrightarrow> holds_frags t0 (set fs) cs \<Longrightarrow> cs = fs"
  by (auto simp: holds_frags_def intro: sorted_key_unique message_sorted)

definition rq_push_all :: "(instant \<times> chunk_payload_data) list \<Rightarrow> reassembly_queue \<Rightarrow> reassembly_queue" where
  "rq_push_all arr q = fold (\<lambda>(now, c) q. snd (rq_push now c q)) arr q"

lemma rq_push_all_simps [simp]:
  "rq_push_all [] q = q"
  "rq_push_all (arr @ [(now, c)]) q = snd (rq_push now c (rq_push_all arr q))"
  by (simp_all add: rq_push_all_def)

text \<open>The fragments are distinct, so any prefix of their arrivals brings new ones.\<close>

lemma message_distinct_keys:
  assumes "is_message t0 fs" "mset cs \<subseteq># mset fs" "cs = ds @ c # es" "d \<in> set ds"
  shows "frag_key t0 d \<noteq> frag_key t0 c"
proof -
  have df: "distinct (map (frag_key t0) fs)"
    using message_sorted [OF assms(1)] by (simp add: sorted_wrt_map [symmetric] strict_sorted_iff)
  then have "distinct fs" by (simp add: distinct_map)
  moreover obtain R where "mset fs = mset cs + R" using assms(2) by (auto simp: subset_mset.le_iff_add)
  then obtain rest where "mset fs = mset (cs @ rest)" by (metis ex_mset mset_append)
  ultimately have "distinct cs" by (metis distinct_append mset_eq_imp_distinct_iff)
  moreover have "set cs \<subseteq> set fs" using assms(2) by (metis mset_subset_eqD set_mset_mset subsetI)
  ultimately show ?thesis using assms(3,4) df by (auto simp: distinct_map inj_on_eq_iff)
qed

lemma message_arrivals_induct:
  assumes "is_message t0 fs" "mset (map snd arr) \<subseteq># mset fs" "P [] {}"
    and step: "\<And>as now c. c \<in> set fs \<Longrightarrow> set (map snd as) \<subseteq> set fs \<Longrightarrow>
      \<forall>d\<in>set (map snd as). frag_key t0 d \<noteq> frag_key t0 c \<Longrightarrow> P as (set (map snd as)) \<Longrightarrow>
      P (as @ [(now, c)]) (insert c (set (map snd as)))"
  shows "P arr (set (map snd arr))"
  using assms(2)
proof (induction arr rule: rev_induct)
  case Nil show ?case using assms(3) by simp
next
  case (snoc a as)
  obtain now c where a: "a = (now, c)" by fastforce
  have sub: "mset (map snd as) \<subseteq># mset fs" 
    using snoc.prems by (metis map_append mset_append mset_subset_eq_add_left subset_mset.order_trans)
  have in_fs: "set (map snd (as @ [a])) \<subseteq> set fs" using snoc.prems by (metis mset_subset_eqD set_mset_mset subsetI)
  have "P (as @ [(now, c)]) (insert c (set (map snd as)))"
  proof (rule step)
    show "\<forall>d\<in>set (map snd as). frag_key t0 d \<noteq> frag_key t0 c"
      using message_distinct_keys [OF assms(1) snoc.prems, of "map snd as" c "[]"] a by auto
  qed (use in_fs a snoc.IH [OF sub] in auto)
  then show ?case using a by simp
qed

lemma rq_push_message_ordered:
  assumes "is_message t0 fs" "mset (map snd arr) \<subseteq># mset fs"
    and "\<forall>c\<in>set fs. pd_stream_identifier c = rq_si q \<and> \<not> pd_unordered c \<and> pd_stream_sequence_number c = rq_next_ssn q"
    and "rq_ordered q = []"
  shows "rq_si (rq_push_all arr q) = rq_si q \<and> rq_next_ssn (rq_push_all arr q) = rq_next_ssn q \<and>
    rq_unordered (rq_push_all arr q) = rq_unordered q \<and>
    (if arr = [] then rq_ordered (rq_push_all arr q) = []
     else \<exists>s. rq_ordered (rq_push_all arr q) = [s] \<and> ck_ssn s = rq_next_ssn q \<and>
       holds_frags t0 (set (map snd arr)) (ck_chunks s))" (is "?P arr (set (map snd arr))")
proof (rule message_arrivals_induct [where P = "\<lambda>arr C. rq_si (rq_push_all arr q) = rq_si q \<and>
    rq_next_ssn (rq_push_all arr q) = rq_next_ssn q \<and> rq_unordered (rq_push_all arr q) = rq_unordered q \<and>
    (if arr = [] then rq_ordered (rq_push_all arr q) = []
     else \<exists>s. rq_ordered (rq_push_all arr q) = [s] \<and> ck_ssn s = rq_next_ssn q \<and> holds_frags t0 C (ck_chunks s))", OF assms(1,2)])
  fix as now c
  let ?q = "rq_push_all as q"
  assume c: "c \<in> set fs" and as: "set (map snd as) \<subseteq> set fs" "\<forall>d\<in>set (map snd as). frag_key t0 d \<noteq> frag_key t0 c"
  assume ih: "rq_si ?q = rq_si q \<and> rq_next_ssn ?q = rq_next_ssn q \<and> rq_unordered ?q = rq_unordered q \<and>
    (if as = [] then rq_ordered ?q = []
     else \<exists>s. rq_ordered ?q = [s] \<and> ck_ssn s = rq_next_ssn q \<and> holds_frags t0 (set (map snd as)) (ck_chunks s))"
  define s where "s = (if as = [] then chunks_new now (rq_next_ssn q) (pd_payload_type c) [] else rq_ordered ?q ! 0)"
  have s: "holds_frags t0 (set (map snd as)) (ck_chunks s)" "ck_ssn s = rq_next_ssn q"
    using ih by (force simp: s_def holds_frags_def chunks_new_def)+
  obtain ok s' where p: "chunks_push c s = (ok, s')" by fastforce
  have s': "holds_frags t0 (insert c (set (map snd as))) (ck_chunks s')"
    using chunks_push_frag [OF s(1) _ as(2) p] message_key_bound [OF assms(1)] c as(1) by blast
  have ord: "rq_ordered (snd (rq_push now c ?q)) = [s']"
    using ih s(2) p c assms(3) by (cases "as = []")
      (auto simp: rq_push_def Let_def s_def partition_point_def sna16.lt_irrefl insert_at_def)
  have frame: "rq_si (snd (rq_push now c ?q)) = rq_si ?q \<and> rq_next_ssn (snd (rq_push now c ?q)) = rq_next_ssn ?q \<and>
      rq_unordered (snd (rq_push now c ?q)) = rq_unordered ?q"
    using ih c assms(3) by (simp add: rq_push_def Let_def split: prod.split)
  show "rq_si (rq_push_all (as @ [(now, c)]) q) = rq_si q \<and>
      rq_next_ssn (rq_push_all (as @ [(now, c)]) q) = rq_next_ssn q \<and>
      rq_unordered (rq_push_all (as @ [(now, c)]) q) = rq_unordered q \<and>
      (if as @ [(now, c)] = [] then rq_ordered (rq_push_all (as @ [(now, c)]) q) = []
       else \<exists>s. rq_ordered (rq_push_all (as @ [(now, c)]) q) = [s] \<and> ck_ssn s = rq_next_ssn q \<and>
         holds_frags t0 (insert c (set (map snd as))) (ck_chunks s))"
    using ih ord frame s' s(2) chunks_push_ssn [OF p] by simp
qed (use assms(4) in simp)

lemma rq_read_complete_head:
  assumes "rq_ordered q = [s]" "rq_unordered q = []" "chunks_is_complete s" "ck_ssn s = rq_next_ssn q"
  shows "rq_read q = (Some s, rq_subtract_num_bytes (chunks_len s) (q\<lparr>rq_next_ssn := rq_next_ssn q + 1, rq_ordered := []\<rparr>))"
  using assms by (simp add: rq_read_def rq_readable_ordered_chunks_def rq_take_ordered_def
      sna16.gt_not_lte sna16.lte_refl Let_def)

lemma chunks_to_payload_concat:
  "chunks_to_payload n s =
    (if chunks_len s > n then Fail ErrShortBuffer else Ok (concat (map pd_user_data (ck_chunks s))))"
proof -
  have "fold (\<lambda>c buf. buf @ pd_user_data c) cs b = b @ concat (map pd_user_data cs)"
    for cs :: "chunk_payload_data list" and b
    by (induction cs arbitrary: b) auto
  then show ?thesis by (simp add: chunks_to_payload_def)
qed

text \<open>Unordered messages: the scan finds nothing until the last fragment has arrived.\<close>

lemma find_complete_message:
  assumes "is_message t0 fs" "0 < i" "i \<le> length fs" "length fs \<noteq> i"
  shows "find_complete_loop i 0 i (t0 + of_nat i - 1) (drop i fs) = Some (0, length fs)"
  using assms(2-)
proof (induction "length fs - i" arbitrary: i)
  case (Suc k)
  let ?c = "fs ! i"
  have i: "i < length fs" using Suc by simp
  have c: "pd_tsn ?c = t0 + of_nat i" "\<not> pd_beginning_fragment ?c" "pd_ending_fragment ?c \<longleftrightarrow> i = length fs - 1"
    using assms(1) i Suc.prems by (simp_all add: is_message_def)
  have d: "drop i fs = ?c # drop (Suc i) fs" using i by (simp add: Cons_nth_drop_Suc)
  show ?case
  proof (cases "i = length fs - 1")
    case True
    then show ?thesis using c d i by simp
  next
    case False
    then have "find_complete_loop (Suc i) 0 (Suc i) (t0 + of_nat (Suc i) - 1) (drop (Suc i) fs) = Some (0, length fs)"
      using Suc i by (intro Suc.hyps(1)) auto
    then show ?thesis using c d False by simp
  qed
qed simp

lemma find_complete_all:
  assumes "is_message t0 fs"
  shows "find_complete_loop 0 (- 1) 0 0 fs = Some (0, length fs)"
proof (cases "length fs = 1")
  case True
  then obtain c where "fs = [c]" by (auto simp: length_Suc_conv)
  then show ?thesis using assms by (simp add: is_message_def)
next
  case False
  then obtain c cs where fs: "fs = c # cs" "cs \<noteq> []" using assms by (cases fs) (auto simp: is_message_def)
  then have "pd_tsn c = t0" "pd_beginning_fragment c" "\<not> pd_ending_fragment c"
    using assms by (auto simp: is_message_def dest!: spec [of _ 0])
  then show ?thesis using find_complete_message [OF assms, of 1] fs by simp
qed

text \<open>A contiguous run of fragments with both end markers is the whole message.\<close>

lemma contiguous_key:
  "contiguous cs \<Longrightarrow> i < length cs \<Longrightarrow> pd_tsn (cs ! i) = pd_tsn (cs ! 0) + of_nat i"
proof (induction cs arbitrary: i rule: contiguous.induct)
  case (1 c d cs)
  then show ?case by (cases i) auto
qed auto

lemma complete_sublist_all:
  assumes "is_message t0 fs" "set cs \<subseteq> set fs" "complete_list cs"
  shows "length cs \<ge> length fs"
proof -
  have ne: "cs \<noteq> []" using assms(3) by (simp add: complete_list_def)
  have "cs ! 0 \<in> set fs" "cs ! (length cs - 1) \<in> set fs" using ne assms(2) by (auto intro!: subsetD [OF assms(2)])
  then obtain i j where ij: "i < length fs" "cs ! 0 = fs ! i" "j < length fs" "cs ! (length cs - 1) = fs ! j"
    by (metis in_set_conv_nth)
  have "i = 0" "j = length fs - 1" using ij assms(1,3) by (auto simp: is_message_def complete_list_def)
  then have "t0 + of_nat (length fs - 1) = t0 + of_nat (length cs - 1)"
    using contiguous_key [of cs "length cs - 1"] assms(1,3) ij ne by (auto simp: is_message_def complete_list_def)
  then have "(of_nat (length fs - 1) :: u32) = of_nat (length cs - 1)" by simp
  then have "unat (of_nat (length fs - 1) :: u32) = unat (of_nat (length cs - 1) :: u32)" by simp
  then have "(length fs - 1) mod 2 ^ 32 = (length cs - 1) mod 2 ^ 32"
    by (simp add: unsigned_of_nat take_bit_eq_mod)
  moreover have "length fs < 2 ^ 31" using assms(1) by (simp add: is_message_def)
  then have "length fs - 1 < 2 ^ 32" by simp
  ultimately have "length fs - 1 \<le> length cs - 1" by (metis mod_less mod_less_eq_dividend)
  then show ?thesis using ne by (cases cs) auto
qed

lemma find_complete_partial:
  assumes "is_message t0 fs" "holds_frags t0 C cs" "C \<subset> set fs"
  shows "find_complete_loop 0 (- 1) 0 0 cs = None"
proof (rule ccontr)
  assume "find_complete_loop 0 (- 1) 0 0 cs \<noteq> None"
  then obtain i k where "find_complete_loop 0 (- 1) 0 0 cs = Some (i, k)" by auto
  then have c: "complete_list (take k (drop i cs))"
    using find_complete_sound [of "[]" "- 1" 0 0 cs] by (simp add: scan_inv_def)
  moreover have "set (take k (drop i cs)) \<subseteq> set fs"
    using assms(2,3) by (auto simp: holds_frags_def dest: in_set_takeD in_set_dropD)
  ultimately have "length (take k (drop i cs)) \<ge> length fs" by (intro complete_sublist_all [OF assms(1)])
  then have "length fs \<le> length cs" by (simp, linarith)
  moreover have "distinct cs" "distinct fs"
    using assms(2) message_sorted [OF assms(1)]
    by (auto simp: holds_frags_def sorted_wrt_map [symmetric, where f = "frag_key t0" and R = "(<)"]
        strict_sorted_iff distinct_map)
  ultimately have "card (set fs) \<le> card C" using assms(2) by (auto simp: holds_frags_def distinct_card)
  moreover have "card C < card (set fs)" using assms(3) by (intro psubset_card_mono) auto
  ultimately show False by simp
qed

lemma rq_push_message_unordered:
  assumes "is_message t0 fs" "mset (map snd arr) \<subseteq># mset fs"
    and "\<forall>c\<in>set fs. pd_stream_identifier c = rq_si q \<and> pd_unordered c"
    and "rq_unordered_chunks q = []" "rq_unordered q = []"
  shows "rq_ordered (rq_push_all arr q) = rq_ordered q \<and> rq_si (rq_push_all arr q) = rq_si q \<and>
    (if set (map snd arr) = set fs
     then \<exists>s. rq_unordered (rq_push_all arr q) = [s] \<and> ck_chunks s = fs
     else rq_unordered (rq_push_all arr q) = [] \<and>
       holds_frags t0 (set (map snd arr)) (rq_unordered_chunks (rq_push_all arr q)))"
proof (rule message_arrivals_induct [where P = "\<lambda>arr C.
    rq_ordered (rq_push_all arr q) = rq_ordered q \<and> rq_si (rq_push_all arr q) = rq_si q \<and>
    (if C = set fs then \<exists>s. rq_unordered (rq_push_all arr q) = [s] \<and> ck_chunks s = fs
     else rq_unordered (rq_push_all arr q) = [] \<and> holds_frags t0 C (rq_unordered_chunks (rq_push_all arr q)))", OF assms(1,2)])
  show "rq_ordered (rq_push_all [] q) = rq_ordered q \<and> rq_si (rq_push_all [] q) = rq_si q \<and>
    (if {} = set fs then \<exists>s. rq_unordered (rq_push_all [] q) = [s] \<and> ck_chunks s = fs
     else rq_unordered (rq_push_all [] q) = [] \<and> holds_frags t0 {} (rq_unordered_chunks (rq_push_all [] q)))"
    using assms(1,4,5) by (auto simp: is_message_def holds_frags_def)
next
  fix as now c
  let ?q = "rq_push_all as q" let ?C = "set (map snd as)"
  assume c: "c \<in> set fs" and as: "?C \<subseteq> set fs" "\<forall>d\<in>?C. frag_key t0 d \<noteq> frag_key t0 c"
  assume ih: "rq_ordered ?q = rq_ordered q \<and> rq_si ?q = rq_si q \<and>
    (if ?C = set fs then \<exists>s. rq_unordered ?q = [s] \<and> ck_chunks s = fs
     else rq_unordered ?q = [] \<and> holds_frags t0 ?C (rq_unordered_chunks ?q))"
  have ne: "?C \<noteq> set fs" using c as(2) by blast
  define cs where "cs = insert_at (partition_point (\<lambda>x. sna32lt (pd_tsn x) (pd_tsn c)) (rq_unordered_chunks ?q)) c (rq_unordered_chunks ?q)"
  have cs: "holds_frags t0 (insert c ?C) cs" unfolding cs_def
    using ih ne message_key_bound [OF assms(1)] c as by (intro insert_frag) auto
  have push: "snd (rq_push now c ?q) = (case find_complete_loop 0 (- 1) 0 0 cs of
      None \<Rightarrow> ?q\<lparr>rq_n_bytes := rq_n_bytes ?q + length (pd_user_data c), rq_unordered_chunks := cs\<rparr>
    | Some (start, n) \<Rightarrow> ?q\<lparr>rq_n_bytes := rq_n_bytes ?q + length (pd_user_data c),
        rq_unordered_chunks := take start cs @ drop (start + n) cs,
        rq_unordered := rq_unordered ?q @ [chunks_new now 0 (pd_payload_type (take n (drop start cs) ! 0)) (take n (drop start cs))]\<rparr>)"
    using ih c assms(3) by (simp add: rq_push_def rq_find_complete_unordered_chunk_set_def Let_def cs_def
        split: option.split prod.split)
  show "rq_ordered (rq_push_all (as @ [(now, c)]) q) = rq_ordered q \<and> rq_si (rq_push_all (as @ [(now, c)]) q) = rq_si q \<and>
    (if insert c ?C = set fs then \<exists>s. rq_unordered (rq_push_all (as @ [(now, c)]) q) = [s] \<and> ck_chunks s = fs
     else rq_unordered (rq_push_all (as @ [(now, c)]) q) = [] \<and>
       holds_frags t0 (insert c ?C) (rq_unordered_chunks (rq_push_all (as @ [(now, c)]) q)))"
  proof (cases "insert c ?C = set fs")
    case True
    then have "cs = fs" using cs by (intro holds_frags_all [OF assms(1)]) simp
    then show ?thesis using True push ih ne find_complete_all [OF assms(1)] by (simp add: chunks_new_def)
  next
    case False
    then have "insert c ?C \<subset> set fs" using c as by blast
    then show ?thesis using False push ih ne cs find_complete_partial [OF assms(1) cs] by simp
  qed
qed

lemma rq_any_order:
  assumes "is_message t0 fs" "mset (map snd arr) = mset fs"
    and "\<forall>c\<in>set fs. pd_stream_identifier c = rq_si q \<and> pd_unordered c = u \<and>
      (u \<or> pd_stream_sequence_number c = rq_next_ssn q)"
    and "rq_ordered q = []" "rq_unordered q = []" "rq_unordered_chunks q = []"
  shows "\<exists>s q'. rq_read (rq_push_all arr q) = (Some s, q') \<and> ck_chunks s = fs \<and>
    chunks_to_payload n s =
      (if n < data_bytes fs then Fail ErrShortBuffer else Ok (concat (map pd_user_data fs)))"
proof -
  have sub: "mset (map snd arr) \<subseteq># mset fs" and eq: "set (map snd arr) = set fs"
    using assms(2) by (simp_all flip: set_mset_mset)
  have ne: "arr \<noteq> []" using eq assms(1) by (auto simp: is_message_def)
  have "\<exists>s q'. rq_read (rq_push_all arr q) = (Some s, q') \<and> ck_chunks s = fs"
  proof (cases u)
    case True
    then have "\<forall>c\<in>set fs. pd_stream_identifier c = rq_si q \<and> pd_unordered c" using assms(3) by blast
    from rq_push_message_unordered [OF assms(1) sub this assms(6,5)] eq
    obtain s where "rq_ordered (rq_push_all arr q) = []" "rq_unordered (rq_push_all arr q) = [s]" "ck_chunks s = fs"
      using assms(4) by auto
    then show ?thesis by (simp add: rq_read_def rq_readable_ordered_chunks_def)
  next
    case False
    then have "\<forall>c\<in>set fs. pd_stream_identifier c = rq_si q \<and> \<not> pd_unordered c \<and> pd_stream_sequence_number c = rq_next_ssn q"
      using assms(3) by blast
    from rq_push_message_ordered [OF assms(1) sub this assms(4)] ne eq assms(5)
    obtain s where s: "rq_ordered (rq_push_all arr q) = [s]" "rq_unordered (rq_push_all arr q) = []"
        "ck_ssn s = rq_next_ssn (rq_push_all arr q)" "holds_frags t0 (set fs) (ck_chunks s)"
      by auto
    then have "ck_chunks s = fs" by (intro holds_frags_all [OF assms(1)])
    then show ?thesis using rq_read_complete_head [OF s(1,2) _ s(3)] message_complete [OF assms(1)]
      by (simp add: chunks_is_complete_list)
  qed
  then show ?thesis by (auto simp: chunks_to_payload_concat chunks_len_bytes)
qed

section \<open>Properties\<close>

text \<open>C3. A message that was fragmented into chunks with consecutive TSNs is reassembled
whatever the order in which its fragments arrive: after any permutation of them has
been pushed on an empty queue, as an ordered message with the expected SSN or as an
unordered one, the next read returns exactly the fragments in sending order, and
\<open>to_payload\<close> returns the concatenation of their data, or the short-buffer error when
the caller's limit is below the message size.\<close>

theorem reassembly_any_order:
  assumes "is_message t0 fs" "mset (map snd arr) = mset fs"
    and "\<forall>c\<in>set fs. pd_stream_identifier c = rq_si q \<and> pd_unordered c = u \<and>
      (u \<or> pd_stream_sequence_number c = rq_next_ssn q)"
    and "rq_ordered q = []" "rq_unordered q = []" "rq_unordered_chunks q = []"
  shows "\<exists>s q'. rq_read (rq_push_all arr q) = (Some s, q') \<and> ck_chunks s = fs \<and>
    chunks_to_payload n s =
      (if n < data_bytes fs then Fail ErrShortBuffer else Ok (concat (map pd_user_data fs)))"
  by (rule rq_any_order [OF assms])

definition fragment_sample :: "bool \<Rightarrow> u32 \<Rightarrow> bytes \<Rightarrow> chunk_payload_data" where
  "fragment_sample u t d = payload_data_default\<lparr>pd_unordered := u, pd_tsn := t, pd_user_data := d,
     pd_beginning_fragment := (t = - 1), pd_ending_fragment := (t = 1)\<rparr>"

definition message_sample :: "bool \<Rightarrow> chunk_payload_data list" where
  "message_sample u = [fragment_sample u (- 1) [1, 2], fragment_sample u 0 [3], fragment_sample u 1 [4]]"

lemma message_sample: "is_message (- 1) (message_sample u)"
  by (simp add: is_message_def message_sample_def fragment_sample_def payload_data_default_def All_less_Suc)

theorem reassembly_any_order_witness:
  "\<exists>s q'. rq_read (rq_push_all [(5, fragment_sample True 1 [4]), (6, fragment_sample True (- 1) [1, 2]),
       (7, fragment_sample True 0 [3])] (rq_new 0)) = (Some s, q') \<and>
     ck_chunks s = message_sample True \<and> chunks_to_payload 10 s = Ok [1, 2, 3, 4]"
proof -
  have "data_bytes (message_sample True) = 4" "concat (map pd_user_data (message_sample True)) = [1, 2, 3, 4]"
    by (simp_all add: message_sample_def fragment_sample_def data_bytes_def)
  then show ?thesis
    using reassembly_any_order [OF message_sample, of "[(5, fragment_sample True 1 [4]),
        (6, fragment_sample True (- 1) [1, 2]), (7, fragment_sample True 0 [3])]" True "rq_new 0" True 10]
    by (simp add: message_sample_def fragment_sample_def payload_data_default_def rq_new_def)
qed

text \<open>C4. Delivery order. In every run of arrivals and reads in which no ordered chunk is
exactly 2^15 sequence numbers ahead of the next expected one, the ordered messages
returned by the reads carry consecutive stream sequence numbers starting at
\<open>next_ssn\<close>: none is skipped, repeated or delivered early, across the wrap of the 16-bit
counter. Every returned message, ordered or not, is complete: it starts with a
beginning fragment, ends with an ending fragment and has no TSN gap.\<close>

theorem ordered_delivery:
  assumes "rq_window q" "rq_unordered_complete q" "rq_run_in_window ops q" "rq_run ops q = (out, q')"
  shows "ordered_ssns out = ssns_from (rq_next_ssn q) (length (ordered_ssns out)) \<and>
    (\<forall>s\<in>snd ` set out. chunks_is_complete s)"
  using rq_run_ordered [OF assms(1,3)] assms(4) rq_run_complete [OF assms(2,4)] by auto

lemma rq_window_new: "rq_window (rq_new si)" "rq_unordered_complete (rq_new si)"
  by (simp_all add: rq_window_def rq_new_def rq_unordered_complete_def)

definition single_sample :: "u16 \<Rightarrow> chunk_payload_data" where
  "single_sample ssn = payload_data_default\<lparr>pd_stream_sequence_number := ssn, pd_tsn := ucast ssn,
     pd_user_data := [7], pd_beginning_fragment := True, pd_ending_fragment := True\<rparr>"

definition run_sample :: "rq_op list" where
  "run_sample = [Arrive 1 (single_sample 1), Read, Arrive 2 (single_sample 0), Read, Read]"

theorem ordered_delivery_witness:
  "ordered_ssns (fst (rq_run run_sample (rq_new 0))) = [0, 1]"
proof -
  note defs = run_sample_def single_sample_def payload_data_default_def rq_new_def rq_push_def
    rq_read_def chunks_push_def chunks_new_def chunks_is_complete_def rq_readable_ordered_chunks_def
    rq_take_ordered_def rq_subtract_num_bytes_def partition_point_def insert_at_def
    sna16lt_def sna16gt_def
  have len: "length (ordered_ssns (fst (rq_run run_sample (rq_new 0)))) = 2"
    and win: "rq_run_in_window run_sample (rq_new 0)"
    by (simp_all add: defs ordered_ssns_def)
  obtain out q' where "rq_run run_sample (rq_new 0) = (out, q')" by fastforce
  with ordered_delivery [OF rq_window_new win this] len show ?thesis
    by (simp add: rq_new_def numeral_2_eq_2)
qed

text \<open>C24. Byte accounting. \<open>n_bytes\<close>, which is subtracted from the advertised receive
window, is exactly the number of user-data bytes held by the queue: pushing a chunk
whose TSN is new, reading, and both FORWARD-TSN operations keep the equality, and a
successful read lowers the counter by the size of the returned message. So the clamp
in \<open>subtract_num_bytes\<close> never acts.\<close>

theorem reassembly_bytes_exact:
  assumes "rq_n_bytes q = rq_bytes q" "rq_fresh c q"
  shows "rq_n_bytes (snd (rq_push now c q)) = rq_bytes (snd (rq_push now c q))
    \<and> rq_n_bytes (snd (rq_read q)) = rq_bytes (snd (rq_read q))
    \<and> rq_n_bytes q = (case fst (rq_read q) of Some s \<Rightarrow> chunks_len s | None \<Rightarrow> 0) + rq_n_bytes (snd (rq_read q))
    \<and> rq_n_bytes (rq_forward_tsn_for_ordered ssn q) = rq_bytes (rq_forward_tsn_for_ordered ssn q)
    \<and> rq_n_bytes (rq_forward_tsn_for_unordered tsn q) = rq_bytes (rq_forward_tsn_for_unordered tsn q)"
proof (intro conjI)
  show "rq_n_bytes (snd (rq_push now c q)) = rq_bytes (snd (rq_push now c q))"
    using rq_push_bytes [OF assms] by (metis prod.collapse)
  show "rq_n_bytes (snd (rq_read q)) = rq_bytes (snd (rq_read q))"
    using rq_read_bytes(1) [OF assms(1)] by (metis prod.collapse)
  show "rq_n_bytes q = (case fst (rq_read q) of Some s \<Rightarrow> chunks_len s | None \<Rightarrow> 0) + rq_n_bytes (snd (rq_read q))"
    using rq_read_bytes(2) [OF assms(1), of "fst (rq_read q)" "snd (rq_read q)"]
    by (auto split: option.splits)
qed (use assms rq_forward_ordered_bytes rq_forward_unordered_bytes in auto)

theorem reassembly_bytes_exact_witness:
  "rq_bytes (snd (rq_push 3 (single_sample 0) (rq_new 0))) = 1"
proof -
  have "rq_n_bytes (rq_new 0) = rq_bytes (rq_new 0)" "rq_fresh (single_sample 0) (rq_new 0)"
    by (simp_all add: rq_new_def rq_bytes_def rq_fresh_def)
  from reassembly_bytes_exact [OF this, of 3]
  have "rq_bytes (snd (rq_push 3 (single_sample 0) (rq_new 0))) = rq_n_bytes (snd (rq_push 3 (single_sample 0) (rq_new 0)))"
    by simp
  then show ?thesis
    by (simp add: rq_push_def rq_new_def single_sample_def payload_data_default_def
        chunks_push_def chunks_new_def insert_at_def partition_point_def sna16lt_def Let_def)
qed

text \<open>\<open>is_readable\<close> predicts the read: it answers true exactly when \<open>read\<close> returns a
message, and a read that returns nothing leaves the queue unchanged.\<close>

theorem readable_iff_read:
  "(rq_is_readable q \<longleftrightarrow> fst (rq_read q) \<noteq> None) \<and> (fst (rq_read q) = None \<longleftrightarrow> rq_read q = (None, q))"
proof -
  obtain res q' where r: "rq_read q = (res, q')" by fastforce
  then have "res = None \<Longrightarrow> q' = q" by (cases rule: rq_read_cases) auto
  with r rq_read_Some_iff show ?thesis by auto
qed

text \<open>The half-space anomaly. \<open>sna16lt\<close> is false both ways at the distance 2^15, so an
ordered message whose SSN is exactly 2^15 ahead of the expected one is filed in front
of it: when such a chunk arrives while the expected message is still queued, that
message, even if complete, is no longer readable.\<close>

theorem half_space_ssn_blocks:
  assumes "rq_ordered q = []" "rq_unordered q = []"
    and "pd_stream_identifier far = rq_si q" "\<not> pd_unordered far"
    and "pd_stream_sequence_number far = rq_next_ssn q + 2 ^ 15"
    and "pd_stream_identifier c = rq_si q" "\<not> pd_unordered c"
    and "pd_stream_sequence_number c = rq_next_ssn q"
  shows "\<not> rq_is_readable (snd (rq_push t2 far (snd (rq_push t1 c q))))"
proof -
  let ?n = "rq_next_ssn q"
  have lt: "\<not> sna16lt (?n + 2 ^ 15) ?n" "\<not> sna16lte (?n + 2 ^ 15) ?n" "\<not> sna16lt ?n (?n + 2 ^ 15)"
    by (simp_all add: sna16lt_dist sna16.lte_dist)
  have ne: "?n + 2 ^ 15 \<noteq> ?n" by simp
  show ?thesis using assms lt ne
    by (simp add: rq_push_def rq_is_readable_def chunks_push_def chunks_new_def insert_at_def
        partition_point_def sna16.lt_irrefl Let_def)
qed

theorem half_space_ssn_blocks_witness:
  "\<not> rq_is_readable (snd (rq_push 2 (single_sample (2 ^ 15)) (snd (rq_push 1 (single_sample 0) (rq_new 0)))))"
  by (rule half_space_ssn_blocks) (simp_all add: single_sample_def payload_data_default_def rq_new_def)

end
