(* ===== verification/Sctp_Stream.thy ===== *)
theory Sctp_Stream
  imports Sctp_Reassembly
begin

text \<open>The per-stream state of an association (\<open>rtc-sctp/src/association/stream.rs\<close>):
\<open>StreamState\<close> with fragmentation of outgoing messages, the amount of buffered data and
the receive side's reassembly queue, and the byte sources of \<open>util.rs\<close> that an
application write reads from. The operations of \<open>Stream\<close>, which borrows the whole
association, are in the theory of the association. The theory shows that what
\<open>packetize\<close> produces is put together again by the peer, and what an empty write does.\<close>

section \<open>Enumerations and events\<close>

datatype side = Client | Server

datatype stream_event =
    StreamOpened u16
  | StreamReadable u16
  | StreamWritable u16
  | StreamFinished u16
  | StreamStopped u16 u16
  | StreamAvailable
  | BufferedAmountLow u16
  | BufferedAmountHigh u16
  | BufferedAmountReleased u16 nat

datatype reliability_type = Reliable | Rexmit | Timed

definition reliability_type_of :: "u8 \<Rightarrow> reliability_type" where
  "reliability_type_of v = (if v = 1 then Rexmit else if v = 2 then Timed else Reliable)"

datatype recv_send_state = RsClosed | RsReadable | RsWritable | RsReadWritable

definition recv_send_of :: "u8 \<Rightarrow> recv_send_state" where
  "recv_send_of v = (if v = 1 then RsReadable else if v = 2 then RsWritable
     else if v = 3 then RsReadWritable else RsClosed)"

fun recv_send_code :: "recv_send_state \<Rightarrow> u8" where
  "recv_send_code RsClosed = 0"
| "recv_send_code RsReadable = 1"
| "recv_send_code RsWritable = 2"
| "recv_send_code RsReadWritable = 3"

section \<open>Byte sources\<close>

text \<open>\<open>BytesArray\<close>: an array of buffers from which whole buffers, or a prefix of one, are
taken. \<open>BytesChunk\<close> and \<open>ByteSlice\<close> both serve one buffer.\<close>

record bytes_array =
  ba_chunks :: "bytes list"
  ba_consumed :: nat
  ba_length :: nat

definition bytes_array_from_chunks :: "bytes list \<Rightarrow> bytes_array" where
  "bytes_array_from_chunks cs =
    \<lparr>ba_chunks = cs, ba_consumed = 0, ba_length = fold (\<lambda>c n. n + length c) cs 0\<rparr>"

function bytes_array_pop_chunk :: "nat \<Rightarrow> nat \<Rightarrow> bytes_array \<Rightarrow> (bytes \<times> nat) \<times> bytes_array" where
  "bytes_array_pop_chunk limit chunks_consumed a =
    (if ba_consumed a < length (ba_chunks a) then
       let c = ba_chunks a ! ba_consumed a in
       if length c \<le> limit then
         let a = a\<lparr>ba_chunks := (ba_chunks a)[ba_consumed a := []], ba_consumed := ba_consumed a + 1\<rparr> in
         if c = [] then bytes_array_pop_chunk limit (chunks_consumed + 1) a
         else ((c, chunks_consumed + 1), a)
       else if limit > 0 then
         ((take limit c, chunks_consumed), a\<lparr>ba_chunks := (ba_chunks a)[ba_consumed a := drop limit c]\<rparr>)
       else (([], chunks_consumed), a)
     else (([], chunks_consumed), a))"
  by pat_completeness auto
termination
  by (relation "measure (\<lambda>(_, _, a). length (ba_chunks a) - ba_consumed a)") auto

declare bytes_array_pop_chunk.simps [simp del]

definition bytes_array_has_remaining :: "bytes_array \<Rightarrow> bool" where
  "bytes_array_has_remaining a \<longleftrightarrow> ba_consumed a < ba_length a"

definition bytes_array_remaining :: "bytes_array \<Rightarrow> nat" where
  "bytes_array_remaining a = ba_length a - ba_consumed a"

definition bytes_pop_chunk :: "nat \<Rightarrow> bytes \<Rightarrow> (bytes \<times> nat) \<times> bytes" where
  "bytes_pop_chunk limit data =
    (let limit = min limit (length data) in
     if limit = 0 then (([], 0), data)
     else let chunk = take limit data; data = drop limit data
          in ((chunk, if data = [] then 1 else 0), data))"

section \<open>The state of a stream\<close>

record stream_state =
  ss_side :: side
  ss_max_payload_size :: u32
  ss_stream_identifier :: u16
  ss_default_payload_type :: payload_protocol_identifier
  ss_reassembly_queue :: reassembly_queue
  ss_sequence_number :: u16
  ss_state :: recv_send_state
  ss_unordered :: bool
  ss_reliability_type :: reliability_type
  ss_reliability_value :: u32
  ss_buffered_amount :: nat
  ss_buffered_amount_low :: nat
  ss_buffered_amount_high :: nat

definition ss_new :: "side \<Rightarrow> u16 \<Rightarrow> u32 \<Rightarrow> payload_protocol_identifier \<Rightarrow> stream_state" where
  "ss_new side si mps ppi =
    \<lparr>ss_side = side, ss_max_payload_size = mps, ss_stream_identifier = si,
     ss_default_payload_type = ppi, ss_reassembly_queue = rq_new si, ss_sequence_number = 0,
     ss_state = RsReadWritable, ss_unordered = False, ss_reliability_type = Reliable,
     ss_reliability_value = 0, ss_buffered_amount = 0, ss_buffered_amount_low = 0,
     ss_buffered_amount_high = 2 ^ 32 - 1\<rparr>"

definition ss_handle_data :: "instant \<Rightarrow> chunk_payload_data \<Rightarrow> stream_state \<Rightarrow> bool \<times> stream_state" where
  "ss_handle_data now pd s =
    (let (ok, q) = rq_push now pd (ss_reassembly_queue s) in (ok, s\<lparr>ss_reassembly_queue := q\<rparr>))"

definition ss_handle_forward_tsn_for_ordered :: "u16 \<Rightarrow> stream_state \<Rightarrow> stream_state" where
  "ss_handle_forward_tsn_for_ordered ssn s =
    (if ss_unordered s then s
     else s\<lparr>ss_reassembly_queue := rq_forward_tsn_for_ordered ssn (ss_reassembly_queue s)\<rparr>)"

definition ss_handle_forward_tsn_for_unordered :: "u32 \<Rightarrow> stream_state \<Rightarrow> stream_state" where
  "ss_handle_forward_tsn_for_unordered new_cumulative_tsn s =
    (if \<not> ss_unordered s then s
     else s\<lparr>ss_reassembly_queue := rq_forward_tsn_for_unordered new_cumulative_tsn (ss_reassembly_queue s)\<rparr>)"

text \<open>The fragmentation loop. With a maximal payload size of zero the loop would push
empty chunks forever; that is the result \<open>None\<close>.\<close>

definition packetize_chunk ::
    "stream_state \<Rightarrow> payload_protocol_identifier \<Rightarrow> bool \<Rightarrow> bytes \<Rightarrow> nat \<Rightarrow> nat \<Rightarrow> nat \<Rightarrow> chunk_payload_data" where
  "packetize_chunk s ppi unordered raw i remaining fragment_size =
    payload_data_default\<lparr>pd_stream_identifier := ss_stream_identifier s,
      pd_user_data := take fragment_size (drop i raw), pd_unordered := unordered,
      pd_beginning_fragment := (i = 0), pd_ending_fragment := (remaining - fragment_size = 0),
      pd_immediate_sack := False, pd_payload_type := ppi,
      pd_stream_sequence_number := ss_sequence_number s, pd_abandoned := False, pd_all_inflight := False\<rparr>"

function packetize_loop ::
    "stream_state \<Rightarrow> payload_protocol_identifier \<Rightarrow> bool \<Rightarrow> bytes \<Rightarrow> nat \<Rightarrow> nat \<Rightarrow> chunk_payload_data list option" where
  "packetize_loop s ppi unordered raw i remaining =
    (if remaining = 0 then Some []
     else
       let fragment_size = min (unat (ss_max_payload_size s)) remaining in
       if fragment_size = 0 then None
       else map_option ((#) (packetize_chunk s ppi unordered raw i remaining fragment_size))
              (packetize_loop s ppi unordered raw (i + fragment_size) (remaining - fragment_size)))"
  by pat_completeness auto
termination
  by (relation "measure (\<lambda>(_, _, _, _, _, remaining). remaining)") auto

declare packetize_loop.simps [simp del]

definition packetize ::
    "bytes \<Rightarrow> payload_protocol_identifier \<Rightarrow> stream_state \<Rightarrow> ((bool \<times> chunk_payload_data list) \<times> stream_state) option" where
  "packetize raw ppi s =
    (let unordered = (ppi \<noteq> PpiDcep \<and> ss_unordered s) in
     case packetize_loop s ppi unordered raw 0 (length raw) of
       None \<Rightarrow> None
     | Some chunks \<Rightarrow>
         let s = (if \<not> unordered then s\<lparr>ss_sequence_number := ss_sequence_number s + 1\<rparr> else s);
             old_amount = ss_buffered_amount s;
             s = s\<lparr>ss_buffered_amount := ss_buffered_amount s + length raw\<rparr>;
             new_amount = ss_buffered_amount s;
             is_buffered_amount_high =
               (old_amount < ss_buffered_amount_high s \<and> new_amount \<ge> ss_buffered_amount_high s)
         in Some ((is_buffered_amount_high, chunks), s))"

definition on_buffer_released :: "int \<Rightarrow> stream_state \<Rightarrow> bool \<times> stream_state" where
  "on_buffer_released n_bytes_released s =
    (if n_bytes_released \<le> 0 then (False, s)
     else
       let old_amount = ss_buffered_amount s;
           s = (if old_amount < nat n_bytes_released then s\<lparr>ss_buffered_amount := 0\<rparr>
                else s\<lparr>ss_buffered_amount := ss_buffered_amount s - nat n_bytes_released\<rparr>);
           new_amount = (if old_amount < nat n_bytes_released then 0 else old_amount - nat n_bytes_released)
       in (old_amount > ss_buffered_amount_low s \<and> new_amount \<le> ss_buffered_amount_low s, s))"

definition ss_get_num_bytes_in_reassembly_queue :: "stream_state \<Rightarrow> nat" where
  "ss_get_num_bytes_in_reassembly_queue s = rq_n_bytes (ss_reassembly_queue s)"

section \<open>Fragmentation\<close>

lemma packetize_loop_total: "0 < ss_max_payload_size s \<Longrightarrow> \<exists>cs. packetize_loop s ppi u raw i r = Some cs"
proof (induction s ppi u raw i r rule: packetize_loop.induct)
  case (1 s ppi u raw i r)
  let ?f = "min (unat (ss_max_payload_size s)) r"
  have "0 < unat (ss_max_payload_size s)" using 1(2) by (simp add: unat_gt_0 word_neq_0_conv)
  then have pos: "r \<noteq> 0 \<Longrightarrow> ?f \<noteq> 0" by simp
  show ?case
  proof (cases "r = 0")
    case False
    then obtain cs where "packetize_loop s ppi u raw (i + ?f) (r - ?f) = Some cs"
      using 1(1) [OF False refl pos [OF False] 1(2)] by auto
    then show ?thesis using False pos by (simp add: packetize_loop.simps [of s ppi u raw i r] Let_def)
  qed (simp add: packetize_loop.simps)
qed

lemma packetize_loop_step:
  assumes "packetize_loop s ppi u raw i r = Some cs" "r \<noteq> 0"
  obtains f ds where "f = min (unat (ss_max_payload_size s)) r" "0 < f" "f \<le> r"
    "packetize_loop s ppi u raw (i + f) (r - f) = Some ds" "cs = packetize_chunk s ppi u raw i r f # ds"
proof (rule that [OF refl])
  let ?f = "min (unat (ss_max_payload_size s)) r"
  show pos: "0 < ?f" using assms by (simp add: packetize_loop.simps [of s ppi u raw i r] Let_def split: if_splits)
  obtain ds where "packetize_loop s ppi u raw (i + ?f) (r - ?f) = Some ds" "cs = packetize_chunk s ppi u raw i r ?f # ds"
    using assms pos by (auto simp: packetize_loop.simps [of s ppi u raw i r] Let_def)
  then show "packetize_loop s ppi u raw (i + ?f) (r - ?f) = Some (tl cs)" "cs = packetize_chunk s ppi u raw i r ?f # tl cs"
    by simp_all
qed simp

text \<open>What a fragment of the message looks like, whatever its position.\<close>

definition fragment_of ::
    "stream_state \<Rightarrow> payload_protocol_identifier \<Rightarrow> bool \<Rightarrow> chunk_payload_data \<Rightarrow> bool" where
  "fragment_of s ppi u c \<longleftrightarrow> pd_stream_identifier c = ss_stream_identifier s \<and> pd_unordered c = u \<and>
     pd_stream_sequence_number c = ss_sequence_number s \<and> pd_payload_type c = ppi \<and>
     0 < length (pd_user_data c) \<and> length (pd_user_data c) \<le> unat (ss_max_payload_size s)"

lemma packetize_loop_fragments:
  assumes "packetize_loop s ppi u raw i r = Some cs" "i + r = length raw"
  shows "(\<forall>c\<in>set cs. fragment_of s ppi u c) \<and> concat (map pd_user_data cs) = drop i raw \<and>
    (cs = [] \<longleftrightarrow> r = 0) \<and> length cs \<le> r"
  using assms
proof (induction s ppi u raw i r arbitrary: cs rule: packetize_loop.induct)
  case (1 s ppi u raw i r)
  show ?case
  proof (cases "r = 0")
    case False
    from 1(2) False obtain f ds where f: "f = min (unat (ss_max_payload_size s)) r" "0 < f" "f \<le> r"
      and ds: "packetize_loop s ppi u raw (i + f) (r - f) = Some ds" "cs = packetize_chunk s ppi u raw i r f # ds"
      by (rule packetize_loop_step)
    have "(\<forall>c\<in>set ds. fragment_of s ppi u c) \<and> concat (map pd_user_data ds) = drop (i + f) raw \<and> length ds \<le> r - f"
      using 1(1) [OF False f(1) _ ds(1)] f 1(3) by simp
    moreover have "take f (drop i raw) @ drop (i + f) raw = drop i raw"
      by (metis add.commute append_take_drop_id drop_drop)
    moreover have "fragment_of s ppi u (packetize_chunk s ppi u raw i r f)"
      using f 1(3) by (auto simp: fragment_of_def packetize_chunk_def)
    ultimately show ?thesis using ds(2) f False by (simp add: packetize_chunk_def) linarith
  qed (use 1 in \<open>simp add: packetize_loop.simps\<close>)
qed

lemma packetize_loop_flags:
  assumes "packetize_loop s ppi u raw i r = Some cs" "k < length cs"
  shows "(pd_beginning_fragment (cs ! k) \<longleftrightarrow> i = 0 \<and> k = 0) \<and> (pd_ending_fragment (cs ! k) \<longleftrightarrow> k = length cs - 1)"
  using assms
proof (induction s ppi u raw i r arbitrary: cs k rule: packetize_loop.induct)
  case (1 s ppi u raw i r)
  show ?case
  proof (cases "r = 0")
    case False
    from 1(2) False obtain f ds where f: "f = min (unat (ss_max_payload_size s)) r" "0 < f" "f \<le> r"
      and ds: "packetize_loop s ppi u raw (i + f) (r - f) = Some ds" "cs = packetize_chunk s ppi u raw i r f # ds"
      by (rule packetize_loop_step)
    have empty: "ds = [] \<longleftrightarrow> r - f = 0"
      using ds(1) by (auto simp: packetize_loop.simps [of s ppi u raw "i + f" "r - f"] Let_def split: if_splits)
    show ?thesis
    proof (cases k)
      case 0
      then show ?thesis using ds(2) empty by (auto simp: packetize_chunk_def)
    next
      case (Suc j)
      then have "j < length ds" using 1(3) ds(2) by simp
      then show ?thesis using 1(1) [OF False f(1) _ ds(1), of j] f ds(2) Suc by auto
    qed
  qed (use 1 in \<open>simp add: packetize_loop.simps\<close>)
qed

section \<open>From packetize to the peer's read\<close>

text \<open>Fragments leave the pending queue in order and get consecutive TSNs when they are
moved to the inflight queue.\<close>

fun assign_tsns :: "u32 \<Rightarrow> chunk_payload_data list \<Rightarrow> chunk_payload_data list" where
  "assign_tsns t [] = []"
| "assign_tsns t (c # cs) = c\<lparr>pd_tsn := t\<rparr> # assign_tsns (t + 1) cs"

lemma length_assign_tsns [simp]: "length (assign_tsns t cs) = length cs"
  by (induction cs arbitrary: t) auto

lemma assign_tsns_nth: "i < length cs \<Longrightarrow> assign_tsns t cs ! i = (cs ! i)\<lparr>pd_tsn := t + of_nat i\<rparr>"
  by (induction cs arbitrary: t i) (auto simp: nth_Cons split: nat.split)

lemma assign_tsns_data [simp]: "map pd_user_data (assign_tsns t cs) = map pd_user_data cs"
  by (induction cs arbitrary: t) auto

lemma data_bytes_concat: "data_bytes cs = length (concat (map pd_user_data cs))"
  by (induction cs) simp_all

lemma fragment_of_tsn: "fragment_of s ppi u (c\<lparr>pd_tsn := t\<rparr>) = fragment_of s ppi u c"
  by (simp add: fragment_of_def)

lemma assign_tsns_fragments:
  "\<forall>c\<in>set cs. fragment_of s ppi u c \<Longrightarrow> \<forall>c\<in>set (assign_tsns t cs). fragment_of s ppi u c"
  by (induction cs arbitrary: t) (simp_all add: fragment_of_tsn)

lemma packetize_loop_empty: "packetize_loop s ppi u raw i 0 = Some []"
  by (simp add: packetize_loop.simps)

lemma packetize_message:
  assumes "packetize_loop s ppi u raw 0 (length raw) = Some cs" "raw \<noteq> []" "length raw < 2 ^ 31"
  shows "is_message t0 (assign_tsns t0 cs)"
proof -
  have "cs \<noteq> []" "length cs < 2 ^ 31" using packetize_loop_fragments [OF assms(1)] assms(2,3) by auto
  moreover have "pd_beginning_fragment (cs ! i) \<longleftrightarrow> i = 0" "pd_ending_fragment (cs ! i) \<longleftrightarrow> i = length cs - 1"
    if "i < length cs" for i using packetize_loop_flags [OF assms(1) that] by auto
  ultimately show ?thesis by (auto simp: is_message_def assign_tsns_nth) (metis length_0_conv length_assign_tsns)
qed

lemma packetize_cases:
  assumes "packetize raw ppi s = Some ((hi, cs), s')"
  shows "packetize_loop s ppi (ppi \<noteq> PpiDcep \<and> ss_unordered s) raw 0 (length raw) = Some cs"
    "ss_buffered_amount s' = ss_buffered_amount s + length raw"
    "ss_sequence_number s' = (if ppi \<noteq> PpiDcep \<and> ss_unordered s then ss_sequence_number s else ss_sequence_number s + 1)"
  using assms by (auto simp: packetize_def Let_def split: option.splits if_splits)

text \<open>C13. End to end over one stream. The fragments that \<open>packetize\<close> makes of a non-empty
message, numbered with consecutive TSNs and pushed in any arrival order on the reassembly
queue of a peer that expects the sender's sequence number, are read back as one message
whose payload is the message that was written, for ordered and unordered streams, every
maximal payload size and across TSN wrap-around.\<close>

theorem packetize_reassemble:
  assumes "packetize raw ppi s = Some ((hi, cs), s')" "raw \<noteq> []" "length raw < 2 ^ 31"
    and "mset (map snd arr) = mset (assign_tsns t0 cs)"
    and "rq_si q = ss_stream_identifier s" "rq_next_ssn q = ss_sequence_number s"
    and "rq_ordered q = []" "rq_unordered q = []" "rq_unordered_chunks q = []"
  shows "\<exists>m q'. rq_read (rq_push_all arr q) = (Some m, q') \<and> chunks_to_payload (length raw) m = Ok raw"
proof -
  let ?u = "ppi \<noteq> PpiDcep \<and> ss_unordered s" and ?fs = "assign_tsns t0 cs"
  note loop = packetize_cases(1) [OF assms(1)]
  have "\<forall>c\<in>set cs. fragment_of s ppi ?u c" and data: "concat (map pd_user_data ?fs) = raw"
    using packetize_loop_fragments [OF loop] by simp_all
  then have frags: "\<forall>c\<in>set ?fs. fragment_of s ppi ?u c" by (intro assign_tsns_fragments)
  have "\<forall>c\<in>set ?fs. pd_stream_identifier c = rq_si q \<and> pd_unordered c = ?u \<and> (?u \<or> pd_stream_sequence_number c = rq_next_ssn q)"
    using frags unfolding fragment_of_def assms(5,6) by blast
  from rq_any_order [OF packetize_message [OF loop assms(2,3)] assms(4) this assms(7-9), of "length raw"]
  obtain m q' where "rq_read (rq_push_all arr q) = (Some m, q')" "chunks_to_payload (length raw) m =
      (if length raw < data_bytes ?fs then Fail ErrShortBuffer else Ok (concat (map pd_user_data ?fs)))"
    by blast
  moreover have "data_bytes ?fs = length raw" using data by (simp only: data_bytes_concat)
  ultimately show ?thesis using data by (metis less_irrefl)
qed

text \<open>\<open>packetize\<close> terminates whenever the maximal payload size is positive; its fragments
are non-empty, at most of that size, carry the stream's identifier and sequence number,
and their data is the message. The buffered amount grows by the message size and the
sequence number advances by one exactly for ordered messages (all DCEP messages among
them).\<close>

theorem packetize_fragments:
  assumes "0 < ss_max_payload_size s"
  shows "\<exists>hi cs s'. packetize raw ppi s = Some ((hi, cs), s') \<and> concat (map pd_user_data cs) = raw \<and>
    (\<forall>c\<in>set cs. fragment_of s ppi (ppi \<noteq> PpiDcep \<and> ss_unordered s) c) \<and>
    ss_buffered_amount s' = ss_buffered_amount s + length raw \<and>
    ss_sequence_number s' =
      (if ppi \<noteq> PpiDcep \<and> ss_unordered s then ss_sequence_number s else ss_sequence_number s + 1)"
proof -
  obtain cs where loop: "packetize_loop s ppi (ppi \<noteq> PpiDcep \<and> ss_unordered s) raw 0 (length raw) = Some cs"
    using packetize_loop_total [OF assms] by blast
  then obtain hi s' where p: "packetize raw ppi s = Some ((hi, cs), s')"
    by (auto simp: packetize_def Let_def)
  from packetize_loop_fragments [OF loop] packetize_cases(2,3) [OF p] p show ?thesis by auto
qed

text \<open>An empty message.\<close>

definition behind :: "u16 \<Rightarrow> reassembly_queue \<Rightarrow> bool" where
  "behind ssn q \<longleftrightarrow> rq_unordered q = [] \<and> rq_next_ssn q = ssn \<and> (\<forall>s\<in>set (rq_ordered q). ck_ssn s = ssn + 1)"

lemma behind_push:
  assumes "behind ssn q" "pd_stream_sequence_number c = ssn + 1" "\<not> pd_unordered c"
  shows "behind ssn (snd (rq_push now c q))"
proof (cases "pd_stream_identifier c = rq_si q \<and> \<not> sna16lt (ssn + 1) ssn")
  case True
  let ?idx = "partition_point (\<lambda>s. sna16lt (ck_ssn s) (ssn + 1)) (rq_ordered q)"
  obtain ok s' where p: "chunks_push c (rq_ordered q ! ?idx) = (ok, s')" by fastforce
  obtain ok2 s2 where p2: "chunks_push c (chunks_new now (ssn + 1) (pd_payload_type c) []) = (ok2, s2)" by fastforce
  have "ck_ssn s2 = ssn + 1" using chunks_push_ssn [OF p2] by (simp add: chunks_new_def)
  then show ?thesis using True assms p p2 chunks_push_ssn [OF p]
    by (auto simp: behind_def rq_push_def Let_def dest!: set_update_subset_insert [THEN subsetD])
next
  case False
  then show ?thesis using assms by (auto simp: rq_push_def behind_def)
qed

lemma behind_push_all:
  "behind ssn q \<Longrightarrow> \<forall>a\<in>set arr. pd_stream_sequence_number (snd a) = ssn + 1 \<and> \<not> pd_unordered (snd a) \<Longrightarrow>
   behind ssn (rq_push_all arr q)"
  unfolding rq_push_all_def
  by (induction arr arbitrary: q) (auto simp: behind_push split: prod.split)

lemma behind_not_readable: "behind ssn q \<Longrightarrow> \<not> rq_is_readable q"
  using sna16.lte_dist [of "ssn + 1" ssn] unsigned_minus_1_eq_mask [where 'b = 16 and 'a = nat]
  by (cases "rq_ordered q") (auto simp: behind_def rq_is_readable_def Let_def mask_eq_exp_minus_1)

text \<open>C29. Writing an empty message on an ordered stream uses up a sequence number without
sending anything. A peer that has received everything up to then waits for that number:
no matter how the fragments of the next message arrive, and how often, the stream is
never readable again.\<close>

theorem empty_write_blocks_stream:
  assumes "packetize [] ppi s = Some ((hi, cs0), s1)" "ppi = PpiDcep \<or> \<not> ss_unordered s"
    and "packetize raw ppi s1 = Some ((hi', cs), s2)" "set (map snd arr) \<subseteq> set (assign_tsns t0 cs)"
    and "rq_next_ssn q = ss_sequence_number s" "rq_ordered q = []" "rq_unordered q = []"
  shows "cs0 = [] \<and> \<not> rq_is_readable (rq_push_all arr q)"
proof -
  have s1: "ss_sequence_number s1 = ss_sequence_number s + 1" "ss_unordered s1 = ss_unordered s" "cs0 = []"
    using assms(1,2) by (auto simp: packetize_def packetize_loop_empty Let_def)
  have u: "(ppi \<noteq> PpiDcep \<and> ss_unordered s1) = False" using assms(2) s1(2) by blast
  have "\<forall>c\<in>set cs. fragment_of s1 ppi False c"
    using packetize_loop_fragments [OF packetize_cases(1) [OF assms(3)]] unfolding u by simp
  then have "\<forall>c\<in>set (assign_tsns t0 cs). pd_stream_sequence_number c = rq_next_ssn q + 1 \<and> \<not> pd_unordered c"
    using assign_tsns_fragments [of cs s1 ppi False t0] s1(1) assms(5) by (simp add: fragment_of_def)
  then have "\<forall>a\<in>set arr. pd_stream_sequence_number (snd a) = rq_next_ssn q + 1 \<and> \<not> pd_unordered (snd a)"
    using assms(4) by auto
  then have "behind (rq_next_ssn q) (rq_push_all arr q)"
    using assms(6,7) by (intro behind_push_all) (auto simp: behind_def)
  then show ?thesis using behind_not_readable s1(3) by blast
qed

definition stream_sample :: stream_state where
  "stream_sample = ss_new Client 4 2 PpiBinary"

lemma stream_sample_packetize:
  "packetize [1, 2, 3] PpiBinary stream_sample =
    Some ((False, [payload_data_default\<lparr>pd_stream_identifier := 4, pd_user_data := [1, 2],
        pd_beginning_fragment := True, pd_payload_type := PpiBinary\<rparr>,
      payload_data_default\<lparr>pd_stream_identifier := 4, pd_user_data := [3],
        pd_ending_fragment := True, pd_payload_type := PpiBinary\<rparr>]),
      stream_sample\<lparr>ss_sequence_number := 1, ss_buffered_amount := 3\<rparr>)"
  by (simp add: packetize_def stream_sample_def ss_new_def packetize_loop.simps packetize_chunk_def
      payload_data_default_def Let_def)

theorem packetize_reassemble_witness:
  "\<exists>m q'. rq_read (rq_push_all
      [(9, payload_data_default\<lparr>pd_tsn := 0, pd_stream_identifier := 4, pd_user_data := [3],
          pd_ending_fragment := True, pd_payload_type := PpiBinary\<rparr>),
       (8, payload_data_default\<lparr>pd_tsn := - 1, pd_stream_identifier := 4, pd_user_data := [1, 2],
          pd_beginning_fragment := True, pd_payload_type := PpiBinary\<rparr>)] (rq_new 4)) = (Some m, q') \<and>
     chunks_to_payload 3 m = Ok [1, 2, 3]"
  using packetize_reassemble [OF stream_sample_packetize, of
      "[(9, payload_data_default\<lparr>pd_tsn := 0, pd_stream_identifier := 4, pd_user_data := [3],
          pd_ending_fragment := True, pd_payload_type := PpiBinary\<rparr>),
        (8, payload_data_default\<lparr>pd_tsn := - 1, pd_stream_identifier := 4, pd_user_data := [1, 2],
          pd_beginning_fragment := True, pd_payload_type := PpiBinary\<rparr>)]" "- 1" "rq_new 4"]
  by (simp add: payload_data_default_def stream_sample_def ss_new_def rq_new_def numeral_3_eq_3)

theorem packetize_fragments_witness:
  "\<exists>hi cs s'. packetize [1, 2, 3] PpiBinary stream_sample = Some ((hi, cs), s') \<and>
     concat (map pd_user_data cs) = [1, 2, 3] \<and> ss_sequence_number s' = 1"
proof -
  have "0 < ss_max_payload_size stream_sample" by (simp add: stream_sample_def ss_new_def)
  from packetize_fragments [OF this, of "[1, 2, 3]" PpiBinary]
  obtain hi cs s' where "packetize [1, 2, 3] PpiBinary stream_sample = Some ((hi, cs), s')"
    "concat (map pd_user_data cs) = [1, 2, 3]"
    "ss_sequence_number s' = (if PpiBinary \<noteq> PpiDcep \<and> ss_unordered stream_sample
       then ss_sequence_number stream_sample else ss_sequence_number stream_sample + 1)"
    by blast
  moreover from this(3) have "ss_sequence_number s' = 1" by (simp add: stream_sample_def ss_new_def)
  ultimately show ?thesis by blast
qed

theorem empty_write_blocks_stream_witness:
  "\<not> rq_is_readable (rq_push_all
      [(9, payload_data_default\<lparr>pd_tsn := 0, pd_stream_identifier := 4, pd_user_data := [5],
        pd_stream_sequence_number := 1, pd_beginning_fragment := True, pd_ending_fragment := True,
        pd_payload_type := PpiBinary\<rparr>)] (rq_new 4))"
proof -
  let ?s1 = "stream_sample\<lparr>ss_sequence_number := 1\<rparr>"
  let ?c = "payload_data_default\<lparr>pd_stream_identifier := 4, pd_user_data := [5],
    pd_stream_sequence_number := 1, pd_beginning_fragment := True, pd_ending_fragment := True,
    pd_payload_type := PpiBinary\<rparr>"
  have p: "packetize [] PpiBinary stream_sample = Some ((False, []), ?s1)"
    "packetize [5] PpiBinary ?s1 = Some ((False, [?c]), ?s1\<lparr>ss_sequence_number := 2, ss_buffered_amount := 1\<rparr>)"
    by (simp_all add: packetize_def stream_sample_def ss_new_def packetize_loop.simps packetize_chunk_def
        payload_data_default_def Let_def)
  show ?thesis
    using empty_write_blocks_stream [OF p(1) _ p(2), of "[(9, ?c\<lparr>pd_tsn := 0\<rparr>)]" 0 "rq_new 4"]
    by (simp add: payload_data_default_def stream_sample_def ss_new_def rq_new_def)
qed

end
