(* ===== verification/Sctp_Timer.thy ===== *)
theory Sctp_Timer
  imports Rtc_Prelude Complex_Main
begin

text \<open>The timers of an association (\<open>rtc-sctp/src/association/timer.rs\<close>): the table of
the six retransmission timers with their back-off, and the RTO estimator of RFC 4960
section 6.3.1. The three arrays indexed by \<open>Timer\<close> are functions on the enumeration.
Instants are nanoseconds, intervals milliseconds. The estimator's \<open>f64\<close> field is a
rational that is rounded to a double after every operation.\<close>

section \<open>Double-precision arithmetic\<close>

text \<open>Round to nearest, ties to even, on the 53-bit grid (64-bit IEEE 754 without the
overflow to infinity, which the magnitudes of the estimator do not reach).\<close>

definition round_half_even :: "rat \<Rightarrow> int" where
  "round_half_even x =
    (let n = \<lfloor>x\<rfloor>; r = x - of_int n in
     if r < 1 / 2 then n else if r > 1 / 2 then n + 1 else if even n then n else n + 1)"

text \<open>The position of the leading bit of a positive integer.\<close>

fun log2_nat :: "nat \<Rightarrow> nat" where
  "log2_nat n = (if n < 2 then 0 else Suc (log2_nat (n div 2)))"

declare log2_nat.simps [simp del]

definition pow2 :: "int \<Rightarrow> rat" where
  "pow2 e = power_int 2 e"

text \<open>The exponent of the grid on which \<open>x > 0\<close> is rounded: \<open>2 ^ 52 \<le> x / 2 ^ e < 2 ^ 53\<close>,
or the smallest exponent for subnormal numbers.\<close>

definition grid_exponent :: "rat \<Rightarrow> int" where
  "grid_exponent x =
    (let (n, d) = quotient_of x;
         e = int (log2_nat (nat n)) - int (log2_nat (nat d)) - 52;
         e = (if x < pow2 (e + 52) then e - 1 else e)
     in max e (- 1074))"

definition f64_round :: "rat \<Rightarrow> rat" where
  "f64_round x =
    (if x = 0 then 0
     else let e = grid_exponent \<bar>x\<bar> in sgn x * (of_int (round_half_even (\<bar>x\<bar> / pow2 e)) * pow2 e))"

definition f64_of_int :: "int \<Rightarrow> rat" where
  "f64_of_int n = f64_round (of_int n)"

definition f64_add :: "rat \<Rightarrow> rat \<Rightarrow> rat" where "f64_add x y = f64_round (x + y)"

definition f64_mul :: "rat \<Rightarrow> rat \<Rightarrow> rat" where "f64_mul x y = f64_round (x * y)"

definition f64_div :: "rat \<Rightarrow> rat \<Rightarrow> rat" where "f64_div x y = f64_round (x / y)"

text \<open>The cast \<open>as u64\<close> truncates and saturates; \<open>i64::abs\<close> wraps at the minimum.\<close>

definition u64_of_f64 :: "rat \<Rightarrow> u64" where
  "u64_of_f64 x = (if x < 0 then 0 else if \<lfloor>x\<rfloor> \<ge> 2 ^ 64 then - 1 else of_int \<lfloor>x\<rfloor>)"

definition i64_abs_diff :: "u64 \<Rightarrow> u64 \<Rightarrow> int" where
  "i64_abs_diff a b = (let d = sint (a - b) in if d = - (2 ^ 63) then d else \<bar>d\<bar>)"

section \<open>The timer table\<close>

definition ACK_INTERVAL :: u64 where "ACK_INTERVAL = 200"
definition MAX_INIT_RETRANS :: nat where "MAX_INIT_RETRANS = 8"
definition PATH_MAX_RETRANS :: nat where "PATH_MAX_RETRANS = 5"
definition NO_MAX_RETRANS :: nat where "NO_MAX_RETRANS = 2 ^ 64 - 1"

datatype timer = T1Init | T1Cookie | T2Shutdown | T3RTX | Reconfig | Ack

definition timer_values :: "timer list" where
  "timer_values = [T1Init, T1Cookie, T2Shutdown, T3RTX, Reconfig, Ack]"

record timer_config =
  max_t1_init_retrans :: nat
  max_t1_cookie_retrans :: nat
  max_t2_shutdown_retrans :: nat
  max_t3_rtx_retrans :: nat
  max_reconfig_retrans :: nat
  max_ack_retrans :: nat

definition timer_config_default :: timer_config where
  "timer_config_default =
    \<lparr>max_t1_init_retrans = MAX_INIT_RETRANS, max_t1_cookie_retrans = MAX_INIT_RETRANS,
     max_t2_shutdown_retrans = NO_MAX_RETRANS, max_t3_rtx_retrans = PATH_MAX_RETRANS,
     max_reconfig_retrans = PATH_MAX_RETRANS, max_ack_retrans = PATH_MAX_RETRANS\<rparr>"

record timer_table =
  tt_data :: "timer \<Rightarrow> instant option"
  tt_retrans :: "timer \<Rightarrow> nat"
  tt_max_retrans :: "timer \<Rightarrow> nat"

fun max_retrans_of :: "timer_config \<Rightarrow> timer \<Rightarrow> nat" where
  "max_retrans_of c T1Init = max_t1_init_retrans c"
| "max_retrans_of c T1Cookie = max_t1_cookie_retrans c"
| "max_retrans_of c T2Shutdown = max_t2_shutdown_retrans c"
| "max_retrans_of c T3RTX = max_t3_rtx_retrans c"
| "max_retrans_of c Reconfig = max_reconfig_retrans c"
| "max_retrans_of c Ack = max_ack_retrans c"

definition tt_new :: "timer_config \<Rightarrow> timer_table" where
  "tt_new c = \<lparr>tt_data = (\<lambda>_. None), tt_retrans = (\<lambda>_. 0), tt_max_retrans = max_retrans_of c\<rparr>"

definition tt_set :: "timer \<Rightarrow> instant option \<Rightarrow> timer_table \<Rightarrow> timer_table" where
  "tt_set t time tt = tt\<lparr>tt_data := (tt_data tt)(t := time)\<rparr>"

definition tt_get :: "timer \<Rightarrow> timer_table \<Rightarrow> instant option" where
  "tt_get t tt = tt_data tt t"

definition tt_next_timeout :: "timer_table \<Rightarrow> instant option" where
  "tt_next_timeout tt =
    (case List.map_filter (tt_data tt) timer_values of
       [] \<Rightarrow> None
     | x # xs \<Rightarrow> Some (fold min xs x))"

definition RTO_INITIAL :: u64 where "RTO_INITIAL = 3000"
definition RTO_MIN :: u64 where "RTO_MIN = 1000"
definition RTO_MAX :: u64 where "RTO_MAX = 60000"
definition RTO_ALPHA :: u64 where "RTO_ALPHA = 1"
definition RTO_BETA :: u64 where "RTO_BETA = 2"
definition RTO_BASE :: u64 where "RTO_BASE = 8"

definition calculate_next_timeout :: "u64 \<Rightarrow> nat \<Rightarrow> u64" where
  "calculate_next_timeout rto n_rtos = (if n_rtos < 31 then min (push_bit n_rtos rto) RTO_MAX else RTO_MAX)"

definition from_millis :: "u64 \<Rightarrow> nat" where
  "from_millis ms = unat ms * 1000000"

definition tt_start :: "timer \<Rightarrow> instant \<Rightarrow> u64 \<Rightarrow> timer_table \<Rightarrow> timer_table" where
  "tt_start t now interval tt =
    (let interval = (if t = Ack then interval else calculate_next_timeout interval (tt_retrans tt t));
         time = now + from_millis interval
     in tt\<lparr>tt_data := (tt_data tt)(t := Some time)\<rparr>)"

definition tt_restart_if_stale :: "timer \<Rightarrow> instant \<Rightarrow> u64 \<Rightarrow> timer_table \<Rightarrow> timer_table" where
  "tt_restart_if_stale t now interval tt =
    (case tt_data tt t of
       Some current \<Rightarrow> if current \<ge> now then tt else tt_start t now interval tt
     | None \<Rightarrow> tt_start t now interval tt)"

definition tt_stop :: "timer \<Rightarrow> timer_table \<Rightarrow> timer_table" where
  "tt_stop t tt = tt\<lparr>tt_data := (tt_data tt)(t := None), tt_retrans := (tt_retrans tt)(t := 0)\<rparr>"

definition tt_is_expired :: "timer \<Rightarrow> instant \<Rightarrow> timer_table \<Rightarrow> (bool \<times> bool \<times> nat) \<times> timer_table" where
  "tt_is_expired t after tt =
    (let expired = (case tt_data tt t of Some x \<Rightarrow> x \<le> after | None \<Rightarrow> False);
         tt = (if expired then tt\<lparr>tt_retrans := (tt_retrans tt)(t := tt_retrans tt t + 1)\<rparr> else tt);
         failure = (expired \<and> tt_retrans tt t > tt_max_retrans tt t)
     in ((expired, failure, tt_retrans tt t), tt))"

section \<open>The RTO estimator\<close>

record rto_manager =
  rm_srtt :: u64
  rm_rttvar :: rat
  rm_rto :: u64
  rm_no_update :: bool

definition rto_new :: rto_manager where
  "rto_new = \<lparr>rm_srtt = 0, rm_rttvar = 0, rm_rto = RTO_INITIAL, rm_no_update = False\<rparr>"

definition clamp_u64 :: "u64 \<Rightarrow> u64 \<Rightarrow> u64 \<Rightarrow> u64" where
  "clamp_u64 x lo hi = (if x < lo then lo else if x > hi then hi else x)"

definition rto_set_new_rtt :: "u64 \<Rightarrow> rto_manager \<Rightarrow> u64 \<times> rto_manager" where
  "rto_set_new_rtt rtt m =
    (if rm_no_update m then (rm_srtt m, m)
     else
       let m = (if rm_srtt m = 0
                then m\<lparr>rm_srtt := rtt, rm_rttvar := f64_div (f64_of_int (uint rtt)) 2\<rparr>
                else m\<lparr>rm_rttvar :=
                         f64_div (f64_add (f64_mul (f64_of_int (uint (RTO_BASE - RTO_BETA))) (rm_rttvar m))
                                          (f64_mul (f64_of_int (uint RTO_BETA)) (f64_of_int (i64_abs_diff (rm_srtt m) rtt))))
                                 (f64_of_int (uint RTO_BASE)),
                       rm_srtt := ((RTO_BASE - RTO_ALPHA) * rm_srtt m + RTO_ALPHA * rtt) div RTO_BASE\<rparr>);
           m = m\<lparr>rm_rto := clamp_u64 (rm_srtt m + u64_of_f64 (f64_mul 4 (rm_rttvar m))) RTO_MIN RTO_MAX\<rparr>
       in (rm_srtt m, m))"

definition rto_get_rto :: "rto_manager \<Rightarrow> u64" where
  "rto_get_rto m = rm_rto m"

definition rto_reset :: "rto_manager \<Rightarrow> rto_manager" where
  "rto_reset m = (if rm_no_update m then m else m\<lparr>rm_srtt := 0, rm_rttvar := 0, rm_rto := RTO_INITIAL\<rparr>)"

definition rto_set_rto :: "u64 \<Rightarrow> bool \<Rightarrow> rto_manager \<Rightarrow> rto_manager" where
  "rto_set_rto rto no_update m = m\<lparr>rm_rto := rto, rm_no_update := no_update\<rparr>"

section \<open>Exactness of the rounding\<close>

lemma pow2_add: "pow2 (a + b) = pow2 a * pow2 b"
  by (simp add: pow2_def power_int_add)

lemma pow2_pos [simp]: "0 < pow2 e"
  by (simp add: pow2_def)

lemma pow2_nat: "pow2 (int n) = 2 ^ n"
  by (simp add: pow2_def)

lemma pow2_less: "pow2 a < pow2 b \<Longrightarrow> a < b"
  by (rule ccontr) (simp add: pow2_def not_less power_int_increasing leD)

lemma log2_nat_bounds: "0 < n \<Longrightarrow> 2 ^ log2_nat n \<le> n \<and> n < 2 ^ Suc (log2_nat n)"
proof (induction n rule: log2_nat.induct)
  case (1 n)
  show ?case
  proof (cases "n < 2")
    case True
    then show ?thesis using 1(2) by (simp add: log2_nat.simps)
  next
    case False
    then have "2 ^ log2_nat (n div 2) \<le> n div 2 \<and> n div 2 < 2 ^ Suc (log2_nat (n div 2))"
      using 1(1) by simp
    moreover have "log2_nat n = Suc (log2_nat (n div 2))" using False by (simp add: log2_nat.simps [of n])
    ultimately show ?thesis by auto
  qed
qed

lemma grid_exponent_lower:
  assumes "0 < x" "grid_exponent x \<noteq> - 1074"
  shows "pow2 (grid_exponent x + 52) \<le> x"
proof -
  obtain n d where q: "quotient_of x = (n, d)" by fastforce
  have d: "0 < d" using q by (rule quotient_of_denom_pos)
  have x: "x = of_int n / of_int d" using q by (rule quotient_of_div)
  have n: "0 < n" using assms(1) d x by (simp add: zero_less_divide_iff)
  define a b where "a = log2_nat (nat n)" and "b = log2_nat (nat d)"
  have "2 ^ a \<le> nat n" "nat d < 2 ^ Suc b"
    using log2_nat_bounds [of "nat n"] log2_nat_bounds [of "nat d"] n d by (simp_all add: a_def b_def)
  then have nat_ineqs: "(2 ^ a :: int) \<le> n" "d < 2 ^ Suc b" using n d
    by (simp_all flip: nat_less_numeral_power_cancel_iff add: le_nat_iff nat_less_iff)
  have "(2 ^ a :: rat) \<le> of_int n" "(of_int d :: rat) < 2 ^ Suc b"
    using nat_ineqs by (metis of_int_le_iff of_int_power of_int_numeral)
      (use nat_ineqs in \<open>metis of_int_less_iff of_int_power of_int_numeral\<close>)
  then have "pow2 (int a) \<le> of_int n" "of_int d < pow2 (int b + 1)"
    by (simp_all add: pow2_nat pow2_add [of "int b" 1]) (simp add: pow2_def)
  then have "pow2 (int a) / pow2 (int b + 1) \<le> x"
    unfolding x using d n by (intro frac_le) auto
  moreover have "pow2 (int a) = pow2 (int a - int b - 1) * pow2 (int b + 1)" by (simp flip: pow2_add)
  ultimately have low: "pow2 (int a - int b - 1) \<le> x" by (simp add: less_imp_neq [OF pow2_pos, symmetric])
  show ?thesis using assms(2) low
    by (auto simp: grid_exponent_def q Let_def a_def [symmetric] b_def [symmetric] max_def algebra_simps split: if_splits)
qed

lemma round_half_even_int [simp]: "round_half_even (of_int n) = n"
  by (simp add: round_half_even_def)

lemma round_pos:
  "0 < x \<Longrightarrow> f64_round x = of_int (round_half_even (x / pow2 (grid_exponent x))) * pow2 (grid_exponent x)"
  by (simp add: f64_round_def Let_def)

lemma f64_round_exact:
  assumes "0 \<le> m" "m < 2 ^ 53" "- 1074 \<le> k"
  shows "f64_round (of_int m * pow2 k) = of_int m * pow2 k"
proof (cases "m = 0")
  case False
  let ?x = "of_int m * pow2 k"
  let ?e = "grid_exponent ?x"
  have pos: "0 < ?x" using assms(1) False by simp
  have "?e \<le> k"
  proof (cases "?e = - 1074")
    case False
    have "pow2 (?e + 52) \<le> ?x" using grid_exponent_lower [OF pos False] .
    also have "?x < pow2 (53 + k)"
    proof -
      have "(of_int m :: rat) < of_int (2 ^ 53)" using assms(2) by (simp only: of_int_less_iff)
      then have "of_int m * pow2 k < 2 ^ 53 * pow2 k" by simp
      then show ?thesis using pow2_add [of 53 k] pow2_nat [of 53] by simp
    qed
    finally show ?thesis by (auto dest: pow2_less)
  qed (use assms in simp)
  then obtain j where j: "k = ?e + int j" by (metis zle_iff_zadd)
  define e where "e = ?e"
  have k: "pow2 k = pow2 e * 2 ^ j" using j pow2_add [of e "int j"] pow2_nat [of j] by (simp add: e_def)
  have ne: "pow2 e \<noteq> 0" by (simp add: pow2_def)
  have "?x / pow2 e = of_int (m * 2 ^ j)" by (simp add: k ne)
  then have r: "round_half_even (?x / pow2 e) = m * 2 ^ j" by (simp only: round_half_even_int)
  have "f64_round ?x = of_int (round_half_even (?x / pow2 e)) * pow2 e"
    using round_pos [OF pos] by (simp add: e_def)
  also have "\<dots> = ?x" unfolding r by (simp add: k)
  finally show ?thesis .
qed (simp add: f64_round_def)

lemma f64_of_int_exact: "0 \<le> m \<Longrightarrow> m < 2 ^ 53 \<Longrightarrow> f64_of_int m = of_int m"
  using f64_round_exact [of m 0] by (simp add: f64_of_int_def pow2_def)


lemma f64_round_half: "0 \<le> m \<Longrightarrow> m < 2 ^ 53 \<Longrightarrow> f64_round (of_int m / 2) = of_int m / 2"
  using f64_round_exact [of m "- 1"] by (simp add: pow2_def field_simps)

lemma uint_u64_bound: "uint (x :: u64) < 2 ^ 64"
  using uint_lt2p [of x] by simp

section \<open>Back-off\<close>

lemma calculate_next_timeout_unat:
  assumes "RTO_MIN \<le> rto" "rto \<le> RTO_MAX"
  shows "unat (calculate_next_timeout rto n) = min (unat rto * 2 ^ n) 60000"
proof -
  have b: "1000 \<le> unat rto" "unat rto \<le> 60000"
    using assms by (simp_all add: RTO_MIN_def RTO_MAX_def word_le_nat_alt)
  show ?thesis
  proof (cases "n < 31")
    case True
    have "unat rto * 2 ^ n \<le> 60000 * 2 ^ 30" using b True by (intro mult_mono power_increasing) auto
    then have "unat rto * 2 ^ n < 2 ^ 64" by simp
    then have "unat (push_bit n rto) = unat rto * 2 ^ n"
      unfolding unsigned_push_bit_eq by (simp add: push_bit_eq_mult take_bit_nat_eq_self)
    then show ?thesis using True
      by (simp add: calculate_next_timeout_def RTO_MAX_def min_def word_le_nat_alt)
  next
    case False
    have "60000 \<le> 1000 * (2 ^ 31 :: nat)" by simp
    also have "\<dots> \<le> unat rto * 2 ^ n" using b False by (intro mult_mono power_increasing) auto
    finally show ?thesis using False by (simp add: calculate_next_timeout_def RTO_MAX_def)
  qed
qed

datatype rto_op = Measure u64 | ResetRto

fun rto_step :: "rto_op \<Rightarrow> rto_manager \<Rightarrow> rto_manager" where
  "rto_step (Measure rtt) m = snd (rto_set_new_rtt rtt m)"
| "rto_step ResetRto m = rto_reset m"

definition rto_bounded :: "rto_manager \<Rightarrow> bool" where
  "rto_bounded m \<longleftrightarrow> RTO_MIN \<le> rm_rto m \<and> rm_rto m \<le> RTO_MAX"

lemma clamp_u64_bounds: "lo \<le> hi \<Longrightarrow> lo \<le> clamp_u64 x lo hi \<and> clamp_u64 x lo hi \<le> hi"
  by (auto simp: clamp_u64_def not_less)

lemma rto_step_bounded: "rto_bounded m \<Longrightarrow> rto_bounded (rto_step op m)"
proof (cases op)
  case (Measure rtt)
  have "RTO_MIN \<le> RTO_MAX" by (simp add: RTO_MIN_def RTO_MAX_def)
  then show "rto_bounded m \<Longrightarrow> ?thesis" using Measure clamp_u64_bounds
    by (simp add: rto_bounded_def rto_set_new_rtt_def Let_def)
qed (simp add: rto_bounded_def rto_reset_def RTO_MIN_def RTO_MAX_def RTO_INITIAL_def)

lemma rto_run_bounded: "rto_bounded m \<Longrightarrow> rto_bounded (fold rto_step ops m)"
  by (induction ops arbitrary: m) (simp_all add: rto_step_bounded)

lemma rto_new_bounded: "rto_bounded rto_new"
  by (simp add: rto_bounded_def rto_new_def RTO_MIN_def RTO_MAX_def RTO_INITIAL_def)

text \<open>C30. Retransmission intervals. Whatever sequence of RTT measurements and resets the
estimator has seen, a retransmission timer started with its RTO after \<open>n\<close> consecutive
expirations waits exactly \<open>min (RTO * 2^n) 60\<close> seconds: the interval doubles with every
expiration, is at least one second and at most a minute, and the shift in
\<open>calculate_next_timeout\<close> never loses a bit.\<close>

theorem retransmission_interval:
  fixes ops :: "rto_op list" and tt :: timer_table
  defines "rto \<equiv> rto_get_rto (fold rto_step ops rto_new)"
  assumes "t \<noteq> Ack"
  shows "tt_get t (tt_start t now rto tt) =
      Some (now + min (unat rto * 2 ^ tt_retrans tt t) 60000 * 1000000)
    \<and> 1000 \<le> min (unat rto * 2 ^ tt_retrans tt t) 60000"
proof -
  have b: "RTO_MIN \<le> rto" "rto \<le> RTO_MAX"
    using rto_run_bounded [OF rto_new_bounded, of ops]
    by (simp_all add: rto_bounded_def rto_def rto_get_rto_def)
  then have "1000 \<le> unat rto" by (simp add: RTO_MIN_def word_le_nat_alt)
  then have "1000 \<le> unat rto * 2 ^ tt_retrans tt t" by (metis le_trans mult_le_mono2 mult.right_neutral one_le_power one_le_numeral)
  then show ?thesis using assms(2) calculate_next_timeout_unat [OF b]
    by (simp add: tt_get_def tt_start_def from_millis_def)
qed

theorem retransmission_interval_witness:
  "tt_get T3RTX (tt_start T3RTX 7 (rto_get_rto (fold rto_step [ResetRto] rto_new)) (tt_new timer_config_default))
     = Some (7 + 3000 * 1000000)"
  using retransmission_interval [of T3RTX 7 "[ResetRto]" "tt_new timer_config_default"]
  by (simp add: rto_get_rto_def rto_new_def rto_reset_def RTO_INITIAL_def tt_new_def)

text \<open>The first RTT measurement sets SRTT to the RTT and the RTO to SRTT + 4 * RTTVAR with
RTTVAR = RTT / 2, that is to three times the RTT, clamped to the interval from one
second to a minute; the double-precision arithmetic of the code computes it exactly
for every RTT below 2^51 ms.\<close>

theorem first_rtt_measurement:
  assumes "\<not> rm_no_update m" "rm_srtt m = 0" "rtt < 2 ^ 51"
  shows "rto_set_new_rtt rtt m =
    (rtt, m\<lparr>rm_srtt := rtt, rm_rttvar := of_int (uint rtt) / 2, rm_rto := clamp_u64 (3 * rtt) 1000 60000\<rparr>)"
proof -
  have b: "0 \<le> uint rtt" "uint rtt < 2 ^ 51" using assms(3) by (simp_all add: word_less_def)
  have var: "f64_div (f64_of_int r) 2 = of_int r / 2" "f64_mul 4 (of_int r / 2) = of_int (2 * r)"
    if "0 \<le> r" "r < 2 ^ 51" for r
    using that f64_round_exact [of "2 * r" 0]
    by (simp_all add: f64_of_int_exact f64_div_def f64_round_half f64_mul_def pow2_def)
  have "u64_of_f64 (of_int (2 * uint rtt)) = 2 * rtt"
    using b by (simp add: u64_of_f64_def del: of_int_mult) (simp add: of_int_mult)
  then have cast: "u64_of_f64 (f64_mul 4 (of_int (uint rtt) / 2)) = 2 * rtt" unfolding var(2) [OF b] .
  have "rto_set_new_rtt rtt m = (rtt, m\<lparr>rm_srtt := rtt, rm_rttvar := f64_div (f64_of_int (uint rtt)) 2,
      rm_rto := clamp_u64 (rtt + u64_of_f64 (f64_mul 4 (f64_div (f64_of_int (uint rtt)) 2))) 1000 60000\<rparr>)"
    using assms(1,2) by (simp add: rto_set_new_rtt_def Let_def RTO_MIN_def RTO_MAX_def)
  then show ?thesis unfolding var(1) [OF b] cast by simp
qed

theorem first_rtt_measurement_witness:
  "rto_get_rto (snd (rto_set_new_rtt 900 rto_new)) = 2700"
proof -
  have "\<not> rm_no_update rto_new" "rm_srtt rto_new = 0" "(900 :: u64) < 2 ^ 51" by (simp_all add: rto_new_def)
  from first_rtt_measurement [OF this] show ?thesis by (simp add: rto_get_rto_def clamp_u64_def)
qed

section \<open>Giving up\<close>

text \<open>The association reacts to an expired timer by sending again and restarting it;
\<open>expire_restart\<close> is one such round, seen from the table.\<close>

definition expire_restart :: "timer \<Rightarrow> u64 \<Rightarrow> timer_table \<Rightarrow> bool \<times> timer_table" where
  "expire_restart t rto tt =
    (case tt_get t tt of
       None \<Rightarrow> (False, tt)
     | Some d \<Rightarrow> let ((_, failure, _), tt) = tt_is_expired t d tt in (failure, tt_start t d rto tt))"

fun expire_rounds :: "nat \<Rightarrow> timer \<Rightarrow> u64 \<Rightarrow> timer_table \<Rightarrow> bool list" where
  "expire_rounds 0 t rto tt = []"
| "expire_rounds (Suc n) t rto tt =
    (let (failure, tt) = expire_restart t rto tt in failure # expire_rounds n t rto tt)"

lemma expire_rounds_flags:
  "tt_get t tt \<noteq> None \<Longrightarrow>
   expire_rounds n t rto tt = map (\<lambda>k. k > tt_max_retrans tt t) [tt_retrans tt t + 1 ..< tt_retrans tt t + 1 + n]"
proof (induction n arbitrary: tt)
  case (Suc n)
  then obtain d where d: "tt_data tt t = Some d" by (auto simp: tt_get_def)
  let ?tt = "snd (expire_restart t rto tt)"
  have "tt_get t ?tt \<noteq> None" "tt_max_retrans ?tt = tt_max_retrans tt" "tt_retrans ?tt t = tt_retrans tt t + 1"
    using d by (simp_all add: expire_restart_def tt_get_def tt_is_expired_def tt_start_def Let_def)
  with Suc.IH have "expire_rounds n t rto ?tt =
      map (\<lambda>k. k > tt_max_retrans tt t) [tt_retrans tt t + 2 ..< tt_retrans tt t + 2 + n]" by simp
  moreover have "expire_rounds (Suc n) t rto tt = (tt_retrans tt t + 1 > tt_max_retrans tt t) # expire_rounds n t rto ?tt"
    using d by (simp add: expire_restart_def tt_get_def tt_is_expired_def Let_def)
  moreover have "[tt_retrans tt t + 1 ..< tt_retrans tt t + 1 + Suc n] =
      (tt_retrans tt t + 1) # [tt_retrans tt t + 2 ..< tt_retrans tt t + 2 + n]"
    by (simp add: upt_conv_Cons del: upt_Suc)
  ultimately show ?case by (simp del: upt_Suc)
qed simp

text \<open>The retransmission limit. A timer that was stopped (or never used) and is then
restarted after each of its expirations reports a failure at expiration number
max + 1 and not before: the message is sent \<open>max\<close> more times, and at most eight times
for INIT and five times for DATA with the default configuration.\<close>

theorem retransmission_limit:
  "expire_rounds n t rto (tt_start t now rto (tt_stop t tt)) =
   map (\<lambda>k. k > tt_max_retrans tt t) [1 ..< Suc n]"
proof -
  let ?tt = "tt_start t now rto (tt_stop t tt)"
  have "tt_get t ?tt \<noteq> None" "tt_retrans ?tt t = 0" "tt_max_retrans ?tt = tt_max_retrans tt"
    by (simp_all add: tt_get_def tt_start_def tt_stop_def Let_def)
  then show ?thesis using expire_rounds_flags [of t ?tt n rto] by simp
qed

text \<open>The next timeout is the earliest armed deadline.\<close>

lemma fold_min_le: "fold min xs (a :: nat) \<le> a \<and> (\<forall>x\<in>set xs. fold min xs a \<le> x) \<and> fold min xs a \<in> insert a (set xs)"
proof (induction xs arbitrary: a)
  case (Cons x xs)
  from Cons.IH [of "min x a"] show ?case by (auto simp: min_def split: if_splits)
qed simp

lemma timer_values_all: "t \<in> set timer_values"
  by (cases t) (simp_all add: timer_values_def)

lemma next_timeout_least:
  "tt_next_timeout tt = Some d \<longleftrightarrow> (\<exists>t. tt_get t tt = Some d) \<and> (\<forall>t d'. tt_get t tt = Some d' \<longrightarrow> d \<le> d')"
proof -
  let ?l = "List.map_filter (tt_data tt) timer_values"
  have mem: "x \<in> set ?l \<longleftrightarrow> (\<exists>t. tt_data tt t = Some x)" for x
  proof
    assume "x \<in> set ?l"
    then show "\<exists>t. tt_data tt t = Some x" by (auto simp: List.map_filter_def)
  next
    assume "\<exists>t. tt_data tt t = Some x"
    then obtain t where "tt_data tt t = Some x" ..
    then show "x \<in> set ?l"
      by (auto simp: List.map_filter_def image_iff intro!: bexI [of _ t] timer_values_all)
  qed
  show ?thesis
  proof (cases ?l)
    case Nil
    then have "tt_data tt t = None" for t using mem by (metis empty_iff list.set(1) not_None_eq)
    then show ?thesis using Nil by (simp add: tt_next_timeout_def tt_get_def)
  next
    case (Cons x xs)
    define m where "m = fold min xs x"
    have "m \<in> set ?l" "\<And>y. y \<in> set ?l \<Longrightarrow> m \<le> y"
      using fold_min_le [of xs x] Cons by (auto simp: m_def)
    moreover have "tt_next_timeout tt = Some m" using Cons by (simp add: tt_next_timeout_def m_def)
    ultimately show ?thesis unfolding tt_get_def using mem by (metis antisym option.inject)
  qed
qed

end
