(* ===== verification/Sctp_Association.thy ===== *)
theory Sctp_Association
  imports Sctp_Packet Sctp_Stream Sctp_Timer
begin

text \<open>The state of an association (\<open>rtc-sctp/src/association/mod.rs\<close>, \<open>state.rs\<close>,
\<open>stats.rs\<close>, \<open>config.rs\<close>) with its construction, the stream interface of the application
and the start of a shutdown. Hash maps are association lists in insertion order; random
numbers (the initial TSN, the state cookie) are arguments; \<open>awake_write_loop\<close> is a no-op
in the source and is left out, as are log messages.\<close>

section \<open>Configuration\<close>

definition INITIAL_MTU :: u32 where "INITIAL_MTU = 1228"
definition INITIAL_RECV_BUF_SIZE :: u32 where "INITIAL_RECV_BUF_SIZE = 1024 * 1024"
definition COMMON_HEADER_SIZE :: u32 where "COMMON_HEADER_SIZE = 12"
definition DATA_CHUNK_HEADER_SIZE :: u32 where "DATA_CHUNK_HEADER_SIZE = 16"
definition DEFAULT_MAX_MESSAGE_SIZE :: u32 where "DEFAULT_MAX_MESSAGE_SIZE = 262144"

record transport_config =
  tc_sctp_port :: u16
  tc_max_receive_buffer_size :: u32
  tc_max_message_size :: u32
  tc_max_num_outbound_streams :: u16
  tc_max_num_inbound_streams :: u16
  tc_timer_config :: timer_config

definition transport_config_default :: transport_config where
  "transport_config_default =
    \<lparr>tc_sctp_port = 5000, tc_max_receive_buffer_size = INITIAL_RECV_BUF_SIZE,
     tc_max_message_size = DEFAULT_MAX_MESSAGE_SIZE, tc_max_num_outbound_streams = - 1,
     tc_max_num_inbound_streams = - 1, tc_timer_config = timer_config_default\<rparr>"

text \<open>\<open>EndpointConfig::new\<close>: the default of \<open>max_payload_size\<close>.\<close>

definition default_max_payload_size :: u32 where
  "default_max_payload_size = INITIAL_MTU - (COMMON_HEADER_SIZE + DATA_CHUNK_HEADER_SIZE)"

section \<open>Enumerations, statistics and events\<close>

datatype association_state =
    Closed | CookieWait | CookieEchoed | Established
  | ShutdownAckSent | ShutdownPending | ShutdownReceived | ShutdownSent

definition association_state_of :: "u8 \<Rightarrow> association_state" where
  "association_state_of v =
    (if v = 1 then CookieWait else if v = 2 then CookieEchoed else if v = 3 then Established
     else if v = 4 then ShutdownAckSent else if v = 5 then ShutdownPending
     else if v = 6 then ShutdownReceived else if v = 7 then ShutdownSent else Closed)"

definition state_is_drained :: "association_state \<Rightarrow> bool" where
  "state_is_drained s \<longleftrightarrow> s \<in> {ShutdownSent, ShutdownAckSent, ShutdownPending, ShutdownReceived}"

datatype ack_mode = AckNormal | AckNoDelay | AckAlwaysDelay

datatype ack_state = AckIdle | AckImmediate | AckDelay

record association_stats =
  st_n_datas :: u64
  st_n_sacks :: u64
  st_n_t3timeouts :: u64
  st_n_ack_timeouts :: u64
  st_n_fast_retrans :: u64

definition stats_default :: association_stats where
  "stats_default = \<lparr>st_n_datas = 0, st_n_sacks = 0, st_n_t3timeouts = 0, st_n_ack_timeouts = 0,
     st_n_fast_retrans = 0\<rparr>"

definition inc_datas :: "association_stats \<Rightarrow> association_stats" where
  "inc_datas s = s\<lparr>st_n_datas := st_n_datas s + 1\<rparr>"

definition inc_sacks :: "association_stats \<Rightarrow> association_stats" where
  "inc_sacks s = s\<lparr>st_n_sacks := st_n_sacks s + 1\<rparr>"

definition inc_t3timeouts :: "association_stats \<Rightarrow> association_stats" where
  "inc_t3timeouts s = s\<lparr>st_n_t3timeouts := st_n_t3timeouts s + 1\<rparr>"

definition inc_ack_timeouts :: "association_stats \<Rightarrow> association_stats" where
  "inc_ack_timeouts s = s\<lparr>st_n_ack_timeouts := st_n_ack_timeouts s + 1\<rparr>"

definition inc_fast_retrans :: "association_stats \<Rightarrow> association_stats" where
  "inc_fast_retrans s = s\<lparr>st_n_fast_retrans := st_n_fast_retrans s + 1\<rparr>"

text \<open>\<open>HandshakeFailed\<close> carries the printed form of an error; the model keeps the error.\<close>

datatype association_error =
    AeHandshakeFailed error | AeTransportError | AeAssociationClosed | AeApplicationClosed
  | AeReset | AeTimedOut | AeLocallyClosed

datatype event =
    EvHandshakeFailed association_error
  | EvConnected
  | EvAssociationLost association_error u16
  | EvStream stream_event
  | EvDatagramReceived

datatype endpoint_event = EeDrained

text \<open>\<open>SocketAddr\<close>: the octets of the IP address and the port.\<close>

type_synonym socket_addr = "bytes \<times> u16"

datatype transport_protocol = UDP | TCP

section \<open>The association\<close>

record association =
  a_side :: side
  a_state :: association_state
  a_handshake_completed :: bool
  a_max_message_size :: u32
  a_inflight_queue_length :: nat
  a_will_send_shutdown :: bool
  a_bytes_received :: nat
  a_bytes_sent :: nat
  a_peer_verification_tag :: u32
  a_my_verification_tag :: u32
  a_my_next_tsn :: u32
  a_peer_last_tsn :: u32
  a_min_tsn2measure_rtt :: u32
  a_will_send_forward_tsn :: bool
  a_will_retransmit_fast :: bool
  a_will_retransmit_reconfig :: bool
  a_t3_retransmit_pending :: bool
  a_will_send_shutdown_ack :: bool
  a_will_send_shutdown_complete :: bool
  a_my_next_rsn :: u32
  a_reconfigs :: "(u32 \<times> chunk_reconfig) list"
  a_reconfig_requests :: "(u32 \<times> outgoing_reset_request) list"
  a_remote_addr :: socket_addr
  a_local_addr :: socket_addr
  a_transport_protocol :: transport_protocol
  a_source_port :: u16
  a_destination_port :: u16
  a_my_max_num_inbound_streams :: u16
  a_my_max_num_outbound_streams :: u16
  a_my_cookie :: "bytes option"
  a_payload_queue :: payload_queue
  a_inflight_queue :: payload_queue
  a_pending_queue :: pending_queue
  a_control_queue :: "packet list"
  a_stream_queue :: "u16 list"
  a_mtu :: u32
  a_max_payload_size :: u32
  a_cumulative_tsn_ack_point :: u32
  a_advanced_peer_tsn_ack_point :: u32
  a_use_forward_tsn :: bool
  a_fwd_tsn_stream_map :: "(u16 \<times> u16) list"
  a_rto_mgr :: rto_manager
  a_timers :: timer_table
  a_max_receive_buffer_size :: u32
  a_cwnd :: u32
  a_rwnd :: u32
  a_ssthresh :: u32
  a_partial_bytes_acked :: u32
  a_in_fast_recovery :: bool
  a_fast_recover_exit_point :: u32
  a_stored_init :: "chunk_init option"
  a_stored_cookie_echo :: "bytes option"
  a_streams :: "(u16 \<times> stream_state) list"
  a_events :: "event list"
  a_endpoint_events :: "endpoint_event list"
  a_error :: "association_error option"
  a_delayed_ack_triggered :: bool
  a_immediate_ack_triggered :: bool
  a_stats :: association_stats
  a_ack_state :: ack_state
  a_ack_mode :: ack_mode

definition association_default :: association where
  "association_default =
    \<lparr>a_side = Client, a_state = Closed, a_handshake_completed = False, a_max_message_size = 0,
     a_inflight_queue_length = 0, a_will_send_shutdown = False, a_bytes_received = 0, a_bytes_sent = 0,
     a_peer_verification_tag = 0, a_my_verification_tag = 0, a_my_next_tsn = 0, a_peer_last_tsn = 0,
     a_min_tsn2measure_rtt = 0, a_will_send_forward_tsn = False, a_will_retransmit_fast = False,
     a_will_retransmit_reconfig = False, a_t3_retransmit_pending = False, a_will_send_shutdown_ack = False,
     a_will_send_shutdown_complete = False, a_my_next_rsn = 0, a_reconfigs = [], a_reconfig_requests = [],
     a_remote_addr = ([0, 0, 0, 0], 0), a_local_addr = ([0, 0, 0, 0], 0), a_transport_protocol = UDP,
     a_source_port = 0, a_destination_port = 0, a_my_max_num_inbound_streams = 0,
     a_my_max_num_outbound_streams = 0, a_my_cookie = None, a_payload_queue = pl_new,
     a_inflight_queue = pl_new, a_pending_queue = pq_new, a_control_queue = [], a_stream_queue = [],
     a_mtu = 0, a_max_payload_size = 0, a_cumulative_tsn_ack_point = 0, a_advanced_peer_tsn_ack_point = 0,
     a_use_forward_tsn = False, a_fwd_tsn_stream_map = [],
     a_rto_mgr = \<lparr>rm_srtt = 0, rm_rttvar = 0, rm_rto = 0, rm_no_update = False\<rparr>,
     a_timers = \<lparr>tt_data = (\<lambda>_. None), tt_retrans = (\<lambda>_. 0), tt_max_retrans = (\<lambda>_. 0)\<rparr>,
     a_max_receive_buffer_size = 0, a_cwnd = 0, a_rwnd = 0, a_ssthresh = 0, a_partial_bytes_acked = 0,
     a_in_fast_recovery = False, a_fast_recover_exit_point = 0, a_stored_init = None,
     a_stored_cookie_echo = None, a_streams = [], a_events = [], a_endpoint_events = [], a_error = None,
     a_delayed_ack_triggered = False, a_immediate_ack_triggered = False, a_stats = stats_default,
     a_ack_state = AckIdle, a_ack_mode = AckNormal\<rparr>"

type_synonym 'a step = "association \<Rightarrow> 'a result \<times> association"

definition set_state :: "association_state \<Rightarrow> association \<Rightarrow> association" where
  "set_state st a = a\<lparr>a_state := st\<rparr>"

definition push_event :: "event \<Rightarrow> association \<Rightarrow> association" where
  "push_event e a = a\<lparr>a_events := a_events a @ [e]\<rparr>"

definition timer_start :: "timer \<Rightarrow> instant \<Rightarrow> association \<Rightarrow> association" where
  "timer_start t now a = a\<lparr>a_timers := tt_start t now (rto_get_rto (a_rto_mgr a)) (a_timers a)\<rparr>"

definition timer_restart_if_stale :: "timer \<Rightarrow> instant \<Rightarrow> association \<Rightarrow> association" where
  "timer_restart_if_stale t now a =
     a\<lparr>a_timers := tt_restart_if_stale t now (rto_get_rto (a_rto_mgr a)) (a_timers a)\<rparr>"

definition timer_stop :: "timer \<Rightarrow> association \<Rightarrow> association" where
  "timer_stop t a = a\<lparr>a_timers := tt_stop t (a_timers a)\<rparr>"

definition create_packet :: "association \<Rightarrow> chunk list \<Rightarrow> packet" where
  "create_packet a cs =
    \<lparr>pk_common_header = \<lparr>hd_source_port = a_source_port a, hd_destination_port = a_destination_port a,
        hd_verification_tag = a_peer_verification_tag a\<rparr>,
     pk_chunks = cs\<rparr>"

definition send_init :: "unit step" where
  "send_init a =
    (case a_stored_init a of
       Some stored_init \<Rightarrow>
         let a = a\<lparr>a_source_port := 5000, a_destination_port := 5000\<rparr>;
             outbound = create_packet a [CInit stored_init]
         in (Ok (), a\<lparr>a_control_queue := a_control_queue a @ [outbound]\<rparr>)
     | None \<Rightarrow> (Fail ErrInitNotStoredToSend, a))"

definition send_cookie_echo :: "unit step" where
  "send_cookie_echo a =
    (case a_stored_cookie_echo a of
       Some cookie \<Rightarrow>
         (Ok (), a\<lparr>a_control_queue := a_control_queue a @ [create_packet a [CCookieEcho cookie]]\<rparr>)
     | None \<Rightarrow> (Fail ErrCookieEchoNotStoredToSend, a))"

text \<open>\<open>Association::new\<close>; \<open>rnd\<close> is \<open>random::<u32>()\<close>. The \<open>clamp\<close> of the congestion
window panics when its bounds are out of order, that is for an MTU below 1095.\<close>

definition association_new ::
    "bool \<Rightarrow> transport_config \<Rightarrow> u32 \<Rightarrow> u32 \<Rightarrow> socket_addr \<Rightarrow> socket_addr \<Rightarrow> transport_protocol \<Rightarrow>
     instant \<Rightarrow> u32 \<Rightarrow> association result" where
  "association_new server cfg max_payload_size local_aid remote_addr local_addr protocol now rnd =
    (let side = (if server then Server else Client);
         mtu = max_payload_size + COMMON_HEADER_SIZE + DATA_CHUNK_HEADER_SIZE;
         tsn = (if rnd = 0 then rnd + 1 else rnd) in
     if 4 * mtu < 4380 then panic
     else
       let cwnd = (if 2 * mtu < 4380 then 4380 else if 2 * mtu > 4 * mtu then 4 * mtu else 2 * mtu);
           this = association_default\<lparr>a_side := side, a_handshake_completed := False,
             a_max_receive_buffer_size := tc_max_receive_buffer_size cfg,
             a_max_message_size := tc_max_message_size cfg,
             a_my_max_num_outbound_streams := tc_max_num_outbound_streams cfg,
             a_my_max_num_inbound_streams := tc_max_num_inbound_streams cfg,
             a_max_payload_size := max_payload_size, a_rto_mgr := rto_new,
             a_timers := tt_new (tc_timer_config cfg), a_mtu := mtu, a_cwnd := cwnd,
             a_remote_addr := remote_addr, a_local_addr := local_addr, a_transport_protocol := protocol,
             a_my_verification_tag := local_aid, a_my_next_tsn := tsn, a_my_next_rsn := tsn,
             a_min_tsn2measure_rtt := tsn, a_cumulative_tsn_ack_point := tsn - 1,
             a_advanced_peer_tsn_ack_point := tsn - 1, a_error := None\<rparr> in
       if side = Client then
         let init = set_supported_extensions (chunk_init_default\<lparr>ci_initial_tsn := a_my_next_tsn this,
               ci_num_outbound_streams := a_my_max_num_outbound_streams this,
               ci_num_inbound_streams := a_my_max_num_inbound_streams this,
               ci_initiate_tag := a_my_verification_tag this,
               ci_advertised_receiver_window_credit := a_max_receive_buffer_size this\<rparr>);
             this = set_state CookieWait this;
             this = this\<lparr>a_stored_init := Some init\<rparr>;
             this = snd (send_init this)
         in Ok (timer_start T1Init now this)
       else Ok this)"

section \<open>Polling\<close>

definition poll :: "association \<Rightarrow> event option \<times> association" where
  "poll a =
    (case a_events a of
       x # xs \<Rightarrow> (Some x, a\<lparr>a_events := xs\<rparr>)
     | [] \<Rightarrow> case a_error a of
               Some err \<Rightarrow> (Some (EvHandshakeFailed err), a\<lparr>a_error := None\<rparr>)
             | None \<Rightarrow> (None, a))"

definition poll_endpoint_event :: "association \<Rightarrow> endpoint_event option \<times> association" where
  "poll_endpoint_event a = (front (a_endpoint_events a), a\<lparr>a_endpoint_events := tl (a_endpoint_events a)\<rparr>)"

definition poll_timeout :: "association \<Rightarrow> instant option" where
  "poll_timeout a = tt_next_timeout (a_timers a)"

definition is_drained :: "association \<Rightarrow> bool" where
  "is_drained a = state_is_drained (a_state a)"

section \<open>Streams of an association\<close>

text \<open>\<open>unregister_stream\<close>; the removed stream's own state is dropped.\<close>

definition unregister_stream :: "u16 \<Rightarrow> association_error \<Rightarrow> association \<Rightarrow> association" where
  "unregister_stream si reason a =
    (case map_of (a_streams a) si of
       Some s \<Rightarrow> push_event (EvAssociationLost reason si) (a\<lparr>a_streams := AList.delete si (a_streams a)\<rparr>)
     | None \<Rightarrow> a)"

text \<open>\<open>create_stream\<close> always returns a stream; the handle is its identifier.\<close>

definition create_stream :: "u16 \<Rightarrow> bool \<Rightarrow> payload_protocol_identifier \<Rightarrow> association \<Rightarrow> u16 option \<times> association" where
  "create_stream si accept ppi a =
    (let s = ss_new (a_side a) si (a_max_payload_size a) ppi;
         a = (if accept then push_event (EvStream (StreamOpened si)) (a\<lparr>a_stream_queue := a_stream_queue a @ [si]\<rparr>)
              else a)
     in (Some si, a\<lparr>a_streams := AList.update si s (a_streams a)\<rparr>))"

definition get_or_create_stream :: "u16 \<Rightarrow> association \<Rightarrow> u16 option \<times> association" where
  "get_or_create_stream si a =
    (if map_of (a_streams a) si \<noteq> None then (Some si, a) else create_stream si True PpiUnknown a)"

definition open_stream :: "u16 \<Rightarrow> payload_protocol_identifier \<Rightarrow> u16 step" where
  "open_stream si ppi a =
    (if map_of (a_streams a) si \<noteq> None then (Fail ErrStreamAlreadyExist, a)
     else case create_stream si False ppi a of
            (Some s, a) \<Rightarrow> (Ok s, a)
          | (None, a) \<Rightarrow> (Fail ErrStreamCreateFailed, a))"

definition accept_stream :: "association \<Rightarrow> u16 option \<times> association" where
  "accept_stream a = (front (a_stream_queue a), a\<lparr>a_stream_queue := tl (a_stream_queue a)\<rparr>)"

definition stream :: "u16 \<Rightarrow> u16 step" where
  "stream si a = (if map_of (a_streams a) si = None then Fail ErrStreamNotExisted else Ok si, a)"

definition get_my_receiver_window_credit :: "association \<Rightarrow> u32" where
  "get_my_receiver_window_credit a =
    (let bytes_queued = fold (\<lambda>(_, s) n. n + of_nat (ss_get_num_bytes_in_reassembly_queue s)) (a_streams a) 0
     in if bytes_queued > a_max_receive_buffer_size a then 0 else a_max_receive_buffer_size a - bytes_queued)"

section \<open>Closing\<close>

definition close_all_timers :: "association \<Rightarrow> association" where
  "close_all_timers a = fold timer_stop timer_values a"

definition close :: "association_error \<Rightarrow> unit step" where
  "close reason a =
    (Ok (),
     if a_state a \<noteq> Closed then
       let a = set_state Closed a;
           a = close_all_timers a
       in fold (\<lambda>si. unregister_stream si reason) (map fst (a_streams a)) a
     else a)"

definition shutdown :: "unit step" where
  "shutdown a =
    (if a_state a \<noteq> Established then (Fail ErrShutdownNonEstablished, a)
     else
       let a = set_state ShutdownPending a;
           a = (if a_inflight_queue_length a = 0
                then set_state ShutdownSent (a\<lparr>a_will_send_shutdown := True\<rparr>) else a)
       in (Ok (), a\<lparr>a_endpoint_events := a_endpoint_events a @ [EeDrained]\<rparr>))"

section \<open>Handing data to the association\<close>

definition generate_next_tsn :: "association \<Rightarrow> u32 \<times> association" where
  "generate_next_tsn a = (a_my_next_tsn a, a\<lparr>a_my_next_tsn := a_my_next_tsn a + 1\<rparr>)"

definition generate_next_rsn :: "association \<Rightarrow> u32 \<times> association" where
  "generate_next_rsn a = (a_my_next_rsn a, a\<lparr>a_my_next_rsn := a_my_next_rsn a + 1\<rparr>)"

definition send_reset_request :: "u16 \<Rightarrow> unit step" where
  "send_reset_request si a =
    (if a_state a \<noteq> Established then (Fail ErrResetPacketInStateNotExist, a)
     else
       let c = payload_data_default\<lparr>pd_stream_identifier := si, pd_beginning_fragment := True,
                 pd_ending_fragment := True, pd_user_data := []\<rparr>
       in (Ok (), a\<lparr>a_pending_queue := pq_push c (a_pending_queue a)\<rparr>))"

definition send_payload_data :: "chunk_payload_data list \<Rightarrow> unit step" where
  "send_payload_data chunks a =
    (if a_state a \<noteq> Established then (Fail ErrPayloadDataStateNotExist, a)
     else (Ok (), a\<lparr>a_pending_queue := fold pq_push chunks (a_pending_queue a)\<rparr>))"

definition buffered_amount :: "association \<Rightarrow> nat" where
  "buffered_amount a = pq_n_bytes (a_pending_queue a) + pl_n_bytes (a_inflight_queue a)"

section \<open>The operations of \<open>Stream\<close>\<close>

definition set_stream :: "u16 \<Rightarrow> stream_state \<Rightarrow> association \<Rightarrow> association" where
  "set_stream si s a = a\<lparr>a_streams := AList.update si s (a_streams a)\<rparr>"

definition stream_is_readable :: "u16 \<Rightarrow> association \<Rightarrow> bool" where
  "stream_is_readable si a =
    (case map_of (a_streams a) si of
       Some s \<Rightarrow> ss_state s = RsReadable \<or> ss_state s = RsReadWritable
     | None \<Rightarrow> False)"

definition stream_is_writable :: "u16 \<Rightarrow> association \<Rightarrow> bool" where
  "stream_is_writable si a =
    (case map_of (a_streams a) si of
       Some s \<Rightarrow> ss_state s = RsWritable \<or> ss_state s = RsReadWritable
     | None \<Rightarrow> False)"

definition stream_read_sctp :: "u16 \<Rightarrow> chunks option step" where
  "stream_read_sctp si a =
    (case map_of (a_streams a) si of
       Some s \<Rightarrow>
         if ss_state s = RsReadWritable \<or> ss_state s = RsReadable
         then let (res, q) = rq_read (ss_reassembly_queue s)
              in (Ok res, set_stream si (s\<lparr>ss_reassembly_queue := q\<rparr>) a)
         else (Fail ErrStreamClosed, a)
     | None \<Rightarrow> (Fail ErrStreamClosed, a))"

text \<open>\<open>write_source\<close> for a source with \<open>remaining\<close> bytes left whose first chunk, cut to the
maximal message size, is \<open>p\<close>. The outer \<open>None\<close> is the diverging fragmentation loop.\<close>

definition stream_write_source ::
    "u16 \<Rightarrow> nat \<Rightarrow> bytes \<Rightarrow> payload_protocol_identifier \<Rightarrow> association \<Rightarrow> (nat result \<times> association) option" where
  "stream_write_source si remaining p ppi a =
    (if \<not> stream_is_writable si a then Some (Fail ErrStreamClosed, a)
     else if remaining > unat (a_max_message_size a) then Some (Fail ErrOutboundPacketTooLarge, a)
     else if a_state a \<in> {ShutdownSent, ShutdownAckSent, ShutdownPending, ShutdownReceived}
     then Some (Fail ErrStreamClosed, a)
     else
       case map_of (a_streams a) si of
         Some s \<Rightarrow>
           (case packetize p ppi s of
              None \<Rightarrow> None
            | Some ((is_buffered_amount_high, cs), s) \<Rightarrow>
                let a = set_stream si s a;
                    a = (if is_buffered_amount_high then push_event (EvStream (BufferedAmountHigh si)) a else a)
                in Some (case send_payload_data cs a of
                           (Ok _, a) \<Rightarrow> (Ok (length p), a)
                         | (Inl e, a) \<Rightarrow> (Inl e, a)))
       | None \<Rightarrow> Some (Fail ErrStreamClosed, a))"

definition stream_write_chunk ::
    "u16 \<Rightarrow> bytes \<Rightarrow> payload_protocol_identifier \<Rightarrow> association \<Rightarrow> (nat result \<times> association) option" where
  "stream_write_chunk si data ppi a =
     stream_write_source si (length data) (fst (fst (bytes_pop_chunk (unat (a_max_message_size a)) data))) ppi a"

definition stream_write_chunks ::
    "u16 \<Rightarrow> bytes list \<Rightarrow> payload_protocol_identifier \<Rightarrow> association \<Rightarrow> (nat result \<times> association) option" where
  "stream_write_chunks si data ppi a =
    (let src = bytes_array_from_chunks data
     in stream_write_source si (bytes_array_remaining src)
          (fst (fst (bytes_array_pop_chunk (unat (a_max_message_size a)) 0 src))) ppi a)"

definition stream_stop :: "u16 \<Rightarrow> unit step" where
  "stream_stop si a =
    (let (reset, a) =
      (case map_of (a_streams a) si of
         Some s \<Rightarrow> (ss_state s = RsReadable \<or> ss_state s = RsReadWritable,
                    set_stream si (s\<lparr>ss_state := recv_send_of (recv_send_code (ss_state s) AND 2)\<rparr>) a)
       | None \<Rightarrow> (False, a))
     in if reset then send_reset_request si a else (Ok (), a))"

definition stream_finish :: "u16 \<Rightarrow> unit step" where
  "stream_finish si a =
    (Ok (), case map_of (a_streams a) si of
              Some s \<Rightarrow> set_stream si (s\<lparr>ss_state := recv_send_of (recv_send_code (ss_state s) AND 1)\<rparr>) a
            | None \<Rightarrow> a)"

definition stream_close :: "u16 \<Rightarrow> unit step" where
  "stream_close si a = stream_stop si (snd (stream_finish si a))"

text \<open>The setters.\<close>

definition stream_update :: "u16 \<Rightarrow> (stream_state \<Rightarrow> stream_state) \<Rightarrow> unit step" where
  "stream_update si f a =
    (case map_of (a_streams a) si of
       Some s \<Rightarrow> (Ok (), set_stream si (f s) a)
     | None \<Rightarrow> (Fail ErrStreamClosed, a))"

definition stream_set_default_payload_type :: "u16 \<Rightarrow> payload_protocol_identifier \<Rightarrow> unit step" where
  "stream_set_default_payload_type si ppi = stream_update si (\<lambda>s. s\<lparr>ss_default_payload_type := ppi\<rparr>)"

definition stream_set_reliability_params :: "u16 \<Rightarrow> bool \<Rightarrow> reliability_type \<Rightarrow> u32 \<Rightarrow> unit step" where
  "stream_set_reliability_params si unordered rel_type rel_val =
     stream_update si (\<lambda>s. s\<lparr>ss_unordered := unordered, ss_reliability_type := rel_type, ss_reliability_value := rel_val\<rparr>)"

definition stream_set_buffered_amount_low_threshold :: "u16 \<Rightarrow> nat \<Rightarrow> unit step" where
  "stream_set_buffered_amount_low_threshold si th = stream_update si (\<lambda>s. s\<lparr>ss_buffered_amount_low := th\<rparr>)"

definition stream_set_buffered_amount_high_threshold :: "u16 \<Rightarrow> nat \<Rightarrow> unit step" where
  "stream_set_buffered_amount_high_threshold si th = stream_update si (\<lambda>s. s\<lparr>ss_buffered_amount_high := th\<rparr>)"

definition stream_get :: "u16 \<Rightarrow> (stream_state \<Rightarrow> 'a) \<Rightarrow> association \<Rightarrow> 'a result" where
  "stream_get si f a = (case map_of (a_streams a) si of Some s \<Rightarrow> Ok (f s) | None \<Rightarrow> Fail ErrStreamClosed)"

definition stream_buffered_amount :: "u16 \<Rightarrow> association \<Rightarrow> nat result" where
  "stream_buffered_amount si = stream_get si ss_buffered_amount"

definition stream_get_default_payload_type :: "u16 \<Rightarrow> association \<Rightarrow> payload_protocol_identifier result" where
  "stream_get_default_payload_type si = stream_get si ss_default_payload_type"

end
