(* ===== verification/Sctp_Outbound.thy ===== *)
theory Sctp_Outbound
  imports Sctp_Association
begin

text \<open>What an association sends (\<open>gather_outbound\<close> and what it calls in
\<open>rtc-sctp/src/association/mod.rs\<close>): new DATA chunks as the windows allow, bundling into
packets, retransmission after T3-rtx and on gap reports, SACK, FORWARD TSN, RE-CONFIG and
the shutdown chunks. The packets are marshalled with the checksum function \<open>crc\<close>, which
belongs to a crate outside this repository.\<close>

section \<open>Sending one packet\<close>

definition push_raw :: "bytes result \<Rightarrow> bytes list \<Rightarrow> bytes list" where
  "push_raw r raw_packets = (case r of Inr raw \<Rightarrow> raw_packets @ [raw] | Inl _ \<Rightarrow> raw_packets)"

definition push_chunks :: "crc_fun \<Rightarrow> chunk list \<Rightarrow> association \<Rightarrow> bytes list \<Rightarrow> bytes list" where
  "push_chunks crc cs a raw_packets = push_raw (packet_marshal crc (create_packet a cs)) raw_packets"

section \<open>Partial reliability\<close>

definition check_partial_reliability_status ::
    "instant \<Rightarrow> bool \<Rightarrow> (u16 \<times> stream_state) list \<Rightarrow> chunk_payload_data \<Rightarrow> chunk_payload_data" where
  "check_partial_reliability_status now use_forward_tsn streams c =
    (if \<not> use_forward_tsn then c
     else if pd_payload_type c = PpiDcep then c
     else
       case map_of streams (pd_stream_identifier c) of
         Some s \<Rightarrow>
           if ss_reliability_type s = Rexmit then
             if pd_nsent c \<ge> ss_reliability_value s then c\<lparr>pd_abandoned := True\<rparr> else c
           else if ss_reliability_type s = Timed then
             case pd_since c of
               Some since \<Rightarrow>
                 if of_nat ((now - since) div 1000000) \<ge> ss_reliability_value s
                 then c\<lparr>pd_abandoned := True\<rparr> else c
             | None \<Rightarrow> c
           else c
       | None \<Rightarrow> c)"

section \<open>New data\<close>

definition move_pending_data_chunk_to_inflight_queue ::
    "bool \<Rightarrow> bool \<Rightarrow> instant \<Rightarrow> association \<Rightarrow> chunk_payload_data option \<times> association" where
  "move_pending_data_chunk_to_inflight_queue beginning_fragment unordered now a =
    (case pq_pop beginning_fragment unordered (a_pending_queue a) of
       (None, q) \<Rightarrow> (None, a\<lparr>a_pending_queue := q\<rparr>)
     | (Some c, q) \<Rightarrow>
         let a = a\<lparr>a_pending_queue := q\<rparr>;
             c = (if pd_ending_fragment c then set_all_inflight c else c);
             (tsn, a) = generate_next_tsn a;
             c = c\<lparr>pd_tsn := tsn, pd_since := Some now, pd_nsent := 1\<rparr>;
             c = check_partial_reliability_status now (a_use_forward_tsn a) (a_streams a) c
         in (Some c, a\<lparr>a_inflight_queue := pl_push_no_check c (a_inflight_queue a)\<rparr>))"

text \<open>The \<open>while let\<close> loop of \<open>pop_pending_data_chunks_to_send\<close>. A chunk without data that
cannot be popped is peeked again for ever: the loop is partial, and \<open>pop_pending_loop_ok\<close>
shows that it returns on every consistent queue.\<close>

partial_function (option) pop_pending_loop ::
    "instant \<Rightarrow> chunk_payload_data list \<Rightarrow> u16 list \<Rightarrow> association \<Rightarrow>
     (chunk_payload_data list \<times> u16 list \<times> association) option" where
  "pop_pending_loop now chunks sis a =
    (case pq_peek (a_pending_queue a) of
       None \<Rightarrow> Some (chunks, sis, a)
     | Some c \<Rightarrow>
         if length (pd_user_data c) = 0 then
           pop_pending_loop now chunks (sis @ [pd_stream_identifier c])
             (a\<lparr>a_pending_queue := snd (pq_pop (pd_beginning_fragment c) (pd_unordered c) (a_pending_queue a))\<rparr>)
         else if pl_n_bytes (a_inflight_queue a) + length (pd_user_data c) > unat (a_cwnd a)
         then Some (chunks, sis, a)
         else if length (pd_user_data c) > unat (a_rwnd a) then Some (chunks, sis, a)
         else
           let ma = move_pending_data_chunk_to_inflight_queue (pd_beginning_fragment c) (pd_unordered c) now
                      (a\<lparr>a_rwnd := a_rwnd a - of_nat (length (pd_user_data c))\<rparr>)
           in pop_pending_loop now (case fst ma of Some d \<Rightarrow> chunks @ [d] | None \<Rightarrow> chunks) sis (snd ma))"

definition zero_window_probe ::
    "instant \<Rightarrow> chunk_payload_data list \<Rightarrow> association \<Rightarrow> chunk_payload_data list \<times> association" where
  "zero_window_probe now chunks a =
    (if chunks = [] \<and> pl_is_empty (a_inflight_queue a) then
       case pq_peek (a_pending_queue a) of
         Some c \<Rightarrow>
           (case move_pending_data_chunk_to_inflight_queue (pd_beginning_fragment c) (pd_unordered c) now a of
              (Some d, a) \<Rightarrow> (chunks @ [d], a)
            | (None, a) \<Rightarrow> (chunks, a))
       | None \<Rightarrow> (chunks, a)
     else (chunks, a))"

definition pop_pending_data_chunks_to_send ::
    "instant \<Rightarrow> association \<Rightarrow> (chunk_payload_data list \<times> u16 list \<times> association) option" where
  "pop_pending_data_chunks_to_send now a =
    (if \<not> pq_is_empty (a_pending_queue a) then
       case pop_pending_loop now [] [] a of
         None \<Rightarrow> None
       | Some (chunks, sis, a) \<Rightarrow>
           let (chunks, a) = zero_window_probe now chunks a in Some (chunks, sis, a)
     else Some ([], [], a))"

section \<open>Bundling\<close>

text \<open>The first pass: \<open>cur\<close> is the bundle being filled, \<open>n\<close> is \<open>bytes_in_packet\<close>.\<close>

fun bundle_loop ::
    "u32 \<Rightarrow> chunk_payload_data list \<Rightarrow> u32 \<Rightarrow> chunk_payload_data list \<Rightarrow> chunk_payload_data list list" where
  "bundle_loop mtu cur n [] = [cur]"
| "bundle_loop mtu cur n (c # cs) =
    (let data_len = of_nat (length (pd_user_data c)) in
     if n + data_len > mtu \<and> cur \<noteq> []
     then cur # bundle_loop mtu [c] (COMMON_HEADER_SIZE + (DATA_CHUNK_HEADER_SIZE + data_len)) cs
     else bundle_loop mtu (cur @ [c]) (n + (DATA_CHUNK_HEADER_SIZE + data_len)) cs)"

definition bundle_data_chunks_into_packets ::
    "crc_fun \<Rightarrow> chunk_payload_data list \<Rightarrow> association \<Rightarrow> bytes list \<Rightarrow> bytes list" where
  "bundle_data_chunks_into_packets crc chunks a raw_packets =
    (if chunks = [] then raw_packets
     else
       let h = \<lparr>hd_source_port = a_source_port a, hd_destination_port = a_destination_port a,
                hd_verification_tag = a_peer_verification_tag a\<rparr>
       in fold (\<lambda>b. push_raw (write_framed crc h (map CPayloadData b) []))
            (bundle_loop (a_mtu a) [] COMMON_HEADER_SIZE chunks) raw_packets)"

section \<open>Retransmission\<close>

text \<open>The scan of \<open>get_data_packets_to_retransmit\<close>. It goes from TSN to TSN while the chunk
is in flight; a scan that never ends is \<open>None\<close>. The result is the chunks, \<open>chunks_remaining\<close>
and the association.\<close>

partial_function (option) retransmit_loop ::
    "instant \<Rightarrow> u32 \<Rightarrow> u32 \<Rightarrow> nat \<Rightarrow> chunk_payload_data list \<Rightarrow> association \<Rightarrow>
     (chunk_payload_data list \<times> bool \<times> association) option" where
  "retransmit_loop now awnd i bytes_to_send chunks a =
    (let tsn = a_cumulative_tsn_ack_point a + i + 1 in
     case pl_get tsn (a_inflight_queue a) of
       None \<Rightarrow> Some (chunks, False, a)
     | Some c \<Rightarrow>
         if \<not> pd_retransmit c then retransmit_loop now awnd (i + 1) bytes_to_send chunks a
         else
           let probe = (i = 0 \<and> a_rwnd a < of_nat (length (pd_user_data c))) in
           if \<not> probe \<and> bytes_to_send + length (pd_user_data c) > unat awnd then Some (chunks, True, a)
           else
             let d = check_partial_reliability_status now (a_use_forward_tsn a) (a_streams a)
                       (c\<lparr>pd_retransmit := False, pd_nsent := pd_nsent c + 1\<rparr>);
                 a = a\<lparr>a_inflight_queue := pl_modify tsn (\<lambda>_. d) (a_inflight_queue a)\<rparr>
             in if probe then Some (chunks @ [d], True, a)
                else retransmit_loop now awnd (i + 1) (bytes_to_send + length (pd_user_data c))
                       (chunks @ [d]) a)"

definition get_data_packets_to_retransmit ::
    "crc_fun \<Rightarrow> instant \<Rightarrow> bytes list \<Rightarrow> association \<Rightarrow> (bytes list \<times> association) option" where
  "get_data_packets_to_retransmit crc now raw_packets a =
    (case retransmit_loop now (min (a_cwnd a) (a_rwnd a)) 0 0 [] a of
       None \<Rightarrow> None
     | Some (chunks, chunks_remaining, a) \<Rightarrow>
         let a = a\<lparr>a_t3_retransmit_pending := chunks_remaining\<rparr>
         in Some (bundle_data_chunks_into_packets crc chunks a raw_packets, a))"

definition gather_data_packets_to_retransmit ::
    "crc_fun \<Rightarrow> instant \<Rightarrow> bytes list \<Rightarrow> association \<Rightarrow> (bytes list \<times> association) option" where
  "gather_data_packets_to_retransmit crc now raw_packets a =
    (if a_t3_retransmit_pending a then get_data_packets_to_retransmit crc now raw_packets a
     else Some (raw_packets, a))"

text \<open>The scan of the fast retransmission.\<close>

partial_function (option) fast_retransmit_loop ::
    "instant \<Rightarrow> u32 \<Rightarrow> u32 \<Rightarrow> chunk_payload_data list \<Rightarrow> association \<Rightarrow>
     (chunk_payload_data list \<times> association) option" where
  "fast_retransmit_loop now i fast_retrans_size chunks a =
    (let tsn = a_cumulative_tsn_ack_point a + i + 1 in
     case pl_get tsn (a_inflight_queue a) of
       None \<Rightarrow> Some (chunks, a)
     | Some c \<Rightarrow>
         if pd_acked c \<or> is_abandoned c \<or> pd_nsent c > 1 \<or> pd_miss_indicator c < 3
         then fast_retransmit_loop now (i + 1) fast_retrans_size chunks a
         else
           let data_chunk_size = DATA_CHUNK_HEADER_SIZE + of_nat (length (pd_user_data c)) in
           if a_mtu a < fast_retrans_size + data_chunk_size then Some (chunks, a)
           else
             let d = check_partial_reliability_status now (a_use_forward_tsn a) (a_streams a)
                       (c\<lparr>pd_nsent := pd_nsent c + 1\<rparr>);
                 a = a\<lparr>a_stats := inc_fast_retrans (a_stats a),
                       a_inflight_queue := pl_modify tsn (\<lambda>_. d) (a_inflight_queue a)\<rparr>
             in fast_retransmit_loop now (i + 1) (fast_retrans_size + data_chunk_size) (chunks @ [d]) a)"

definition gather_outbound_fast_retransmission_packets ::
    "crc_fun \<Rightarrow> instant \<Rightarrow> bytes list \<Rightarrow> association \<Rightarrow> (bytes list \<times> association) option" where
  "gather_outbound_fast_retransmission_packets crc now raw_packets a =
    (if a_will_retransmit_fast a then
       case fast_retransmit_loop now 0 COMMON_HEADER_SIZE [] (a\<lparr>a_will_retransmit_fast := False\<rparr>) of
         None \<Rightarrow> None
       | Some (chunks, a) \<Rightarrow>
           Some (if chunks \<noteq> [] then push_chunks crc (map CPayloadData chunks) a raw_packets else raw_packets, a)
     else Some (raw_packets, a))"

section \<open>Data and reconfiguration\<close>

definition send_reconfig :: "crc_fun \<Rightarrow> u16 list \<Rightarrow> bytes list \<Rightarrow> association \<Rightarrow> bytes list \<times> association" where
  "send_reconfig crc sis raw_packets a =
    (let (rsn, a) = generate_next_rsn a;
         tsn = a_my_next_tsn a - 1;
         c = \<lparr>rc_param_a = Some (POutgoingResetRequest \<lparr>orr_request_sequence_number = rsn,
                orr_response_sequence_number = 0, orr_sender_last_tsn = tsn, orr_stream_identifiers = sis\<rparr>),
              rc_param_b = None\<rparr>;
         a = a\<lparr>a_reconfigs := AList.update rsn c (a_reconfigs a)\<rparr>
     in (push_chunks crc [CReconfig c] a raw_packets, a))"

definition gather_outbound_data_and_reconfig_packets ::
    "crc_fun \<Rightarrow> instant \<Rightarrow> bytes list \<Rightarrow> association \<Rightarrow> (bytes list \<times> association) option" where
  "gather_outbound_data_and_reconfig_packets crc now raw_packets a =
    (case pop_pending_data_chunks_to_send now a of
       None \<Rightarrow> None
     | Some (chunks, sis_to_reset, a) \<Rightarrow>
         let (raw_packets, a) =
               (if chunks \<noteq> [] then
                  let a = timer_restart_if_stale T3RTX now a
                  in (bundle_data_chunks_into_packets crc chunks a raw_packets, a)
                else (raw_packets, a)) in
         if sis_to_reset \<noteq> [] \<or> a_will_retransmit_reconfig a then
           let (raw_packets, a) =
                 (if a_will_retransmit_reconfig a then
                    let a = a\<lparr>a_will_retransmit_reconfig := False\<rparr>
                    in (fold (\<lambda>(_, c). push_chunks crc [CReconfig c] a) (a_reconfigs a) raw_packets, a)
                  else (raw_packets, a));
               (raw_packets, a) =
                 (if sis_to_reset \<noteq> [] then send_reconfig crc sis_to_reset raw_packets a
                  else (raw_packets, a))
           in Some (raw_packets, if a_reconfigs a \<noteq> [] then timer_start Reconfig now a else a)
         else Some (raw_packets, a))"

section \<open>SACK, FORWARD TSN and shutdown\<close>

definition create_selective_ack_chunk :: "association \<Rightarrow> chunk_selective_ack \<times> association" where
  "create_selective_ack_chunk a =
    (let credit = get_my_receiver_window_credit a;
         blocks = pl_get_gap_ack_blocks (a_peer_last_tsn a) (a_payload_queue a);
         (dups, q) = pl_pop_duplicates (a_payload_queue a)
     in (\<lparr>sa_cumulative_tsn_ack = a_peer_last_tsn a, sa_advertised_receiver_window_credit = credit,
          sa_gap_ack_blocks = blocks, sa_duplicate_tsn = dups\<rparr>, a\<lparr>a_payload_queue := q\<rparr>))"

definition gather_outbound_sack_packets ::
    "crc_fun \<Rightarrow> bytes list \<Rightarrow> association \<Rightarrow> bytes list \<times> association" where
  "gather_outbound_sack_packets crc raw_packets a =
    (if a_ack_state a = AckImmediate then
       let (sack, a) = create_selective_ack_chunk (a\<lparr>a_ack_state := AckIdle\<rparr>)
       in (push_chunks crc [CSack sack] a raw_packets, a)
     else (raw_packets, a))"

definition create_forward_tsn :: "association \<Rightarrow> chunk_forward_tsn" where
  "create_forward_tsn a =
    \<lparr>ft_new_cumulative_tsn = a_advanced_peer_tsn_ack_point a,
     ft_streams = map (\<lambda>(si, ssn). \<lparr>fts_identifier = si, fts_sequence = ssn\<rparr>) (a_fwd_tsn_stream_map a)\<rparr>"

definition gather_outbound_forward_tsn_packets ::
    "crc_fun \<Rightarrow> bytes list \<Rightarrow> association \<Rightarrow> bytes list \<times> association" where
  "gather_outbound_forward_tsn_packets crc raw_packets a =
    (if a_will_send_forward_tsn a then
       let a = a\<lparr>a_will_send_forward_tsn := False\<rparr> in
       if sna32gt (a_advanced_peer_tsn_ack_point a) (a_cumulative_tsn_ack_point a)
       then (push_chunks crc [CForwardTsn (create_forward_tsn a)] a raw_packets, a)
       else (raw_packets, a)
     else (raw_packets, a))"

text \<open>T2-shutdown is started only when the packet was serialized.\<close>

definition send_shutdown_chunk ::
    "crc_fun \<Rightarrow> chunk \<Rightarrow> instant \<Rightarrow> bytes list \<Rightarrow> association \<Rightarrow> bytes list \<times> association" where
  "send_shutdown_chunk crc c now raw_packets a =
    (case packet_marshal crc (create_packet a [c]) of
       Inr raw \<Rightarrow> (raw_packets @ [raw], timer_start T2Shutdown now a)
     | Inl _ \<Rightarrow> (raw_packets, a))"

definition gather_outbound_shutdown_packets ::
    "crc_fun \<Rightarrow> instant \<Rightarrow> bytes list \<Rightarrow> association \<Rightarrow> (bytes list \<times> bool) \<times> association" where
  "gather_outbound_shutdown_packets crc now raw_packets a =
    (if a_will_send_shutdown a then
       let (raw_packets, a) = send_shutdown_chunk crc (CShutdown (a_cumulative_tsn_ack_point a)) now raw_packets
             (a\<lparr>a_will_send_shutdown := False\<rparr>)
       in ((raw_packets, True), a)
     else if a_will_send_shutdown_ack a then
       let (raw_packets, a) = send_shutdown_chunk crc CShutdownAck now raw_packets
             (a\<lparr>a_will_send_shutdown_ack := False\<rparr>)
       in ((raw_packets, True), a)
     else if a_will_send_shutdown_complete a then
       let a = a\<lparr>a_will_send_shutdown_complete := False\<rparr> in
       case packet_marshal crc (create_packet a [CShutdownComplete]) of
         Inr raw \<Rightarrow> ((raw_packets @ [raw], False), a)
       | Inl _ \<Rightarrow> ((raw_packets, True), a)
     else ((raw_packets, True), a))"

section \<open>Gathering\<close>

definition drain_control :: "crc_fun \<Rightarrow> association \<Rightarrow> bytes list \<times> association" where
  "drain_control crc a =
    (fold (\<lambda>p. push_raw (packet_marshal crc p)) (a_control_queue a) [], a\<lparr>a_control_queue := []\<rparr>)"

definition gather_outbound ::
    "crc_fun \<Rightarrow> instant \<Rightarrow> association \<Rightarrow> ((bytes list \<times> bool) \<times> association) option" where
  "gather_outbound crc now a =
    (let (raw, a) = drain_control crc a in
     if a_state a = Established then
       case gather_data_packets_to_retransmit crc now raw a of None \<Rightarrow> None | Some (raw, a) \<Rightarrow>
      (case gather_outbound_data_and_reconfig_packets crc now raw a of None \<Rightarrow> None | Some (raw, a) \<Rightarrow>
      (case gather_outbound_fast_retransmission_packets crc now raw a of None \<Rightarrow> None | Some (raw, a) \<Rightarrow>
       let (raw, a) = gather_outbound_sack_packets crc raw a;
           (raw, a) = gather_outbound_forward_tsn_packets crc raw a
       in Some ((raw, True), a)))
     else if a_state a \<in> {ShutdownPending, ShutdownSent, ShutdownReceived} then
       case gather_data_packets_to_retransmit crc now raw a of None \<Rightarrow> None | Some (raw, a) \<Rightarrow>
      (case gather_outbound_fast_retransmission_packets crc now raw a of None \<Rightarrow> None | Some (raw, a) \<Rightarrow>
       let (raw, a) = gather_outbound_sack_packets crc raw a
       in Some (gather_outbound_shutdown_packets crc now raw a))
     else if a_state a = ShutdownAckSent then Some (gather_outbound_shutdown_packets crc now raw a)
     else Some ((raw, True), a))"

text \<open>\<open>poll_transmit\<close>: the datagrams for the peer, if any.\<close>

definition poll_transmit :: "crc_fun \<Rightarrow> instant \<Rightarrow> association \<Rightarrow> (bytes list option \<times> association) option" where
  "poll_transmit crc now a =
    (case gather_outbound crc now a of
       None \<Rightarrow> None
     | Some ((contents, _), a) \<Rightarrow> Some (if contents = [] then None else Some contents, a))"

end
