(* ===== verification/Sctp_Sack.thy ===== *)
theory Sctp_Sack
  imports Sctp_Association
begin

text \<open>Processing of selective acknowledgements (\<open>handle_sack\<close> and what it calls in
\<open>rtc-sctp/src/association/mod.rs\<close>): release of acknowledged chunks, RTT measurement,
congestion window, fast retransmission and the advanced peer ack point of RFC 3758.\<close>

section \<open>Acknowledged chunks\<close>

text \<open>\<open>bytes_acked_per_stream\<close>.\<close>

type_synonym acked_bytes = "(u16 \<times> int) list"

definition add_acked :: "u16 \<Rightarrow> int \<Rightarrow> acked_bytes \<Rightarrow> acked_bytes" where
  "add_acked si n m =
    (case map_of m si of
       Some amount \<Rightarrow> AList.update si (amount + n) m
     | None \<Rightarrow> AList.update si n m)"

definition measure_rtt :: "instant \<Rightarrow> chunk_payload_data \<Rightarrow> association \<Rightarrow> association" where
  "measure_rtt now c a =
    (case pd_since c of
       Some since \<Rightarrow>
         a\<lparr>a_rto_mgr := snd (rto_set_new_rtt (of_nat ((now - since) div 1000000)) (a_rto_mgr a))\<rparr>
     | None \<Rightarrow> a)"

text \<open>The body of the first loop, for the chunk popped at TSN \<open>i\<close>.\<close>

definition ack_popped :: "instant \<Rightarrow> u32 \<Rightarrow> chunk_payload_data \<Rightarrow> acked_bytes \<Rightarrow> association \<Rightarrow> acked_bytes \<times> association" where
  "ack_popped now i c m a =
    (let (m, a) =
      (if \<not> pd_acked c then
         let a = (if i = a_cumulative_tsn_ack_point a + 1 then timer_stop T3RTX a else a);
             m = add_acked (pd_stream_identifier c) (int (length (pd_user_data c))) m;
             a = (if pd_nsent c = 1 \<and> sna32gte (pd_tsn c) (a_min_tsn2measure_rtt a)
                  then measure_rtt now c (a\<lparr>a_min_tsn2measure_rtt := a_my_next_tsn a\<rparr>) else a)
         in (m, a)
       else (m, a))
     in (m, if a_in_fast_recovery a \<and> pd_tsn c = a_fast_recover_exit_point a
            then a\<lparr>a_in_fast_recovery := False\<rparr> else a))"

lemma sna32lte_next:
  "sna32lte i cum \<Longrightarrow>
   (if sna32lte (i + 1) cum then Suc (unat (cum - (i + 1))) else 0) < Suc (unat (cum - i))"
  using sna32.lt_step [of i cum] sna32lt_dist [of i cum] sna32.lt_asym [OF sna32_succ_lt, of cum]
  by (auto simp: sna32lte_def)

function cum_ack_loop ::
    "instant \<Rightarrow> u32 \<Rightarrow> u32 \<Rightarrow> acked_bytes \<Rightarrow> association \<Rightarrow> acked_bytes result \<times> association" where
  "cum_ack_loop now cum i m a =
    (if sna32lte i cum then
       case pl_pop i (a_inflight_queue a) of
         (None, q) \<Rightarrow> (Fail ErrInflightQueueTsnPop, a\<lparr>a_inflight_queue := q\<rparr>)
       | (Some c, q) \<Rightarrow>
           let ma = ack_popped now i c m (a\<lparr>a_inflight_queue := q\<rparr>)
           in cum_ack_loop now cum (i + 1) (fst ma) (snd ma)
     else (Ok m, a))"
  by pat_completeness auto
termination
  by (relation "measure (\<lambda>(_, cum, i, _). if sna32lte i cum then Suc (unat (cum - i)) else 0)")
    (auto dest: sna32lte_next)

declare cum_ack_loop.simps [simp del]

text \<open>The TSNs that the gap ack blocks name, in the order of the two nested loops.\<close>

definition gap_tsns :: "u32 \<Rightarrow> gap_ack_block list \<Rightarrow> u32 list" where
  "gap_tsns cum gs =
     concat (map (\<lambda>g. map (\<lambda>i. cum + of_nat i) [unat (gb_start g) ..< Suc (unat (gb_end g))]) gs)"

fun gap_ack_loop ::
    "instant \<Rightarrow> u32 list \<Rightarrow> acked_bytes \<Rightarrow> u32 \<Rightarrow> association \<Rightarrow> (acked_bytes \<times> u32) result \<times> association" where
  "gap_ack_loop now [] m htna a = (Ok (m, htna), a)"
| "gap_ack_loop now (tsn # tsns) m htna a =
    (case pl_get tsn (a_inflight_queue a) of
       None \<Rightarrow> (Fail ErrTsnRequestNotExist, a)
     | Some c \<Rightarrow>
         if pd_acked c then gap_ack_loop now tsns m htna a
         else
           let (n_bytes_acked, q) = pl_mark_as_acked tsn (a_inflight_queue a);
               a = a\<lparr>a_inflight_queue := q\<rparr>;
               m = add_acked (pd_stream_identifier c) (int n_bytes_acked) m;
               a = (if pd_nsent c = 1 then measure_rtt now c (a\<lparr>a_min_tsn2measure_rtt := a_my_next_tsn a\<rparr>) else a)
           in gap_ack_loop now tsns m (if sna32lt htna tsn then tsn else htna) a)"

definition process_selective_ack ::
    "chunk_selective_ack \<Rightarrow> instant \<Rightarrow> association \<Rightarrow> (acked_bytes \<times> u32) result \<times> association" where
  "process_selective_ack d now a =
    (case cum_ack_loop now (sa_cumulative_tsn_ack d) (a_cumulative_tsn_ack_point a + 1) [] a of
       (Inl e, a) \<Rightarrow> (Inl e, a)
     | (Inr m, a) \<Rightarrow>
         gap_ack_loop now (gap_tsns (sa_cumulative_tsn_ack d) (sa_gap_ack_blocks d)) m (sa_cumulative_tsn_ack d) a)"

section \<open>Congestion control\<close>

definition grow_cwnd :: "int \<Rightarrow> association \<Rightarrow> association" where
  "grow_cwnd total_bytes_acked a =
    (if a_cwnd a \<le> a_ssthresh a then
       if \<not> a_in_fast_recovery a \<and> \<not> pq_is_empty (a_pending_queue a)
       then a\<lparr>a_cwnd := a_cwnd a + min (of_int total_bytes_acked) (a_cwnd a)\<rparr> else a
     else
       let a = a\<lparr>a_partial_bytes_acked := a_partial_bytes_acked a + of_int total_bytes_acked\<rparr> in
       if a_partial_bytes_acked a \<ge> a_cwnd a \<and> \<not> pq_is_empty (a_pending_queue a)
       then a\<lparr>a_partial_bytes_acked := a_partial_bytes_acked a - a_cwnd a, a_cwnd := a_cwnd a + a_mtu a\<rparr>
       else a)"

definition on_cumulative_tsn_ack_point_advanced :: "int \<Rightarrow> instant \<Rightarrow> association \<Rightarrow> association" where
  "on_cumulative_tsn_ack_point_advanced total_bytes_acked now a =
     grow_cwnd total_bytes_acked
       (if pl_is_empty (a_inflight_queue a) then timer_stop T3RTX a
        else timer_restart_if_stale T3RTX now a)"

definition enter_fast_recovery :: "u32 \<Rightarrow> association \<Rightarrow> association" where
  "enter_fast_recovery htna a =
    (let a = a\<lparr>a_in_fast_recovery := True, a_fast_recover_exit_point := htna,
               a_ssthresh := max (a_cwnd a div 2) (4 * a_mtu a)\<rparr>
     in a\<lparr>a_cwnd := a_ssthresh a, a_partial_bytes_acked := 0, a_will_retransmit_fast := True\<rparr>)"

text \<open>The loop over the TSNs reported missing.\<close>

function miss_loop :: "u32 \<Rightarrow> u32 \<Rightarrow> u32 \<Rightarrow> unit step" where
  "miss_loop htna max_tsn tsn a =
    (if sna32lt tsn max_tsn then
       case pl_get tsn (a_inflight_queue a) of
         None \<Rightarrow> (Fail ErrTsnRequestNotExist, a)
       | Some c \<Rightarrow>
           let a = (if \<not> pd_acked c \<and> \<not> is_abandoned c \<and> pd_miss_indicator c < 3 then
                      let c = c\<lparr>pd_miss_indicator := pd_miss_indicator c + 1\<rparr>;
                          a = a\<lparr>a_inflight_queue := pl_modify tsn (\<lambda>_. c) (a_inflight_queue a)\<rparr>
                      in if pd_miss_indicator c = 3 \<and> \<not> a_in_fast_recovery a
                         then enter_fast_recovery htna a else a
                    else a)
           in miss_loop htna max_tsn (tsn + 1) a
     else (Ok (), a))"
  by pat_completeness auto
termination
  by (relation "measure (\<lambda>(_, m, t, _). unat (m - t))") (auto simp: sna32.lt_step sna32lt_dist)

declare miss_loop.simps [simp del]

definition process_fast_retransmission :: "u32 \<Rightarrow> u32 \<Rightarrow> bool \<Rightarrow> unit step" where
  "process_fast_retransmission cum_tsn_ack_point htna advanced a =
    (let (r, a) =
      (if \<not> a_in_fast_recovery a \<or> advanced then
         let max_tsn = (if \<not> a_in_fast_recovery a then htna
                        else cum_tsn_ack_point + of_nat (pl_len (a_inflight_queue a)) + 1)
         in miss_loop htna max_tsn (cum_tsn_ack_point + 1) a
       else (Ok (), a))
     in case r of
          Inl e \<Rightarrow> (Inl e, a)
        | Inr _ \<Rightarrow> (Ok (), if a_in_fast_recovery a \<and> advanced then a\<lparr>a_will_retransmit_fast := True\<rparr> else a))"

section \<open>The advanced peer ack point\<close>

definition note_abandoned_for_forward_tsn :: "bool \<Rightarrow> u16 \<Rightarrow> u16 \<Rightarrow> association \<Rightarrow> association" where
  "note_abandoned_for_forward_tsn unordered si ssn a =
    (if unordered then a
     else
       let ssn = (case map_of (a_fwd_tsn_stream_map a) si of
                    Some cur \<Rightarrow> if sna16lt cur ssn then ssn else cur
                  | None \<Rightarrow> ssn)
       in a\<lparr>a_fwd_tsn_stream_map := AList.update si ssn (a_fwd_tsn_stream_map a)\<rparr>)"

text \<open>RFC 3758 C2: advance over abandoned chunks. Every round needs another TSN that is in
flight, so the number of chunks in flight plus one bounds the rounds (lemma
\<open>advance_abandoned_stops\<close>).\<close>

fun advance_abandoned :: "nat \<Rightarrow> u32 \<Rightarrow> association \<Rightarrow> association" where
  "advance_abandoned 0 i a = a"
| "advance_abandoned (Suc n) i a =
    (case pl_get i (a_inflight_queue a) of
       Some c \<Rightarrow>
         if is_abandoned c
         then advance_abandoned n (i + 1)
                (note_abandoned_for_forward_tsn (pd_unordered c) (pd_stream_identifier c)
                   (pd_stream_sequence_number c) (a\<lparr>a_advanced_peer_tsn_ack_point := i\<rparr>))
         else a
     | None \<Rightarrow> a)"

definition advance_peer_ack_point :: "association \<Rightarrow> association" where
  "advance_peer_ack_point a =
     advance_abandoned (Suc (pl_len (a_inflight_queue a))) (a_advanced_peer_tsn_ack_point a + 1) a"

text \<open>The forward-TSN part of \<open>handle_sack\<close>: C1, C2 and C3.\<close>

definition update_forward_tsn :: "association \<Rightarrow> association" where
  "update_forward_tsn a =
    (let a = (if sna32lt (a_advanced_peer_tsn_ack_point a) (a_cumulative_tsn_ack_point a)
              then a\<lparr>a_advanced_peer_tsn_ack_point := a_cumulative_tsn_ack_point a, a_fwd_tsn_stream_map := []\<rparr>
              else a);
         a = advance_peer_ack_point a
     in if sna32gt (a_advanced_peer_tsn_ack_point a) (a_cumulative_tsn_ack_point a)
        then a\<lparr>a_will_send_forward_tsn := True\<rparr>
        else a\<lparr>a_fwd_tsn_stream_map := []\<rparr>)"

section \<open>The handler\<close>

text \<open>What is reported and released for one stream.\<close>

definition release_stream :: "u16 \<times> int \<Rightarrow> association \<Rightarrow> association" where
  "release_stream = (\<lambda>(si, n_bytes_acked) a.
    (let a = (if n_bytes_acked > 0
              then push_event (EvStream (BufferedAmountReleased si (nat n_bytes_acked))) a else a) in
     case map_of (a_streams a) si of
       Some s \<Rightarrow>
         let (low, s) = on_buffer_released n_bytes_acked s;
             a = set_stream si s a
         in if low then push_event (EvStream (BufferedAmountLow si)) a else a
     | None \<Rightarrow> a))"

definition update_rwnd :: "u32 \<Rightarrow> association \<Rightarrow> association" where
  "update_rwnd a_rwnd_received a =
    (let bytes_outstanding = of_nat (pl_n_bytes (a_inflight_queue a)) in
     a\<lparr>a_rwnd := (if bytes_outstanding \<ge> a_rwnd_received then 0 else a_rwnd_received - bytes_outstanding)\<rparr>)"

definition postprocess_sack :: "association_state \<Rightarrow> instant \<Rightarrow> association \<Rightarrow> association" where
  "postprocess_sack st now a =
    (if \<not> pl_is_empty (a_inflight_queue a) then timer_restart_if_stale T3RTX now a
     else if st = ShutdownPending then set_state ShutdownSent (a\<lparr>a_will_send_shutdown := True\<rparr>)
     else if st = ShutdownReceived then set_state ShutdownAckSent (a\<lparr>a_will_send_shutdown_ack := True\<rparr>)
     else a)"

definition handle_sack :: "chunk_selective_ack \<Rightarrow> instant \<Rightarrow> packet list step" where
  "handle_sack d now a =
    (let st = a_state a in
     if st \<noteq> Established \<and> st \<noteq> ShutdownPending \<and> st \<noteq> ShutdownReceived then (Ok [], a)
     else
       let a = a\<lparr>a_stats := inc_sacks (a_stats a)\<rparr> in
       if sna32gt (a_cumulative_tsn_ack_point a) (sa_cumulative_tsn_ack d) then (Ok [], a)
       else
         case process_selective_ack d now a of
           (Inl e, a) \<Rightarrow> (Inl e, a)
         | (Inr (m, htna), a) \<Rightarrow>
             let total_bytes_acked = fold (\<lambda>(_, n) t. t + n) m 0;
                 advanced = sna32lt (a_cumulative_tsn_ack_point a) (sa_cumulative_tsn_ack d);
                 a = (if advanced
                      then on_cumulative_tsn_ack_point_advanced total_bytes_acked now
                             (a\<lparr>a_cumulative_tsn_ack_point := sa_cumulative_tsn_ack d\<rparr>)
                      else a);
                 a = fold release_stream m a;
                 a = update_rwnd (sa_advertised_receiver_window_credit d) a in
             case process_fast_retransmission (sa_cumulative_tsn_ack d) htna advanced a of
               (Inl e, a) \<Rightarrow> (Inl e, a)
             | (Inr _, a) \<Rightarrow>
                 let a = (if a_use_forward_tsn a then update_forward_tsn a else a)
                 in (Ok [], postprocess_sack st now a))"

end
