(* ===== verification/Sctp_Sender.thy ===== *)
theory Sctp_Sender
  imports Sctp_Sack
begin

text \<open>The sending side of an association: the chunks in flight are exactly the TSNs between
the cumulative ack point and the next TSN, and every SACK that stays inside this window is
processed without error and releases exactly what it acknowledges.\<close>

section \<open>The flight\<close>

lemma dist_zero: "unat (x - c :: u32) = 0 \<longleftrightarrow> x = c"
  by (simp add: unat_eq_zero)

lemma dist_succ: "unat (x - c :: u32) \<noteq> 0 \<Longrightarrow> unat (x - (c + 1)) = unat (x - c) - 1"
  using unat_minus_one [of "x - c"] by (cases "x = c") (auto simp: diff_diff_eq)

lemma dist_step: "unat (t - c :: u32) < 2 ^ 31 \<Longrightarrow> unat (t + 1 - c) = Suc (unat (t - c))"
proof -
  assume "unat (t - c) < 2 ^ 31"
  moreover have "t + 1 - c = (t - c) + 1" by simp
  ultimately show ?thesis by (simp only: unat_word_ariths) simp
qed

fun tsn_run :: "u32 \<Rightarrow> nat \<Rightarrow> u32 list" where
  "tsn_run t 0 = []"
| "tsn_run t (Suc n) = (t + 1) # tsn_run (t + 1) n"

lemma length_tsn_run [simp]: "length (tsn_run t n) = n"
  by (induction n arbitrary: t) auto

lemma tsn_run_snoc: "tsn_run t (Suc n) = tsn_run t n @ [t + of_nat (Suc n)]"
proof (induction n arbitrary: t)
  case (Suc n)
  have "tsn_run t (Suc (Suc n)) = (t + 1) # tsn_run (t + 1) (Suc n)" by (rule tsn_run.simps)
  also have "\<dots> = tsn_run t (Suc n) @ [t + 1 + of_nat (Suc n)]" 
    unfolding Suc [of "t + 1"] by simp
  finally show ?case by (simp add: add.assoc)
qed simp

lemma set_tsn_run: "set (tsn_run t n) = (\<lambda>i. t + of_nat (Suc i)) ` {..<n}"
  by (induction n) (auto simp: lessThan_Suc tsn_run_snoc simp del: tsn_run.simps(2))

lemma tsn_run_iff:
  assumes "n < 2 ^ 32"
  shows "u \<in> set (tsn_run t n) \<longleftrightarrow> 1 \<le> unat (u - t) \<and> unat (u - t) \<le> n"
proof
  assume "u \<in> set (tsn_run t n)"
  then obtain i where i: "i < n" "u = t + of_nat (Suc i)" by (auto simp: set_tsn_run)
  have "unat (of_nat (Suc i) :: u32) = Suc i" using i assms by (intro unat_of_nat_u32) simp
  then show "1 \<le> unat (u - t) \<and> unat (u - t) \<le> n" using i by simp
next
  assume a: "1 \<le> unat (u - t) \<and> unat (u - t) \<le> n"
  then have "u = t + of_nat (Suc (unat (u - t) - 1))" by simp
  moreover have "unat (u - t) - 1 \<in> {..<n}" using a by auto
  ultimately show "u \<in> set (tsn_run t n)" unfolding set_tsn_run by (rule image_eqI)
qed

definition flight_inv :: "u32 \<Rightarrow> u32 \<Rightarrow> payload_queue \<Rightarrow> bool" where
  "flight_inv cum next q \<longleftrightarrow>
     pl_inv q \<and> Suc (pl_len q) < 2 ^ 31 \<and> next = cum + 1 + of_nat (pl_len q) \<and> pl_sorted q = tsn_run cum (pl_len q)"

lemma flight_pl_inv: "flight_inv cum next q \<Longrightarrow> pl_inv q"
  by (simp add: flight_inv_def)

lemma flight_get_iff:
  "flight_inv cum next q \<Longrightarrow> pl_get u q \<noteq> None \<longleftrightarrow> 1 \<le> unat (u - cum) \<and> unat (u - cum) \<le> pl_len q"
  using pl_inv_get_iff [of q u] tsn_run_iff [of "pl_len q" u cum] by (simp add: flight_inv_def)

lemma flight_pop:
  assumes "flight_inv cum next q" and "pl_len q \<noteq> 0"
  obtains c q' where "pl_pop (cum + 1) q = (Some c, q')" "pl_get (cum + 1) q = Some c"
    "flight_inv (cum + 1) next q'" "pl_len q = Suc (pl_len q')"
    "pl_n_bytes q = length (pd_user_data c) + pl_n_bytes q'"
    "\<And>u. pl_get u q' = (if u = cum + 1 then None else pl_get u q)"
proof -
  obtain n where n: "pl_len q = Suc n" using assms(2) not0_implies_Suc by blast
  have inv: "pl_inv q" and "front (pl_sorted q) = Some (cum + 1)"
    using assms(1) n by (auto simp: flight_inv_def)
  then obtain c q' where p: "pl_pop (cum + 1) q = (Some c, q')" by (metis pl_pop_front)
  note s = pl_pop_Some [OF inv p]
  have "flight_inv (cum + 1) next q'"
    using assms(1) s n by (simp add: flight_inv_def algebra_simps)
  with p s that show thesis by blast
qed

lemma flight_modify:
  assumes "flight_inv cum next q"
    and "\<And>c. pl_get t q = Some c \<Longrightarrow> pd_tsn (f c) = pd_tsn c \<and> length (pd_user_data (f c)) = length (pd_user_data c)"
  shows "flight_inv cum next (pl_modify t f q) \<and> pl_len (pl_modify t f q) = pl_len q"
proof -
  have "pl_inv (pl_modify t f q)" using assms by (intro pl_modify_inv) (auto simp: flight_inv_def)
  moreover from this have "pl_len (pl_modify t f q) = pl_len q"
    using pl_inv_len [OF flight_pl_inv [OF assms(1)]] pl_inv_len by simp
  ultimately show ?thesis using assms(1) by (simp add: flight_inv_def)
qed

lemma flight_push:
  assumes "flight_inv cum next q" and "pd_tsn c = next" and "Suc (Suc (pl_len q)) < 2 ^ 31"
  shows "flight_inv cum (next + 1) (pl_push_no_check c q) \<and> pl_len (pl_push_no_check c q) = Suc (pl_len q)"
proof -
  let ?n = "pl_len q"
  have e: "next = cum + of_nat (Suc ?n)" using assms(1) by (simp add: flight_inv_def)
  have d: "unat (next - cum) = Suc ?n"
    unfolding e using unat_of_nat_u32 [of "Suc ?n"] assms(3) by (simp del: of_nat_Suc)
  then have none: "pl_get (pd_tsn c) q = None"
    using flight_get_iff [OF assms(1), of "next"] assms(2) by auto
  have inv: "pl_inv (pl_push_no_check c q)"
    using assms(1) none by (intro pl_push_no_check_inv) (auto simp: flight_inv_def)
  have lt: "sna32lt x next" if "x \<in> set (pl_sorted q)" for x
  proof -
    have x: "1 \<le> unat (x - cum)" "unat (x - cum) \<le> ?n"
      using that assms(1) tsn_run_iff [of ?n x cum] by (simp_all add: flight_inv_def)
    have "unat ((next - cum) - (x - cum)) = unat (next - cum) - unat (x - cum)"
      using x d by (intro unat_sub) (simp add: word_le_nat_alt)
    then show ?thesis using x d assms(3) by (simp add: sna32lt_dist)
  qed
  then have "pl_sorted (pl_push_no_check c q) = pl_sorted q @ [next]"
    using assms(2) by (simp add: pl_push_no_check_def pl_insert_sorted_def Let_def insert_at_partition_point
        takeWhile_eq_all_conv [THEN iffD2] dropWhile_eq_Nil_conv [THEN iffD2])
  moreover from this have len: "pl_len (pl_push_no_check c q) = Suc ?n"
    using pl_inv_len [OF flight_pl_inv [OF assms(1)]] pl_inv_len [OF inv] by simp
  ultimately show ?thesis
    using assms inv tsn_run_snoc [of cum ?n] e by (simp add: flight_inv_def add.assoc del: tsn_run.simps)
qed

section \<open>Releasing acknowledged chunks\<close>

text \<open>What \<open>process_selective_ack\<close> may change.\<close>

definition sack_frame :: "association \<Rightarrow> association \<Rightarrow> bool" where
  "sack_frame a b \<longleftrightarrow>
     b = a\<lparr>a_inflight_queue := a_inflight_queue b, a_timers := a_timers b,
           a_min_tsn2measure_rtt := a_min_tsn2measure_rtt b, a_rto_mgr := a_rto_mgr b,
           a_in_fast_recovery := a_in_fast_recovery b\<rparr>"

lemma sack_frame_refl: "sack_frame a a"
  by (simp add: sack_frame_def)

lemma sack_frame_trans: "sack_frame a b \<Longrightarrow> sack_frame b c \<Longrightarrow> sack_frame a c"
  by (cases a, cases b, cases c) (simp add: sack_frame_def)

lemma sack_frame_sel:
  assumes "sack_frame a b"
  shows "a_cumulative_tsn_ack_point b = a_cumulative_tsn_ack_point a" "a_my_next_tsn b = a_my_next_tsn a"
    "a_pending_queue b = a_pending_queue a" "a_state b = a_state a" "a_streams b = a_streams a"
    "a_cwnd b = a_cwnd a" "a_mtu b = a_mtu a" "a_use_forward_tsn b = a_use_forward_tsn a"
  using assms by (cases a, cases b, simp add: sack_frame_def)+

lemma measure_rtt_frame: "sack_frame a (measure_rtt now c a) \<and> a_inflight_queue (measure_rtt now c a) = a_inflight_queue a"
  by (simp add: measure_rtt_def sack_frame_def split: option.splits)

definition acked_sum :: "acked_bytes \<Rightarrow> int" where
  "acked_sum m = sum_list (map snd m)"

lemma acked_sum_add: "distinct (map fst m) \<Longrightarrow> acked_sum (add_acked si n m) = acked_sum m + n \<and>
   distinct (map fst (add_acked si n m))"
proof (induction m)
  case (Cons p m)
  obtain k v where p: "p = (k, v)" by (cases p)
  show ?case
  proof (cases "k = si")
    case True
    then show ?thesis using Cons.prems p by (simp add: add_acked_def acked_sum_def)
  next
    case False
    then have "add_acked si n (p # m) = p # add_acked si n m"
      using p by (simp add: add_acked_def split: option.splits)
    then show ?thesis
      using Cons p False by (auto simp: acked_sum_def add_acked_def split: option.splits)
  qed
qed (simp add: add_acked_def acked_sum_def)

lemma ack_popped_frame:
  assumes "ack_popped now i c m a = (m', b)"
  shows "sack_frame a b \<and> a_inflight_queue b = a_inflight_queue a"
  using assms
  by (auto simp: ack_popped_def measure_rtt_def timer_stop_def sack_frame_def Let_def
      split: if_splits option.splits)

lemma ack_popped_sum:
  assumes "distinct (map fst m)" and "ack_popped now i c m a = (m', b)"
  shows "distinct (map fst m') \<and>
    acked_sum m' = acked_sum m + (if pd_acked c then 0 else int (length (pd_user_data c)))"
  using assms(2) acked_sum_add [OF assms(1)] assms(1)
  by (auto simp: ack_popped_def Let_def split: if_splits)

definition acked_empty :: "payload_queue \<Rightarrow> bool" where
  "acked_empty q \<longleftrightarrow> (\<forall>u c. pl_get u q = Some c \<longrightarrow> pd_acked c \<longrightarrow> pd_user_data c = [])"

lemma cum_ack_loop_ok:
  assumes "flight_inv c0 next (a_inflight_queue a)" "unat (cum - c0) \<le> pl_len (a_inflight_queue a)"
    "distinct (map fst m)" "acked_empty (a_inflight_queue a)"
  shows "\<exists>m' b. cum_ack_loop now cum (c0 + 1) m a = (Ok m', b) \<and> sack_frame a b \<and> distinct (map fst m') \<and>
    flight_inv cum next (a_inflight_queue b) \<and>
    pl_len (a_inflight_queue a) = unat (cum - c0) + pl_len (a_inflight_queue b) \<and>
    (\<forall>u c. pl_get u (a_inflight_queue b) = Some c \<longrightarrow> pl_get u (a_inflight_queue a) = Some c) \<and>
    acked_sum m' + int (pl_n_bytes (a_inflight_queue b)) = acked_sum m + int (pl_n_bytes (a_inflight_queue a))"
  using assms
proof (induction "unat (cum - c0)" arbitrary: c0 m a)
  case 0
  then have "cum = c0" using dist_zero [of cum c0] by auto
  moreover have "\<not> sna32lte (c0 + 1) c0"
    using sna32.lt_asym [OF sna32_succ_lt, of c0] by (auto simp: sna32lte_def)
  ultimately show ?case
    using "0.prems" sack_frame_refl [of a] by (intro exI [of _ m] exI [of _ a]) (simp add: cum_ack_loop.simps)
next
  case (Suc n)
  let ?q = "a_inflight_queue a"
  have d: "unat (cum - (c0 + 1)) = n"
    using Suc.hyps(2) dist_succ [of cum c0] by simp
  then have lte: "sna32lte (c0 + 1) cum"
    using Suc.prems Suc.hyps(2) by (simp add: sna32.lte_dist flight_inv_def)
  have "pl_len ?q \<noteq> 0" using Suc.prems(2) Suc.hyps(2) by simp
  then obtain c q where p: "pl_pop (c0 + 1) ?q = (Some c, q)" "pl_get (c0 + 1) ?q = Some c"
    "flight_inv (c0 + 1) next q" "pl_len ?q = Suc (pl_len q)"
    "pl_n_bytes ?q = length (pd_user_data c) + pl_n_bytes q"
    "\<And>u. pl_get u q = (if u = c0 + 1 then None else pl_get u ?q)"
    using flight_pop [OF Suc.prems(1)] by blast
  obtain m1 b1 where a1: "ack_popped now (c0 + 1) c m (a\<lparr>a_inflight_queue := q\<rparr>) = (m1, b1)" by fastforce
  have f1: "sack_frame a (a\<lparr>a_inflight_queue := q\<rparr>)" by (simp add: sack_frame_def)
  note s1 = ack_popped_frame [OF a1] ack_popped_sum [OF Suc.prems(3) a1]
  have "acked_empty q" using Suc.prems(4) p(6) by (auto simp: acked_empty_def split: if_splits)
  with Suc.hyps(1) [of "c0 + 1" b1 m1] obtain m2 b2 where r:
    "cum_ack_loop now cum (c0 + 1 + 1) m1 b1 = (Ok m2, b2)" "sack_frame b1 b2" "distinct (map fst m2)"
    "flight_inv cum next (a_inflight_queue b2)" "pl_len q = n + pl_len (a_inflight_queue b2)"
    "\<forall>u c. pl_get u (a_inflight_queue b2) = Some c \<longrightarrow> pl_get u q = Some c"
    "acked_sum m2 + int (pl_n_bytes (a_inflight_queue b2)) = acked_sum m1 + int (pl_n_bytes q)"
    using d p s1 Suc.prems Suc.hyps(2) by auto
  have "cum_ack_loop now cum (c0 + 1) m a = (Ok m2, b2)"
    using lte p(1) a1 r(1) by (subst cum_ack_loop.simps) simp
  moreover have "sack_frame a b2"
    using sack_frame_trans [OF f1 sack_frame_trans [OF _ r(2)]] s1 by blast
  moreover have "acked_sum m2 + int (pl_n_bytes (a_inflight_queue b2)) = acked_sum m + int (pl_n_bytes ?q)"
    using r(7) s1 p(2,5) Suc.prems(4) by (auto simp: acked_empty_def)
  moreover have "pl_len ?q = unat (cum - c0) + pl_len (a_inflight_queue b2)"
    using r(5) p(4) Suc.hyps(2) by simp
  moreover have "\<forall>u c. pl_get u (a_inflight_queue b2) = Some c \<longrightarrow> pl_get u ?q = Some c"
    using r(6) p(6) by (metis option.distinct(1))
  ultimately show ?case using r(3,4) by blast
qed

text \<open>A SACK beyond the last TSN sent fails.\<close>

lemma cum_ack_loop_beyond:
  assumes "flight_inv c0 next (a_inflight_queue a)" "pl_len (a_inflight_queue a) < unat (cum - c0)"
    "unat (cum - c0) \<le> 2 ^ 31"
  shows "fst (cum_ack_loop now cum (c0 + 1) m a) = Fail ErrInflightQueueTsnPop"
  using assms
proof (induction "pl_len (a_inflight_queue a)" arbitrary: c0 m a)
  case 0
  have "unat (cum - (c0 + 1)) = unat (cum - c0) - 1"
    using "0.prems" dist_succ [of cum c0] by simp
  then have "sna32lte (c0 + 1) cum" using "0.prems" by (simp add: sna32.lte_dist)
  moreover have "pl_pop (c0 + 1) (a_inflight_queue a) = (None, a_inflight_queue a)"
    using "0" by (intro pl_pop_not_front) (simp add: flight_inv_def)
  ultimately show ?case by (subst cum_ack_loop.simps) simp
next
  case (Suc n)
  let ?q = "a_inflight_queue a"
  have d: "unat (cum - (c0 + 1)) = unat (cum - c0) - 1"
    using Suc.prems dist_succ [of cum c0] by simp
  then have lte: "sna32lte (c0 + 1) cum" using Suc.prems by (simp add: sna32.lte_dist)
  have "pl_len ?q \<noteq> 0" using Suc.hyps(2) by simp
  then obtain c q where p: "pl_pop (c0 + 1) ?q = (Some c, q)" "flight_inv (c0 + 1) next q" "pl_len ?q = Suc (pl_len q)"
    using flight_pop [OF Suc.prems(1)] by metis
  have "a_inflight_queue (snd (ack_popped now (c0 + 1) c m (a\<lparr>a_inflight_queue := q\<rparr>))) = q"
    by (simp add: ack_popped_frame [OF surjective_pairing])
  then have "fst (cum_ack_loop now cum (c0 + 1 + 1)
      (fst (ack_popped now (c0 + 1) c m (a\<lparr>a_inflight_queue := q\<rparr>)))
      (snd (ack_popped now (c0 + 1) c m (a\<lparr>a_inflight_queue := q\<rparr>)))) = Fail ErrInflightQueueTsnPop"
    using Suc p d by (intro Suc.hyps(1)) auto
  then show ?case using lte p(1) by (subst cum_ack_loop.simps) (simp add: Let_def)
qed

section \<open>Gap ack blocks\<close>

definition mark_acked :: "chunk_payload_data \<Rightarrow> chunk_payload_data" where
  "mark_acked c = (if pd_acked c then c else c\<lparr>pd_acked := True, pd_retransmit := False, pd_user_data := []\<rparr>)"

lemma mark_acked_idem [simp]: "mark_acked (mark_acked c) = mark_acked c"
  by (simp add: mark_acked_def)

lemma flight_mark:
  assumes "flight_inv cum next q" "pl_get t q = Some c" "\<not> pd_acked c" "acked_empty q"
  obtains q' where "pl_mark_as_acked t q = (length (pd_user_data c), q')" "flight_inv cum next q'"
    "pl_len q' = pl_len q" "pl_n_bytes q = length (pd_user_data c) + pl_n_bytes q'" "acked_empty q'"
    "\<And>u. pl_get u q' = (if u = t then Some (mark_acked c) else pl_get u q)"
proof -
  obtain q' where q': "pl_mark_as_acked t q = (length (pd_user_data c), q')" "pl_inv q'"
    "pl_sorted q' = pl_sorted q" "pl_n_bytes q = length (pd_user_data c) + pl_n_bytes q'"
    "\<And>u. pl_get u q' = (if u = t then Some (mark_acked c) else pl_get u q)"
    using pl_mark_as_acked_Some [OF flight_pl_inv [OF assms(1)] assms(2)] assms(3)
    by (metis mark_acked_def)
  have len: "pl_len q' = pl_len q"
    using pl_inv_len [OF q'(2)] pl_inv_len [OF flight_pl_inv [OF assms(1)]] q'(3) by simp
  have "flight_inv cum next q'" using assms(1) q'(2,3) len by (simp add: flight_inv_def)
  moreover have "acked_empty q'"
    using assms(3,4) q'(5) by (auto simp: acked_empty_def mark_acked_def)
  ultimately show thesis using that q' len by blast
qed

lemma gap_ack_loop_ok:
  assumes "flight_inv cum next (a_inflight_queue a)" "\<forall>t\<in>set tsns. pl_get t (a_inflight_queue a) \<noteq> None"
    "distinct (map fst m)" "acked_empty (a_inflight_queue a)" "h = cum \<or> pl_get h (a_inflight_queue a) \<noteq> None"
  shows "\<exists>m' h' b. gap_ack_loop now tsns m h a = (Ok (m', h'), b) \<and> sack_frame a b \<and>
    flight_inv cum next (a_inflight_queue b) \<and> pl_len (a_inflight_queue b) = pl_len (a_inflight_queue a) \<and>
    (h' = cum \<or> pl_get h' (a_inflight_queue a) \<noteq> None) \<and> acked_empty (a_inflight_queue b) \<and> distinct (map fst m') \<and>
    (\<forall>u. pl_get u (a_inflight_queue b) =
      (if u \<in> set tsns then map_option mark_acked (pl_get u (a_inflight_queue a)) else pl_get u (a_inflight_queue a))) \<and>
    acked_sum m' + int (pl_n_bytes (a_inflight_queue b)) = acked_sum m + int (pl_n_bytes (a_inflight_queue a))"
  using assms
proof (induction tsns arbitrary: m h a)
  case (Cons t tsns)
  let ?q = "a_inflight_queue a"
  obtain c where c: "pl_get t ?q = Some c" using Cons.prems(2) by auto
  show ?case
  proof (cases "pd_acked c")
    case True
    then have "mark_acked c = c" by (simp add: mark_acked_def)
    with True c Cons.IH [of a m h] Cons.prems show ?thesis by fastforce
  next
    case False
    obtain q where q: "pl_mark_as_acked t ?q = (length (pd_user_data c), q)" "flight_inv cum next q"
      "pl_len q = pl_len ?q" "pl_n_bytes ?q = length (pd_user_data c) + pl_n_bytes q" "acked_empty q"
      "\<And>u. pl_get u q = (if u = t then Some (mark_acked c) else pl_get u ?q)"
      using flight_mark [OF Cons.prems(1) c False Cons.prems(4)] by blast
    let ?m = "add_acked (pd_stream_identifier c) (int (length (pd_user_data c))) m"
    let ?a = "a\<lparr>a_inflight_queue := q\<rparr>"
    let ?b = "if pd_nsent c = 1 then measure_rtt now c (?a\<lparr>a_min_tsn2measure_rtt := a_my_next_tsn ?a\<rparr>) else ?a"
    let ?h = "if sna32lt h t then t else h"
    have b: "sack_frame a ?b" "a_inflight_queue ?b = q"
      by (simp_all add: measure_rtt_def sack_frame_def split: option.splits)
    have ne: "pl_get u q \<noteq> None \<longleftrightarrow> pl_get u ?q \<noteq> None" for u using q(6) c by auto
    have "\<exists>m' h' b'. gap_ack_loop now tsns ?m ?h ?b = (Ok (m', h'), b') \<and> sack_frame ?b b' \<and>
      flight_inv cum next (a_inflight_queue b') \<and> pl_len (a_inflight_queue b') = pl_len q \<and>
      (h' = cum \<or> pl_get h' q \<noteq> None) \<and> acked_empty (a_inflight_queue b') \<and> distinct (map fst m') \<and>
      (\<forall>u. pl_get u (a_inflight_queue b') =
        (if u \<in> set tsns then map_option mark_acked (pl_get u q) else pl_get u q)) \<and>
      acked_sum m' + int (pl_n_bytes (a_inflight_queue b')) = acked_sum ?m + int (pl_n_bytes q)"
      using Cons.IH [of ?b ?m ?h] b(2) q(2,5) ne Cons.prems(2,5) c acked_sum_add [OF Cons.prems(3)] by auto
    then obtain m' h' b' where r: "gap_ack_loop now tsns ?m ?h ?b = (Ok (m', h'), b')" "sack_frame ?b b'"
      "flight_inv cum next (a_inflight_queue b')" "pl_len (a_inflight_queue b') = pl_len q"
      "h' = cum \<or> pl_get h' q \<noteq> None" "acked_empty (a_inflight_queue b')" "distinct (map fst m')"
      "\<forall>u. pl_get u (a_inflight_queue b') =
        (if u \<in> set tsns then map_option mark_acked (pl_get u q) else pl_get u q)"
      "acked_sum m' + int (pl_n_bytes (a_inflight_queue b')) = acked_sum ?m + int (pl_n_bytes q)"
      by blast
    have "gap_ack_loop now (t # tsns) m h a = (Ok (m', h'), b')"
      using c False q(1) r(1) by (simp add: Let_def)
    moreover have "\<forall>u. pl_get u (a_inflight_queue b') =
        (if u \<in> set (t # tsns) then map_option mark_acked (pl_get u ?q) else pl_get u ?q)"
      using r(8) q(6) c by auto
    moreover have "acked_sum m' + int (pl_n_bytes (a_inflight_queue b')) = acked_sum m + int (pl_n_bytes ?q)"
      using r(9) q(4) acked_sum_add [OF Cons.prems(3)] by simp
    ultimately show ?thesis
      using r sack_frame_trans [OF b(1) r(2)] q(3) ne by (intro exI [of _ m'] exI [of _ h'] exI [of _ b']) auto
  qed
qed (auto simp: sack_frame_refl)

section \<open>Miss indications\<close>

definition miss_frame :: "association \<Rightarrow> association \<Rightarrow> bool" where
  "miss_frame a b \<longleftrightarrow>
     b = a\<lparr>a_inflight_queue := a_inflight_queue b, a_in_fast_recovery := a_in_fast_recovery b,
           a_fast_recover_exit_point := a_fast_recover_exit_point b, a_ssthresh := a_ssthresh b,
           a_cwnd := a_cwnd b, a_partial_bytes_acked := a_partial_bytes_acked b,
           a_will_retransmit_fast := a_will_retransmit_fast b\<rparr>"

lemma miss_frame_refl: "miss_frame a a"
  by (simp add: miss_frame_def)

lemma miss_frame_trans: "miss_frame a b \<Longrightarrow> miss_frame b c \<Longrightarrow> miss_frame a c"
  by (cases a, cases b, cases c) (simp add: miss_frame_def)

definition without_miss :: "chunk_payload_data \<Rightarrow> chunk_payload_data" where
  "without_miss c = c\<lparr>pd_miss_indicator := 0\<rparr>"

text \<open>Two flights that differ in the miss indicators only.\<close>

definition same_flight :: "payload_queue \<Rightarrow> payload_queue \<Rightarrow> bool" where
  "same_flight q r \<longleftrightarrow> pl_len r = pl_len q \<and> pl_n_bytes r = pl_n_bytes q \<and>
     (\<forall>u. map_option without_miss (pl_get u r) = map_option without_miss (pl_get u q))"

lemma same_flight_refl: "same_flight q q"
  by (simp add: same_flight_def)

lemma same_flight_trans: "same_flight q r \<Longrightarrow> same_flight r t \<Longrightarrow> same_flight q t"
  by (simp add: same_flight_def)

lemma miss_loop_ok:
  assumes "flight_inv cum next (a_inflight_queue a)" "1 \<le> unat (tsn - cum)"
    "unat (tsn - cum) \<le> Suc (pl_len (a_inflight_queue a))" "unat (max_tsn - cum) \<le> Suc (pl_len (a_inflight_queue a))"
  shows "\<exists>b. miss_loop htna max_tsn tsn a = (Ok (), b) \<and> miss_frame a b \<and>
    flight_inv cum next (a_inflight_queue b) \<and> same_flight (a_inflight_queue a) (a_inflight_queue b)"
  using assms
proof (induction htna max_tsn tsn a rule: miss_loop.induct)
  case (1 htna max_tsn tsn a)
  let ?q = "a_inflight_queue a"
  have len: "Suc (pl_len ?q) < 2 ^ 31" using "1.prems"(1) by (simp add: flight_inv_def)
  then have lt: "sna32lt tsn max_tsn \<longleftrightarrow> unat (tsn - cum) < unat (max_tsn - cum)"
    using "1.prems"(3,4) by (intro sna32.lt_window) simp_all
  show ?case
  proof (cases "sna32lt tsn max_tsn")
    case False
    then show ?thesis
      using "1.prems" miss_frame_refl same_flight_refl by (subst miss_loop.simps) auto
  next
    case True
    then have "pl_get tsn ?q \<noteq> None"
      using "1.prems" lt flight_get_iff [OF "1.prems"(1), of tsn] by simp
    then obtain c where c: "pl_get tsn ?q = Some c" by blast
    define b where "b = (if \<not> pd_acked c \<and> \<not> is_abandoned c \<and> pd_miss_indicator c < 3 then
        let c = c\<lparr>pd_miss_indicator := pd_miss_indicator c + 1\<rparr>;
            a = a\<lparr>a_inflight_queue := pl_modify tsn (\<lambda>_. c) (a_inflight_queue a)\<rparr>
        in if pd_miss_indicator c = 3 \<and> \<not> a_in_fast_recovery a then enter_fast_recovery htna a else a
      else a)"
    have b: "miss_frame a b" "a_inflight_queue b = ?q \<or>
        a_inflight_queue b = pl_modify tsn (\<lambda>_. c\<lparr>pd_miss_indicator := pd_miss_indicator c + 1\<rparr>) ?q"
      by (simp_all add: b_def miss_frame_def enter_fast_recovery_def Let_def)
    have m: "flight_inv cum next (pl_modify tsn (\<lambda>_. c\<lparr>pd_miss_indicator := pd_miss_indicator c + 1\<rparr>) ?q) \<and>
        pl_len (pl_modify tsn (\<lambda>_. c\<lparr>pd_miss_indicator := pd_miss_indicator c + 1\<rparr>) ?q) = pl_len ?q"
      using "1.prems"(1) c by (intro flight_modify) auto
    have fl: "flight_inv cum next (a_inflight_queue b)"
      using b(2) m "1.prems"(1) by auto
    have sf: "same_flight ?q (a_inflight_queue b)"
      using b(2) m same_flight_refl [of ?q] c by (auto simp: same_flight_def pl_modify_get without_miss_def)
    have "unat (tsn + 1 - cum) = Suc (unat (tsn - cum))"
      using "1.prems"(3) len by (intro dist_step) simp
    then have "\<exists>b'. miss_loop htna max_tsn (tsn + 1) b = (Ok (), b') \<and> miss_frame b b' \<and>
      flight_inv cum next (a_inflight_queue b') \<and> same_flight (a_inflight_queue b) (a_inflight_queue b')"
      using "1.prems" True lt fl sf by (intro "1.IH" [OF True c b_def]) (auto simp: same_flight_def)
    moreover have "miss_loop htna max_tsn tsn a = miss_loop htna max_tsn (tsn + 1) b"
      using True c by (subst miss_loop.simps) (simp add: b_def)
    ultimately show ?thesis
      using miss_frame_trans [OF b(1)] same_flight_trans [OF sf] by metis
  qed
qed

lemma process_fast_retransmission_ok:
  assumes "flight_inv cum next (a_inflight_queue a)" "htna = cum \<or> pl_get htna (a_inflight_queue a) \<noteq> None"
  shows "\<exists>b. process_fast_retransmission cum htna adv a = (Ok (), b) \<and> miss_frame a b \<and>
    flight_inv cum next (a_inflight_queue b) \<and> same_flight (a_inflight_queue a) (a_inflight_queue b)"
proof -
  let ?n = "pl_len (a_inflight_queue a)"
  have len: "Suc ?n < 2 ^ 31" using assms(1) by (simp add: flight_inv_def)
  let ?max = "if \<not> a_in_fast_recovery a then htna else cum + of_nat ?n + 1"
  have "unat (htna - cum) \<le> ?n" using assms(2) flight_get_iff [OF assms(1), of htna] by auto
  moreover have "unat (of_nat (Suc ?n) :: u32) = Suc ?n" using len by (intro unat_of_nat_u32) simp
  then have "unat (cum + of_nat ?n + 1 - cum) = Suc ?n" by (simp add: add.commute)
  ultimately have "unat (?max - cum) \<le> Suc ?n" by simp
  then obtain b where b: "miss_loop htna ?max (cum + 1) a = (Ok (), b)" "miss_frame a b"
      "flight_inv cum next (a_inflight_queue b)" "same_flight (a_inflight_queue a) (a_inflight_queue b)"
    using miss_loop_ok [OF assms(1), of "cum + 1" ?max] by auto
  have step: "miss_frame x (x\<lparr>a_will_retransmit_fast := True\<rparr>)" for x by (simp add: miss_frame_def)
  show ?thesis
    using b miss_frame_trans [OF b(2) step] step [of a] miss_frame_refl [of a] same_flight_refl assms(1)
    by (auto simp: process_fast_retransmission_def Let_def split: prod.splits)
qed

section \<open>What the rest of the handler leaves alone\<close>

definition sender_view ::
    "association \<Rightarrow> payload_queue \<times> u32 \<times> u32 \<times> pending_queue \<times> u32" where
  "sender_view a = (a_inflight_queue a, a_cumulative_tsn_ack_point a, a_my_next_tsn a, a_pending_queue a, a_rwnd a)"

lemma sender_view_simple [simp]:
  "sender_view (timer_stop t a) = sender_view a"
  "sender_view (timer_start t now a) = sender_view a"
  "sender_view (timer_restart_if_stale t now a) = sender_view a"
  "sender_view (push_event e a) = sender_view a"
  "sender_view (set_stream si s a) = sender_view a"
  "sender_view (set_state st a) = sender_view a"
  "sender_view (grow_cwnd n a) = sender_view a"
  "sender_view (note_abandoned_for_forward_tsn un si ssn a) = sender_view a"
  by (simp_all add: sender_view_def timer_stop_def timer_start_def timer_restart_if_stale_def push_event_def
      set_stream_def set_state_def grow_cwnd_def note_abandoned_for_forward_tsn_def Let_def)

lemma sender_view_advanced [simp]: "sender_view (on_cumulative_tsn_ack_point_advanced n now a) = sender_view a"
  by (simp add: on_cumulative_tsn_ack_point_advanced_def)

lemma sender_view_release [simp]: "sender_view (release_stream p a) = sender_view a"
  by (cases p) (simp add: release_stream_def Let_def split: option.splits prod.splits)

lemma sender_view_release_all [simp]: "sender_view (fold release_stream m a) = sender_view a"
  by (induction m arbitrary: a) auto

lemma sender_view_advance_abandoned [simp]: "sender_view (advance_abandoned n i a) = sender_view a"
proof (induction n arbitrary: i a)
  case (Suc n)
  have "sender_view (b\<lparr>a_advanced_peer_tsn_ack_point := x\<rparr>) = sender_view b" for b x by (simp add: sender_view_def)
  with Suc show ?case by (simp split: option.splits)
qed simp

lemma sender_view_advance_peer [simp]: "sender_view (advance_peer_ack_point a) = sender_view a"
  unfolding advance_peer_ack_point_def by (rule sender_view_advance_abandoned)

lemma sender_view_forward [simp]: "sender_view (update_forward_tsn a) = sender_view a"
proof -
  have "sender_view (b\<lparr>a_will_send_forward_tsn := x\<rparr>) = sender_view b"
    "sender_view (b\<lparr>a_fwd_tsn_stream_map := y\<rparr>) = sender_view b"
    "sender_view (b\<lparr>a_advanced_peer_tsn_ack_point := z, a_fwd_tsn_stream_map := y\<rparr>) = sender_view b" for b x y z
    by (simp_all add: sender_view_def)
  then show ?thesis by (simp add: update_forward_tsn_def Let_def)
qed

lemma sender_view_postprocess [simp]: "sender_view (postprocess_sack st now a) = sender_view a"
proof -
  have "sender_view (b\<lparr>a_will_send_shutdown := x\<rparr>) = sender_view b"
    "sender_view (b\<lparr>a_will_send_shutdown_ack := x\<rparr>) = sender_view b" for b x
    by (simp_all add: sender_view_def)
  then show ?thesis by (simp add: postprocess_sack_def)
qed

lemma sender_view_eqD:
  assumes "sender_view a = sender_view b"
  shows "a_inflight_queue a = a_inflight_queue b" "a_cumulative_tsn_ack_point a = a_cumulative_tsn_ack_point b"
    "a_my_next_tsn a = a_my_next_tsn b" "a_pending_queue a = a_pending_queue b" "a_rwnd a = a_rwnd b"
  using assms by (simp_all add: sender_view_def)

section \<open>SACK processing\<close>

definition pending_fresh :: "pending_queue \<Rightarrow> bool" where
  "pending_fresh q \<longleftrightarrow> list_all (\<lambda>c. \<not> pd_acked c) (pq_unordered_queue q @ pq_ordered_queue q)"

definition sender_inv :: "association \<Rightarrow> bool" where
  "sender_inv a \<longleftrightarrow>
     flight_inv (a_cumulative_tsn_ack_point a) (a_my_next_tsn a) (a_inflight_queue a) \<and>
     acked_empty (a_inflight_queue a) \<and> pq_inv (a_pending_queue a) \<and> pending_fresh (a_pending_queue a)"

text \<open>A SACK that acknowledges only TSNs that were sent.\<close>

definition sack_in_window :: "chunk_selective_ack \<Rightarrow> association \<Rightarrow> bool" where
  "sack_in_window d a \<longleftrightarrow>
    (let n = pl_len (a_inflight_queue a); k = unat (sa_cumulative_tsn_ack d - a_cumulative_tsn_ack_point a)
     in k \<le> n \<and> list_all (\<lambda>g. 1 \<le> gb_start g \<and> unat (gb_end g) \<le> n - k) (sa_gap_ack_blocks d))"

lemma gap_tsns_in_flight:
  assumes "flight_inv cum next q" "list_all (\<lambda>g. 1 \<le> gb_start g \<and> unat (gb_end g) \<le> pl_len q) gs"
  shows "\<forall>t\<in>set (gap_tsns cum gs). pl_get t q \<noteq> None"
proof
  fix t assume "t \<in> set (gap_tsns cum gs)"
  then obtain g i where g: "g \<in> set gs" "unat (gb_start g) \<le> i" "i < Suc (unat (gb_end g))" "t = cum + of_nat i"
    by (auto simp: gap_tsns_def simp del: upt_Suc)
  have w: "1 \<le> gb_start g" "unat (gb_end g) \<le> pl_len q" using assms(2) g(1) by (auto simp: list_all_iff)
  have "1 \<le> unat (gb_start g)" using w(1) by (simp add: word_le_nat_alt)
  moreover have "unat (of_nat i :: u32) = i"
    using g(3) w(2) assms(1) by (intro unat_of_nat_u32) (simp add: flight_inv_def)
  ultimately show "pl_get t q \<noteq> None"
    using g w flight_get_iff [OF assms(1), of t] by simp
qed

lemma process_selective_ack_ok:
  assumes "sender_inv a" "sack_in_window d a"
  shows "\<exists>m h b. process_selective_ack d now a = (Ok (m, h), b) \<and> sack_frame a b \<and>
    flight_inv (sa_cumulative_tsn_ack d) (a_my_next_tsn a) (a_inflight_queue b) \<and> acked_empty (a_inflight_queue b) \<and>
    pl_len (a_inflight_queue a) =
      unat (sa_cumulative_tsn_ack d - a_cumulative_tsn_ack_point a) + pl_len (a_inflight_queue b) \<and>
    (h = sa_cumulative_tsn_ack d \<or> pl_get h (a_inflight_queue b) \<noteq> None) \<and>
    (\<forall>u c. pl_get u (a_inflight_queue b) = Some c \<longrightarrow> (\<exists>c'. pl_get u (a_inflight_queue a) = Some c' \<and>
      c = (if u \<in> set (gap_tsns (sa_cumulative_tsn_ack d) (sa_gap_ack_blocks d)) then mark_acked c' else c'))) \<and>
    acked_sum m + int (pl_n_bytes (a_inflight_queue b)) = int (pl_n_bytes (a_inflight_queue a))"
proof -
  let ?cum = "sa_cumulative_tsn_ack d" and ?q = "a_inflight_queue a"
  let ?gs = "gap_tsns ?cum (sa_gap_ack_blocks d)"
  have inv: "flight_inv (a_cumulative_tsn_ack_point a) (a_my_next_tsn a) ?q" "acked_empty ?q"
    using assms(1) by (simp_all add: sender_inv_def)
  have win: "unat (?cum - a_cumulative_tsn_ack_point a) \<le> pl_len ?q"
    using assms(2) by (simp add: sack_in_window_def Let_def)
  obtain m1 b1 where l: "cum_ack_loop now ?cum (a_cumulative_tsn_ack_point a + 1) [] a = (Ok m1, b1)"
    "sack_frame a b1" "distinct (map fst m1)" "flight_inv ?cum (a_my_next_tsn a) (a_inflight_queue b1)"
    "pl_len ?q = unat (?cum - a_cumulative_tsn_ack_point a) + pl_len (a_inflight_queue b1)"
    "\<forall>u c. pl_get u (a_inflight_queue b1) = Some c \<longrightarrow> pl_get u ?q = Some c"
    "acked_sum m1 + int (pl_n_bytes (a_inflight_queue b1)) = int (pl_n_bytes ?q)"
    using cum_ack_loop_ok [OF inv(1) win _ inv(2), of "[]" now] by (auto simp: acked_sum_def)
  have ae: "acked_empty (a_inflight_queue b1)" using inv(2) l(6) by (auto simp: acked_empty_def)
  have gs: "\<forall>t\<in>set ?gs. pl_get t (a_inflight_queue b1) \<noteq> None"
    using assms(2) l(5) by (intro gap_tsns_in_flight [OF l(4)]) (auto simp: sack_in_window_def Let_def list_all_iff)
  obtain m2 h b2 where g: "gap_ack_loop now ?gs m1 ?cum b1 = (Ok (m2, h), b2)" "sack_frame b1 b2"
    "flight_inv ?cum (a_my_next_tsn a) (a_inflight_queue b2)"
    "pl_len (a_inflight_queue b2) = pl_len (a_inflight_queue b1)"
    "h = ?cum \<or> pl_get h (a_inflight_queue b1) \<noteq> None" "acked_empty (a_inflight_queue b2)"
    "\<forall>u. pl_get u (a_inflight_queue b2) =
      (if u \<in> set ?gs then map_option mark_acked (pl_get u (a_inflight_queue b1)) else pl_get u (a_inflight_queue b1))"
    "acked_sum m2 + int (pl_n_bytes (a_inflight_queue b2)) = acked_sum m1 + int (pl_n_bytes (a_inflight_queue b1))"
    using gap_ack_loop_ok [OF l(4) gs l(3) ae, of ?cum now] by blast
  have "process_selective_ack d now a = (Ok (m2, h), b2)"
    using l(1) g(1) by (simp add: process_selective_ack_def)
  moreover have "\<forall>u c. pl_get u (a_inflight_queue b2) = Some c \<longrightarrow> (\<exists>c'. pl_get u ?q = Some c' \<and>
      c = (if u \<in> set ?gs then mark_acked c' else c'))"
    using g(7) l(6) by auto
  moreover have "h = ?cum \<or> pl_get h (a_inflight_queue b2) \<noteq> None" using g(5,7) by auto
  ultimately show ?thesis
    using sack_frame_trans [OF l(2) g(2)] g l by (intro exI [of _ m2] exI [of _ h] exI [of _ b2]) simp
qed

lemma miss_frame_sel:
  assumes "miss_frame a b"
  shows "a_cumulative_tsn_ack_point b = a_cumulative_tsn_ack_point a" "a_my_next_tsn b = a_my_next_tsn a"
    "a_pending_queue b = a_pending_queue a" "a_rwnd b = a_rwnd a"
  using assms by (cases a, cases b, simp add: miss_frame_def)+

lemma same_flight_acked:
  assumes "same_flight q r" "pl_get u r = Some c"
  obtains c' where "pl_get u q = Some c'" "pd_acked c = pd_acked c'" "pd_user_data c = pd_user_data c'"
proof -
  have "map_option without_miss (pl_get u r) = map_option without_miss (pl_get u q)"
    using assms(1) unfolding same_flight_def by blast
  then have "map_option without_miss (pl_get u q) = Some (without_miss c)" using assms(2) by simp
  then obtain c' where c': "pl_get u q = Some c'" "without_miss c' = without_miss c" by auto
  show thesis
    using that [OF c'(1)] arg_cong [OF c'(2), of pd_acked] arg_cong [OF c'(2), of pd_user_data]
    by (simp add: without_miss_def)
qed

lemma same_flight_acked_empty: "same_flight q r \<Longrightarrow> acked_empty q \<Longrightarrow> acked_empty r"
  unfolding acked_empty_def by (metis same_flight_acked)

lemma sender_inv_stats [simp]:
  "sender_inv (a\<lparr>a_stats := st\<rparr>) = sender_inv a" "sack_in_window d (a\<lparr>a_stats := st\<rparr>) = sack_in_window d a"
  by (simp_all add: sender_inv_def sack_in_window_def)

definition sack_result :: "chunk_selective_ack \<Rightarrow> association \<Rightarrow> association \<Rightarrow> bool" where
  "sack_result d a b \<longleftrightarrow>
    (let q = a_inflight_queue a; r = a_inflight_queue b; cum = sa_cumulative_tsn_ack d;
         gaps = set (gap_tsns cum (sa_gap_ack_blocks d)) in
     a_cumulative_tsn_ack_point b = cum \<and> a_my_next_tsn b = a_my_next_tsn a \<and>
     a_pending_queue b = a_pending_queue a \<and>
     pl_sorted r = tsn_run cum (pl_len q - unat (cum - a_cumulative_tsn_ack_point a)) \<and>
     (\<forall>t\<in>set (pl_sorted r). map_option pd_acked (pl_get t r) =
        map_option (\<lambda>c. pd_acked c \<or> t \<in> gaps) (pl_get t q)) \<and>
     a_rwnd b = (if of_nat (pl_n_bytes r) \<ge> sa_advertised_receiver_window_credit d then 0
                 else sa_advertised_receiver_window_credit d - of_nat (pl_n_bytes r)))"

lemma handle_sack_ok:
  assumes "sender_inv a" "sack_in_window d a" "a_state a \<in> {Established, ShutdownPending, ShutdownReceived}"
  shows "\<exists>b. handle_sack d now a = (Ok [], b) \<and> sender_inv b \<and> sack_result d a b"
proof -
  let ?cum = "sa_cumulative_tsn_ack d" and ?c0 = "a_cumulative_tsn_ack_point a" and ?q = "a_inflight_queue a"
  let ?gs = "gap_tsns ?cum (sa_gap_ack_blocks d)"
  let ?a = "a\<lparr>a_stats := inc_sacks (a_stats a)\<rparr>"
  have win: "unat (?cum - ?c0) \<le> pl_len ?q" "pl_len ?q < 2 ^ 31"
    using assms by (simp_all add: sack_in_window_def Let_def sender_inv_def flight_inv_def)
  obtain m h b where p: "process_selective_ack d now ?a = (Ok (m, h), b)" "sack_frame ?a b"
    "flight_inv ?cum (a_my_next_tsn a) (a_inflight_queue b)" "acked_empty (a_inflight_queue b)"
    "pl_len ?q = unat (?cum - ?c0) + pl_len (a_inflight_queue b)"
    "h = ?cum \<or> pl_get h (a_inflight_queue b) \<noteq> None"
    "\<forall>u c. pl_get u (a_inflight_queue b) = Some c \<longrightarrow> (\<exists>c'. pl_get u ?q = Some c' \<and>
      c = (if u \<in> set ?gs then mark_acked c' else c'))"
    using process_selective_ack_ok [of ?a d now] assms by auto
  note fb = sack_frame_sel [OF p(2)]
  let ?adv = "sna32lt ?c0 ?cum"
  let ?b1 = "if ?adv then on_cumulative_tsn_ack_point_advanced (fold (\<lambda>(_, n) t. t + n) m 0) now
      (b\<lparr>a_cumulative_tsn_ack_point := ?cum\<rparr>) else b"
  let ?b2 = "update_rwnd (sa_advertised_receiver_window_credit d) (fold release_stream m ?b1)"
  have eq: "\<not> ?adv \<Longrightarrow> ?c0 = ?cum"
    using win dist_zero [of ?cum ?c0] by (auto simp: sna32lt_dist)
  have v1: "a_inflight_queue (fold release_stream m ?b1) = a_inflight_queue b"
      "a_cumulative_tsn_ack_point (fold release_stream m ?b1) = ?cum"
      "a_my_next_tsn (fold release_stream m ?b1) = a_my_next_tsn a"
      "a_pending_queue (fold release_stream m ?b1) = a_pending_queue a"
    using sender_view_eqD [OF sender_view_release_all, of m ?b1]
      sender_view_eqD [OF sender_view_advanced, of "fold (\<lambda>(_, n) t. t + n) m 0" now "b\<lparr>a_cumulative_tsn_ack_point := ?cum\<rparr>"]
      fb eq by auto
  then have v2: "a_inflight_queue ?b2 = a_inflight_queue b" "a_cumulative_tsn_ack_point ?b2 = ?cum"
      "a_my_next_tsn ?b2 = a_my_next_tsn a" "a_pending_queue ?b2 = a_pending_queue a"
      "a_rwnd ?b2 = (if of_nat (pl_n_bytes (a_inflight_queue b)) \<ge> sa_advertised_receiver_window_credit d then 0
                 else sa_advertised_receiver_window_credit d - of_nat (pl_n_bytes (a_inflight_queue b)))"
    by (simp_all add: update_rwnd_def Let_def)
  obtain b3 where f: "process_fast_retransmission ?cum h ?adv ?b2 = (Ok (), b3)" "miss_frame ?b2 b3"
      "flight_inv ?cum (a_my_next_tsn a) (a_inflight_queue b3)"
      "same_flight (a_inflight_queue b) (a_inflight_queue b3)"
    using process_fast_retransmission_ok [of ?cum "a_my_next_tsn a" ?b2 h ?adv] p(3,6) v2(1) by auto
  let ?e = "postprocess_sack (a_state a) now (if a_use_forward_tsn b3 then update_forward_tsn b3 else b3)"
  have "\<not> sna32gt ?c0 ?cum" using win by (simp add: sna32gt_dist)
  then have run: "handle_sack d now a = (Ok [], ?e)"
    using p(1) f(1) fb(1) assms(3) by (auto simp: handle_sack_def Let_def)
  have "sender_view ?e = sender_view b3" by simp
  note ve = sender_view_eqD [OF this]
  have len: "pl_len (a_inflight_queue b3) = pl_len ?q - unat (?cum - ?c0)"
    using f(4) p(5) by (simp add: same_flight_def)
  have e: "a_inflight_queue ?e = a_inflight_queue b3" "a_cumulative_tsn_ack_point ?e = ?cum"
    "a_my_next_tsn ?e = a_my_next_tsn a" "a_pending_queue ?e = a_pending_queue a"
    using ve miss_frame_sel [OF f(2)] v2 by simp_all
  have ack: "map_option pd_acked (pl_get t (a_inflight_queue b3)) =
      map_option (\<lambda>c. pd_acked c \<or> t \<in> set ?gs) (pl_get t ?q)" if t: "t \<in> set (pl_sorted (a_inflight_queue b3))" for t
  proof -
    obtain c3 where c3: "pl_get t (a_inflight_queue b3) = Some c3"
      using t pl_inv_get_iff [OF flight_pl_inv [OF f(3)]] by auto
    obtain c1 where c1: "pl_get t (a_inflight_queue b) = Some c1" "pd_acked c3 = pd_acked c1"
      using same_flight_acked [OF f(4) c3] by metis
    obtain c where "pl_get t ?q = Some c" "c1 = (if t \<in> set ?gs then mark_acked c else c)"
      using p(7) c1(1) by blast
    then show ?thesis using c3 c1(2) by (simp add: mark_acked_def)
  qed
  have "sender_inv ?e"
    using f(3) same_flight_acked_empty [OF f(4) p(4)] assms(1) e by (simp add: sender_inv_def)
  moreover have "sack_result d a ?e"
    using e ack f(3,4) len ve(5) miss_frame_sel(4) [OF f(2)] v2(5)
    unfolding sack_result_def Let_def by (simp add: flight_inv_def same_flight_def)
  ultimately show ?thesis using run by blast
qed

text \<open>C12. While the chunks in flight are the consecutive TSNs behind the cumulative ack point
(\<open>sender_inv\<close>), a SACK that acknowledges only TSNs in flight, by its cumulative TSN and by its
gap ack blocks, is processed without error: the ack point moves to its cumulative TSN, exactly
the TSNs after it stay in flight, exactly the chunks the blocks name (and those acknowledged
before) are marked acknowledged, the peer's window is the advertised credit less the bytes
still in flight, nothing pending is lost, and the invariant holds again. This is in the states
Established, ShutdownPending and ShutdownReceived.\<close>

theorem sack_releases_acknowledged:
  assumes "sender_inv a" "sack_in_window d a" "a_state a \<in> {Established, ShutdownPending, ShutdownReceived}"
  shows "\<exists>b. handle_sack d now a = (Ok [], b) \<and> sender_inv b \<and> sack_result d a b"
  using assms by (rule handle_sack_ok)

lemma flight_new: "flight_inv cum (cum + 1) pl_new"
  using pl_inv_new(1) by (simp add: flight_inv_def pl_len_def pl_new_def)

lemma acked_empty_push: "acked_empty q \<Longrightarrow> \<not> pd_acked c \<Longrightarrow> acked_empty (pl_push_no_check c q)"
  by (auto simp: acked_empty_def pl_push_no_check_get split: if_splits)

text \<open>Three chunks in flight across the wrap of the TSN space.\<close>

definition flight_chunk :: "u32 \<Rightarrow> u8 \<Rightarrow> chunk_payload_data" where
  "flight_chunk t x = payload_data_default\<lparr>pd_tsn := t, pd_user_data := [x], pd_nsent := 1,
     pd_beginning_fragment := True, pd_ending_fragment := True\<rparr>"

definition flight_queue_sample :: payload_queue where
  "flight_queue_sample = pl_push_no_check (flight_chunk 1 12)
     (pl_push_no_check (flight_chunk 0 11) (pl_push_no_check (flight_chunk 4294967295 10) pl_new))"

definition flight_sample :: association where
  "flight_sample = association_default\<lparr>a_state := Established, a_cumulative_tsn_ack_point := 4294967294,
     a_my_next_tsn := 2, a_inflight_queue := flight_queue_sample\<rparr>"

definition sack_sample :: chunk_selective_ack where
  "sack_sample = \<lparr>sa_cumulative_tsn_ack = 4294967295, sa_advertised_receiver_window_credit = 1500,
     sa_gap_ack_blocks = [\<lparr>gb_start = 2, gb_end = 2\<rparr>], sa_duplicate_tsn = []\<rparr>"

lemma tsn_wrap: "(4294967295 :: u32) + 1 = 0" "(4294967296 :: u32) = 0" "(4294967297 :: u32) = 1"
  by simp_all

lemma flight_sample_sel [simp]:
  "a_inflight_queue flight_sample = flight_queue_sample" "a_cumulative_tsn_ack_point flight_sample = 4294967294"
  "a_my_next_tsn flight_sample = 2" "a_state flight_sample = Established"
  "a_pending_queue flight_sample = pq_new"
  by (simp_all add: flight_sample_def association_default_def)

lemma tsn_run_wrap: "tsn_run 4294967295 2 = [0, 1]"
proof -
  have "tsn_run 4294967295 (Suc (Suc 0)) = [0, 1]" by simp
  then show ?thesis by (simp only: numeral_2_eq_2)
qed

lemma flight_sample_inv: "sender_inv flight_sample \<and> pl_len (a_inflight_queue flight_sample) = 3"
proof -
  let ?c = "4294967294 :: u32"
  have 1: "flight_inv ?c 0 (pl_push_no_check (flight_chunk 4294967295 10) pl_new) \<and>
      pl_len (pl_push_no_check (flight_chunk 4294967295 10) pl_new) = Suc (pl_len pl_new)"
    using flight_push [OF flight_new [of ?c], of "flight_chunk 4294967295 10"] tsn_wrap
    by (simp add: flight_chunk_def pl_len_def pl_new_def)
  have 2: "flight_inv ?c (0 + 1) (pl_push_no_check (flight_chunk 0 11) (pl_push_no_check (flight_chunk 4294967295 10) pl_new)) \<and>
      pl_len (pl_push_no_check (flight_chunk 0 11) (pl_push_no_check (flight_chunk 4294967295 10) pl_new)) =
        Suc (pl_len (pl_push_no_check (flight_chunk 4294967295 10) pl_new))"
    using 1 by (intro flight_push) (simp_all add: flight_chunk_def pl_len_def pl_new_def)
  have 3: "flight_inv ?c (1 + 1) flight_queue_sample \<and> pl_len flight_queue_sample =
      Suc (pl_len (pl_push_no_check (flight_chunk 0 11) (pl_push_no_check (flight_chunk 4294967295 10) pl_new)))"
    unfolding flight_queue_sample_def
    using 1 2 by (intro flight_push) (simp_all add: flight_chunk_def pl_len_def pl_new_def)
  have "acked_empty pl_new" by (simp add: acked_empty_def pl_get_def pl_new_def)
  then have "acked_empty flight_queue_sample"
    unfolding flight_queue_sample_def
    by (intro acked_empty_push) (simp_all add: flight_chunk_def payload_data_default_def)
  then show ?thesis
    using 1 2 3 pq_inv_new by (simp add: sender_inv_def pl_len_def pl_new_def pending_fresh_def pq_new_def)
qed

theorem sack_releases_acknowledged_witness:
  "sender_inv flight_sample \<and> sack_in_window sack_sample flight_sample \<and>
   (\<exists>b. handle_sack sack_sample 0 flight_sample = (Ok [], b) \<and> sender_inv b \<and> sack_result sack_sample flight_sample b \<and>
      pl_sorted (a_inflight_queue b) = [0, 1])"
proof -
  have w: "sack_in_window sack_sample flight_sample"
    using flight_sample_inv by (simp add: sack_in_window_def sack_sample_def)
  obtain b where b: "handle_sack sack_sample 0 flight_sample = (Ok [], b)" "sender_inv b"
      "sack_result sack_sample flight_sample b"
    using sack_releases_acknowledged [of flight_sample sack_sample 0] flight_sample_inv w by auto
  moreover have "pl_sorted (a_inflight_queue b) = [0, 1]"
    using b(3) flight_sample_inv tsn_run_wrap
    by (simp add: sack_result_def Let_def sack_sample_def del: tsn_run.simps)
  ultimately show ?thesis using flight_sample_inv w by blast
qed

text \<open>C31. A SACK whose cumulative TSN lies beyond the last TSN sent (and within half the number
space) is an error for the association: the handler returns \<open>ErrInflightQueueTsnPop\<close>.\<close>

theorem sack_beyond_flight_fails:
  assumes "sender_inv a" "a_state a \<in> {Established, ShutdownPending, ShutdownReceived}"
    "pl_len (a_inflight_queue a) < unat (sa_cumulative_tsn_ack d - a_cumulative_tsn_ack_point a)"
    "unat (sa_cumulative_tsn_ack d - a_cumulative_tsn_ack_point a) < 2 ^ 31"
  shows "fst (handle_sack d now a) = Fail ErrInflightQueueTsnPop"
proof -
  let ?a = "a\<lparr>a_stats := inc_sacks (a_stats a)\<rparr>"
  have "fst (cum_ack_loop now (sa_cumulative_tsn_ack d) (a_cumulative_tsn_ack_point a + 1) [] ?a) =
      Fail ErrInflightQueueTsnPop"
    using assms by (intro cum_ack_loop_beyond [of _ "a_my_next_tsn a"]) (simp_all add: sender_inv_def)
  then show ?thesis
    using assms(2,4) by (auto simp: handle_sack_def Let_def process_selective_ack_def sna32gt_dist
        split: prod.splits sum.splits)
qed

theorem sack_beyond_flight_fails_witness:
  "fst (handle_sack (sack_sample\<lparr>sa_cumulative_tsn_ack := 2\<rparr>) 0 flight_sample) = Fail ErrInflightQueueTsnPop"
  using flight_sample_inv
  by (intro sack_beyond_flight_fails) (simp_all add: sack_sample_def)

end
