(* ===== verification/Sctp_Inbound.thy ===== *)
theory Sctp_Inbound
  imports Sctp_Association
begin

text \<open>The receive path of an association (\<open>rtc-sctp/src/association/mod.rs\<close>): one
definition per chunk handler, \<open>handle_inbound\<close> for a packet and \<open>handle_event\<close> for a
datagram. A handler returns its result and the new state, because the source changes
the state before some of its errors. The cookie drawn by \<open>ParamStateCookie::new\<close> is the
argument \<open>rnd\<close>.\<close>

section \<open>Handshake\<close>

definition note_extensions :: "param \<Rightarrow> association \<Rightarrow> association" where
  "note_extensions p a =
    (case p of
       PSupportedExtensions ts \<Rightarrow> fold (\<lambda>t a. if t = CT_FORWARD_TSN then a\<lparr>a_use_forward_tsn := True\<rparr> else a) ts a
     | _ \<Rightarrow> a)"

definition handle_init :: "bytes \<Rightarrow> packet \<Rightarrow> chunk_init \<Rightarrow> packet list step" where
  "handle_init rnd p i a =
    (if a_state a \<noteq> Closed \<and> a_state a \<noteq> CookieWait \<and> a_state a \<noteq> CookieEchoed
     then (Fail ErrHandleInitState, a)
     else
       let a = a\<lparr>a_my_max_num_inbound_streams := min (ci_num_inbound_streams i) (a_my_max_num_inbound_streams a),
                 a_my_max_num_outbound_streams := min (ci_num_outbound_streams i) (a_my_max_num_outbound_streams a),
                 a_peer_verification_tag := ci_initiate_tag i,
                 a_source_port := hd_destination_port (pk_common_header p),
                 a_destination_port := hd_source_port (pk_common_header p),
                 a_peer_last_tsn := (if ci_initial_tsn i = 0 then - 1 else ci_initial_tsn i - 1),
                 a_rwnd := ci_advertised_receiver_window_credit i,
                 a_ssthresh := ci_advertised_receiver_window_credit i\<rparr>;
           a = fold note_extensions (ci_params i) a;
           init_ack = chunk_init_default\<lparr>ci_is_ack := True, ci_initial_tsn := a_my_next_tsn a,
             ci_num_outbound_streams := a_my_max_num_outbound_streams a,
             ci_num_inbound_streams := a_my_max_num_inbound_streams a,
             ci_initiate_tag := a_my_verification_tag a,
             ci_advertised_receiver_window_credit := a_max_receive_buffer_size a\<rparr>;
           a = (if a_my_cookie a = None then a\<lparr>a_my_cookie := Some rnd\<rparr> else a);
           init_ack = (case a_my_cookie a of
                         Some c \<Rightarrow> init_ack\<lparr>ci_params := [PStateCookie c]\<rparr>
                       | None \<Rightarrow> init_ack);
           init_ack = set_supported_extensions init_ack
       in (Ok [create_packet a [CInit init_ack]], a))"

text \<open>The parameter loop of \<open>handle_init_ack\<close> keeps the last cookie.\<close>

definition note_cookie :: "param \<Rightarrow> bytes option \<Rightarrow> bytes option" where
  "note_cookie p c = (case p of PStateCookie v \<Rightarrow> Some v | _ \<Rightarrow> c)"

definition handle_init_ack :: "packet \<Rightarrow> chunk_init \<Rightarrow> instant \<Rightarrow> packet list step" where
  "handle_init_ack p i now a =
    (if a_state a \<noteq> CookieWait then (Ok [], a)
     else
       let a = a\<lparr>a_my_max_num_inbound_streams := min (ci_num_inbound_streams i) (a_my_max_num_inbound_streams a),
                 a_my_max_num_outbound_streams := min (ci_num_outbound_streams i) (a_my_max_num_outbound_streams a),
                 a_peer_verification_tag := ci_initiate_tag i,
                 a_peer_last_tsn := (if ci_initial_tsn i = 0 then - 1 else ci_initial_tsn i - 1)\<rparr> in
       if a_source_port a \<noteq> hd_destination_port (pk_common_header p) \<or>
          a_destination_port a \<noteq> hd_source_port (pk_common_header p)
       then (Ok [], a)
       else
         let a = a\<lparr>a_rwnd := ci_advertised_receiver_window_credit i,
                   a_ssthresh := ci_advertised_receiver_window_credit i\<rparr>;
             a = timer_stop T1Init a;
             a = a\<lparr>a_stored_init := None\<rparr>;
             cookie_param = fold note_cookie (ci_params i) None;
             a = fold note_extensions (ci_params i) a in
         case cookie_param of
           Some v \<Rightarrow>
             (let a = a\<lparr>a_stored_cookie_echo := Some v\<rparr> in
              case send_cookie_echo a of
                (Inl e, a) \<Rightarrow> (Inl e, a)
              | (Inr _, a) \<Rightarrow> (Ok [], set_state CookieEchoed (timer_start T1Cookie now a)))
         | None \<Rightarrow> (Fail ErrInitAckNoCookie, a))"

definition handle_heartbeat :: "param list \<Rightarrow> packet list step" where
  "handle_heartbeat params a =
    (case front params of
       Some (PHeartbeatInfo info) \<Rightarrow> (Ok [create_packet a [CHeartbeatAck [PHeartbeatInfo info]]], a)
     | _ \<Rightarrow> (Ok [], a))"

definition handle_cookie_echo :: "bytes \<Rightarrow> packet list step" where
  "handle_cookie_echo cookie a =
    (case a_my_cookie a of
       None \<Rightarrow> (Ok [], a)
     | Some my_cookie \<Rightarrow>
         if a_state a = Established then
           if my_cookie \<noteq> cookie then (Ok [], a) else (Ok [create_packet a [CCookieAck]], a)
         else if a_state a \<in> {Closed, CookieWait, CookieEchoed} then
           if my_cookie \<noteq> cookie then (Ok [], a)
           else
             let a = timer_stop T1Init a;
                 a = a\<lparr>a_stored_init := None\<rparr>;
                 a = timer_stop T1Cookie a;
                 a = a\<lparr>a_stored_cookie_echo := None\<rparr>;
                 a = push_event EvConnected a;
                 a = set_state Established a;
                 a = a\<lparr>a_handshake_completed := True\<rparr>
             in (Ok [create_packet a [CCookieAck]], a)
         else (Ok [], a))"

definition handle_cookie_ack :: "packet list step" where
  "handle_cookie_ack a =
    (if a_state a \<noteq> CookieEchoed then (Ok [], a)
     else
       let a = timer_stop T1Cookie a;
           a = a\<lparr>a_stored_cookie_echo := None\<rparr>;
           a = push_event EvConnected a;
           a = set_state Established a
       in (Ok [], a\<lparr>a_handshake_completed := True\<rparr>))"

section \<open>Stream reset\<close>

text \<open>The loop over the identifiers of a reset request: the streams to name in the answer.\<close>

fun reset_loop :: "bool \<Rightarrow> u16 list \<Rightarrow> association \<Rightarrow> u16 list \<times> association" where
  "reset_loop respond [] a = ([], a)"
| "reset_loop respond (si # sis) a =
    (if map_of (a_streams a) si \<noteq> None then
       let (rest, a) = reset_loop respond sis (unregister_stream si AeReset a)
       in (if respond then si # rest else rest, a)
     else reset_loop respond sis a)"

text \<open>\<open>reset_streams_if_any\<close> never fails; the packets it appends to the reply are returned.\<close>

definition reset_streams_if_any :: "outgoing_reset_request \<Rightarrow> bool \<Rightarrow> association \<Rightarrow> packet list \<times> association" where
  "reset_streams_if_any p respond a =
    (let (res, sis_to_reset, a) =
      (if sna32lte (orr_sender_last_tsn p) (a_peer_last_tsn a) then
         let (sis, a) = reset_loop respond (orr_stream_identifiers p) a
         in (SuccessPerformed, sis,
             a\<lparr>a_reconfig_requests := AList.delete (orr_request_sequence_number p) (a_reconfig_requests a)\<rparr>)
       else (InProgress, [], a));
         (reply, a) =
      (if sis_to_reset \<noteq> [] then
         let (rsn, a) = generate_next_rsn a;
             tsn = a_my_next_tsn a - 1;
             c = \<lparr>rc_param_a = Some (POutgoingResetRequest
                    \<lparr>orr_request_sequence_number = rsn,
                     orr_response_sequence_number = orr_request_sequence_number p,
                     orr_sender_last_tsn = tsn, orr_stream_identifiers = sis_to_reset\<rparr>),
                  rc_param_b = None\<rparr>;
             a = a\<lparr>a_reconfigs := AList.update rsn c (a_reconfigs a)\<rparr>
         in ([create_packet a [CReconfig c]], a)
       else ([], a));
         packet = create_packet a [CReconfig \<lparr>rc_param_a = Some (PReconfigResponse
             \<lparr>rr_response_sequence_number = orr_request_sequence_number p, rr_result = res\<rparr>),
           rc_param_b = None\<rparr>]
     in (reply @ [packet], a))"

definition handle_reconfig_param :: "param \<Rightarrow> packet list step" where
  "handle_reconfig_param raw a =
    (case raw of
       POutgoingResetRequest p \<Rightarrow>
         let a = a\<lparr>a_reconfig_requests :=
                    AList.update (orr_request_sequence_number p) p (a_reconfig_requests a)\<rparr>;
             (reply, a) = reset_streams_if_any p True a
         in (Ok reply, a)
     | PReconfigResponse p \<Rightarrow>
         let a = a\<lparr>a_reconfigs := AList.delete (rr_response_sequence_number p) (a_reconfigs a)\<rparr>
         in (Ok [], if a_reconfigs a = [] then timer_stop Reconfig a else a)
     | _ \<Rightarrow> (Fail ErrParameterType, a))"

definition handle_reconfig_opt :: "param option \<Rightarrow> packet list step" where
  "handle_reconfig_opt p a = (case p of Some q \<Rightarrow> handle_reconfig_param q a | None \<Rightarrow> (Ok [], a))"

definition handle_reconfig :: "chunk_reconfig \<Rightarrow> packet list step" where
  "handle_reconfig c a =
    (case handle_reconfig_opt (rc_param_a c) a of
       (Inl e, a) \<Rightarrow> (Inl e, a)
     | (Inr pp, a) \<Rightarrow>
         case handle_reconfig_opt (rc_param_b c) a of
           (Inl e, a) \<Rightarrow> (Inl e, a)
         | (Inr pp', a) \<Rightarrow> (Ok (pp @ pp'), a))"

section \<open>DATA and FORWARD TSN\<close>

text \<open>All outstanding reset requests, looked at again after the cumulative TSN moved.\<close>

definition reset_pending :: "association \<Rightarrow> packet list \<times> association" where
  "reset_pending a =
     fold (\<lambda>(_, req) (reply, a). let (r, a) = reset_streams_if_any req False a in (reply @ r, a))
       (a_reconfig_requests a) ([], a)"

text \<open>What resetting streams may change.\<close>

definition reset_frame :: "association \<Rightarrow> association \<Rightarrow> bool" where
  "reset_frame a b \<longleftrightarrow> b = a\<lparr>a_streams := a_streams b, a_events := a_events b, a_my_next_rsn := a_my_next_rsn b,
     a_reconfigs := a_reconfigs b, a_reconfig_requests := a_reconfig_requests b\<rparr>"

lemma reset_frame_refl: "reset_frame a a"
  by (simp add: reset_frame_def)

lemma reset_frame_trans:
  assumes "reset_frame a b" "reset_frame b c" shows "reset_frame a c"
proof -
  have b: "b = a\<lparr>a_streams := a_streams b, a_events := a_events b, a_my_next_rsn := a_my_next_rsn b,
     a_reconfigs := a_reconfigs b, a_reconfig_requests := a_reconfig_requests b\<rparr>"
    using assms(1) by (simp only: reset_frame_def)
  have "c = b\<lparr>a_streams := a_streams c, a_events := a_events c, a_my_next_rsn := a_my_next_rsn c,
     a_reconfigs := a_reconfigs c, a_reconfig_requests := a_reconfig_requests c\<rparr>"
    using assms(2) by (simp only: reset_frame_def)
  also have "\<dots> = a\<lparr>a_streams := a_streams c, a_events := a_events c, a_my_next_rsn := a_my_next_rsn c,
     a_reconfigs := a_reconfigs c, a_reconfig_requests := a_reconfig_requests c\<rparr>"
    by (subst b) simp
  finally show ?thesis by (simp only: reset_frame_def)
qed

lemma reset_frame_queue: "reset_frame a b \<Longrightarrow> a_payload_queue b = a_payload_queue a"
  unfolding reset_frame_def by (drule arg_cong [where f = a_payload_queue]) simp

lemma unregister_stream_frame: "reset_frame a (unregister_stream si r a)"
  by (simp add: reset_frame_def unregister_stream_def push_event_def split: option.split)

lemma reset_loop_frame: "reset_loop b sis a = (r, a') \<Longrightarrow> reset_frame a a'"
proof (induction sis arbitrary: a r)
  case (Cons si sis)
  show ?case
  proof (cases "map_of (a_streams a) si")
    case (Some s)
    obtain r' where "reset_loop b sis (unregister_stream si AeReset a) = (r', a')"
      using Cons.prems Some by (auto simp: Let_def split: prod.splits)
    from reset_frame_trans [OF unregister_stream_frame Cons.IH [OF this]] show ?thesis .
  qed (use Cons in simp)
qed (simp add: reset_frame_refl)

lemma reset_streams_frame: "reset_frame a (snd (reset_streams_if_any p b a))"
proof -
  obtain sis a1 where l: "reset_loop b (orr_stream_identifiers p) a = (sis, a1)" by fastforce
  have step: "reset_frame x (x\<lparr>a_reconfig_requests := f\<rparr>)"
    "reset_frame x (x\<lparr>a_reconfig_requests := f, a_my_next_rsn := n, a_reconfigs := c\<rparr>)" for x f n c
    by (simp_all add: reset_frame_def)
  show ?thesis
    using l reset_frame_trans [OF reset_loop_frame [OF l] step(1)] reset_frame_trans [OF reset_loop_frame [OF l] step(2)]
    by (simp add: reset_streams_if_any_def generate_next_rsn_def Let_def reset_frame_refl)
qed

lemma reset_pending_frame: "reset_frame a (snd (reset_pending a))"
proof -
  have "reset_frame b (snd (fold (\<lambda>(_, req) (reply, a). let (r, a) = reset_streams_if_any req False a in (reply @ r, a))
      rs (out, b)))" for rs :: "(u32 \<times> outgoing_reset_request) list" and out b
  proof (induction rs arbitrary: out b)
    case (Cons r rs)
    obtain x b' where e: "reset_streams_if_any (snd r) False b = (x, b')" by fastforce
    then have "reset_frame b b'" using reset_streams_frame [of b "snd r" False] by simp
    from reset_frame_trans [OF this Cons.IH] e show ?case by (cases r) simp
  qed (simp add: reset_frame_refl)
  then show ?thesis by (simp add: reset_pending_def)
qed

text \<open>The loop that advances \<open>peer_last_tsn\<close> over the chunks already received.\<close>

lemma pl_pop_shorter: "pl_pop t q = (Some c, q') \<Longrightarrow> length (pl_sorted q') < length (pl_sorted q)"
  by (cases "pl_sorted q") (auto simp: pl_pop_def Let_def split: if_splits option.splits)

function advance_peer_last_tsn :: "association \<Rightarrow> packet list \<times> association" where
  "advance_peer_last_tsn a =
    (case pl_pop (a_peer_last_tsn a + 1) (a_payload_queue a) of
       (None, q) \<Rightarrow> ([], a\<lparr>a_payload_queue := q\<rparr>)
     | (Some _, q) \<Rightarrow>
         let ra = reset_pending (a\<lparr>a_payload_queue := q, a_peer_last_tsn := a_peer_last_tsn a + 1\<rparr>);
             rest = advance_peer_last_tsn (snd ra)
         in (fst ra @ fst rest, snd rest))"
  by pat_completeness auto
termination
  by (relation "measure (\<lambda>a. length (pl_sorted (a_payload_queue a)))")
    (auto simp: reset_frame_queue [OF reset_pending_frame] dest!: pl_pop_shorter [OF sym])

declare advance_peer_last_tsn.simps [simp del]

definition handle_peer_last_tsn_and_acknowledgement :: "bool \<Rightarrow> packet list step" where
  "handle_peer_last_tsn_and_acknowledgement sack_immediately a =
    (let (reply, a) = advance_peer_last_tsn a;
         has_packet_loss = \<not> pl_is_empty (a_payload_queue a) in
     (Ok reply,
      if (a_ack_state a \<noteq> AckImmediate \<and> \<not> sack_immediately \<and> \<not> has_packet_loss \<and> a_ack_mode a = AckNormal)
         \<or> a_ack_mode a = AckAlwaysDelay
      then if a_ack_state a = AckIdle then a\<lparr>a_delayed_ack_triggered := True\<rparr>
           else a\<lparr>a_immediate_ack_triggered := True\<rparr>
      else a\<lparr>a_immediate_ack_triggered := True\<rparr>))"

definition push_payload :: "chunk_payload_data \<Rightarrow> association \<Rightarrow> association" where
  "push_payload d a = a\<lparr>a_payload_queue := snd (pl_push d (a_peer_last_tsn a) (a_payload_queue a))\<rparr>"

text \<open>The part of \<open>handle_data\<close> that decides whether the chunk is accepted; \<open>None\<close> when no
stream could be created.\<close>

definition accept_data :: "chunk_payload_data \<Rightarrow> association \<Rightarrow> bool option \<times> association" where
  "accept_data d a =
    (if pl_can_push d (a_peer_last_tsn a) (a_payload_queue a) then
       case get_or_create_stream (pd_stream_identifier d) a of
         (None, a) \<Rightarrow> (None, a)
       | (Some _, a) \<Rightarrow>
           if get_my_receiver_window_credit a > 0 then (Some True, push_payload d a)
           else
             case pl_get_last_tsn_received (a_payload_queue a) of
               Some last_tsn \<Rightarrow>
                 if sna32lt (pd_tsn d) last_tsn then (Some True, push_payload d a) else (Some False, a)
             | None \<Rightarrow> (Some False, a)
     else (Some False, a))"

text \<open>The delivery to the stream.\<close>

definition deliver_data :: "instant \<Rightarrow> chunk_payload_data \<Rightarrow> association \<Rightarrow> association" where
  "deliver_data now d a =
    (case map_of (a_streams a) (pd_stream_identifier d) of
       Some s \<Rightarrow>
         let a = push_event EvDatagramReceived a;
             (complete, s) = ss_handle_data now d s;
             a = set_stream (pd_stream_identifier d) s a
         in if complete \<and> rq_is_readable (ss_reassembly_queue s)
            then push_event (EvStream (StreamReadable (ss_stream_identifier s))) a else a
     | None \<Rightarrow> a)"

definition handle_data :: "instant \<Rightarrow> chunk_payload_data \<Rightarrow> packet list step" where
  "handle_data now d a =
    (let a = a\<lparr>a_stats := inc_datas (a_stats a)\<rparr> in
     case accept_data d a of
       (None, a) \<Rightarrow> (Ok [], a)
     | (Some stream_handle_data, a) \<Rightarrow>
         let a = (if stream_handle_data then deliver_data now d a else a)
         in handle_peer_last_tsn_and_acknowledgement (pd_immediate_sack d) a)"

text \<open>The loop that moves the cumulative TSN to the value of a FORWARD TSN.\<close>

function forward_peer_last_tsn :: "u32 \<Rightarrow> u32 \<Rightarrow> payload_queue \<Rightarrow> u32 \<times> payload_queue" where
  "forward_peer_last_tsn new_tsn peer_last_tsn q =
    (if sna32lt peer_last_tsn new_tsn
     then forward_peer_last_tsn new_tsn (peer_last_tsn + 1) (snd (pl_pop (peer_last_tsn + 1) q))
     else (peer_last_tsn, q))"
  by pat_completeness auto
termination
  by (relation "measure (\<lambda>(n, l, _). unat (n - l))") (auto simp: sna32.lt_step sna32lt_dist)

declare forward_peer_last_tsn.simps [simp del]

definition forward_ordered :: "chunk_forward_tsn_stream \<Rightarrow> association \<Rightarrow> association" where
  "forward_ordered f a =
    (case map_of (a_streams a) (fts_identifier f) of
       Some s \<Rightarrow>
         let s = ss_handle_forward_tsn_for_ordered (fts_sequence f) s;
             a = set_stream (fts_identifier f) s a
         in if rq_is_readable (ss_reassembly_queue s)
            then push_event (EvStream (StreamReadable (ss_stream_identifier s))) a else a
     | None \<Rightarrow> a)"

definition forward_unordered :: "u32 \<Rightarrow> u16 \<times> stream_state \<Rightarrow> association \<Rightarrow> association" where
  "forward_unordered tsn = (\<lambda>(si, s) a.
    (let s = ss_handle_forward_tsn_for_unordered tsn s;
         a = set_stream si s a
     in if rq_is_readable (ss_reassembly_queue s)
        then push_event (EvStream (StreamReadable (ss_stream_identifier s))) a else a))"

definition handle_forward_tsn :: "chunk_forward_tsn \<Rightarrow> packet list step" where
  "handle_forward_tsn c a =
    (if \<not> a_use_forward_tsn a
     then (Ok [create_packet a [CError [\<lparr>ec_code = 0, ec_raw = []\<rparr>]]], a)
     else if sna32lte (ft_new_cumulative_tsn c) (a_peer_last_tsn a)
     then (Ok [], timer_stop Ack (a\<lparr>a_ack_state := AckImmediate\<rparr>))
     else
       let (l, q) = forward_peer_last_tsn (ft_new_cumulative_tsn c) (a_peer_last_tsn a) (a_payload_queue a);
           a = a\<lparr>a_peer_last_tsn := l, a_payload_queue := q\<rparr>;
           a = fold forward_ordered (ft_streams c) a;
           a = fold (forward_unordered (ft_new_cumulative_tsn c)) (a_streams a) a
       in handle_peer_last_tsn_and_acknowledgement False a)"

end
