(* ===== verification/Sctp_Dispatch.thy ===== *)
theory Sctp_Dispatch
  imports Sctp_Inbound Sctp_Sack
begin

text \<open>The entry points that drive an association from outside
(\<open>rtc-sctp/src/association/mod.rs\<close>): the shutdown handlers, the dispatch on the chunk
type, \<open>handle_inbound\<close>, \<open>handle_event\<close> and \<open>handle_timeout\<close> with what each timer does
when it expires.\<close>

section \<open>Shutdown\<close>

definition handle_shutdown :: "packet list step" where
  "handle_shutdown a =
    (let st = a_state a in
     if st = Established then
       if \<not> pl_is_empty (a_inflight_queue a) then (Ok [], set_state ShutdownReceived a)
       else (Ok [], set_state ShutdownAckSent (a\<lparr>a_will_send_shutdown_ack := True\<rparr>))
     else if st = ShutdownSent then
       (Ok [], set_state ShutdownAckSent (a\<lparr>a_will_send_shutdown_ack := True\<rparr>))
     else (Ok [], a))"

definition handle_shutdown_ack :: "packet list step" where
  "handle_shutdown_ack a =
    (if a_state a = ShutdownSent \<or> a_state a = ShutdownAckSent
     then (Ok [], (timer_stop T2Shutdown a)\<lparr>a_will_send_shutdown_complete := True\<rparr>)
     else (Ok [], a))"

definition handle_shutdown_complete :: "packet list step" where
  "handle_shutdown_complete a =
    (if a_state a = ShutdownAckSent
     then (Ok [], snd (close AeAssociationClosed (timer_stop T2Shutdown a)))
     else (Ok [], a))"

section \<open>Dispatch\<close>

definition USER_INITIATED_ABORT :: u16 where "USER_INITIATED_ABORT = 12"

definition enqueue_control :: "packet list result \<times> association \<Rightarrow> unit result \<times> association" where
  "enqueue_control = (\<lambda>(r, a).
    (case r of
       Inl e \<Rightarrow> (Inl e, a)
     | Inr packets \<Rightarrow> (Ok (), a\<lparr>a_control_queue := a_control_queue a @ packets\<rparr>)))"

text \<open>\<open>rnd\<close> are the random bytes of the state cookie that \<open>handle_init\<close> creates.\<close>

definition handle_chunk :: "bytes \<Rightarrow> packet \<Rightarrow> chunk \<Rightarrow> instant \<Rightarrow> unit step" where
  "handle_chunk rnd p c now a =
    (case chunk_check c of
       Inl e \<Rightarrow> (Inl e, a)
     | Inr _ \<Rightarrow>
         case c of
           CInit i \<Rightarrow> enqueue_control (if ci_is_ack i then handle_init_ack p i now a else handle_init rnd p i a)
         | CAbort causes \<Rightarrow>
             if list_ex (\<lambda>e. ec_code e = USER_INITIATED_ABORT) causes
             then (Ok (), snd (close AeReset a)) else (Fail ErrAbortChunk, a)
         | CError _ \<Rightarrow> (Fail ErrAbortChunk, a)
         | CHeartbeat ps \<Rightarrow> enqueue_control (handle_heartbeat ps a)
         | CCookieEcho cookie \<Rightarrow> enqueue_control (handle_cookie_echo cookie a)
         | CCookieAck \<Rightarrow> enqueue_control (handle_cookie_ack a)
         | CPayloadData d \<Rightarrow> enqueue_control (handle_data now d a)
         | CSack d \<Rightarrow> enqueue_control (handle_sack d now a)
         | CReconfig d \<Rightarrow> enqueue_control (handle_reconfig d a)
         | CForwardTsn d \<Rightarrow> enqueue_control (handle_forward_tsn d a)
         | CShutdown _ \<Rightarrow> enqueue_control (handle_shutdown a)
         | CShutdownAck \<Rightarrow> enqueue_control (handle_shutdown_ack a)
         | CShutdownComplete \<Rightarrow> enqueue_control (handle_shutdown_complete a)
         | CHeartbeatAck _ \<Rightarrow> (Fail ErrChunkTypeUnhandled, a))"

definition handle_chunk_start :: "association \<Rightarrow> association" where
  "handle_chunk_start a = a\<lparr>a_delayed_ack_triggered := False, a_immediate_ack_triggered := False\<rparr>"

definition handle_chunk_end :: "instant \<Rightarrow> association \<Rightarrow> association" where
  "handle_chunk_end now a =
    (if a_immediate_ack_triggered a then timer_stop Ack (a\<lparr>a_ack_state := AckImmediate\<rparr>)
     else if a_delayed_ack_triggered a then
       a\<lparr>a_ack_state := AckDelay, a_timers := tt_start Ack now ACK_INTERVAL (a_timers a)\<rparr>
     else a)"

fun handle_chunks :: "bytes \<Rightarrow> packet \<Rightarrow> chunk list \<Rightarrow> instant \<Rightarrow> unit step" where
  "handle_chunks rnd p [] now a = (Ok (), a)"
| "handle_chunks rnd p (c # cs) now a =
    (case handle_chunk rnd p c now a of
       (Inl e, a) \<Rightarrow> (Inl e, a)
     | (Inr _, a) \<Rightarrow> handle_chunks rnd p cs now a)"

definition handle_inbound :: "bytes \<Rightarrow> packet \<Rightarrow> instant \<Rightarrow> unit step" where
  "handle_inbound rnd p now a =
    (case check_packet p of
       Inl _ \<Rightarrow> (Ok (), a)
     | Inr _ \<Rightarrow>
         case handle_chunks rnd p (pk_chunks p) now (handle_chunk_start a) of
           (Inl e, a) \<Rightarrow> (Inl e, a)
         | (Inr _, a) \<Rightarrow> (Ok (), handle_chunk_end now a))"

text \<open>A datagram routed to this association. A packet that does not parse is dropped; a
packet whose processing fails closes the association.\<close>

definition handle_event :: "bytes \<Rightarrow> partial_decode \<Rightarrow> instant \<Rightarrow> unit step" where
  "handle_event rnd pd now a =
    (case partial_decode_finish pd of
       Inl (Err _) \<Rightarrow> (Ok (), a)
     | Inl Panic \<Rightarrow> (panic, a)
     | Inr pkt \<Rightarrow>
         case handle_inbound rnd pkt now a of
           (Inl (Err _), a) \<Rightarrow> close AeTransportError a
         | (Inl Panic, a) \<Rightarrow> (panic, a)
         | (Inr _, a) \<Rightarrow> (Ok (), a))"

section \<open>Timers\<close>

definition on_ack_timeout :: "association \<Rightarrow> association" where
  "on_ack_timeout a = a\<lparr>a_stats := inc_ack_timeouts (a_stats a), a_ack_state := AckImmediate\<rparr>"

definition on_t3_timeout :: "association \<Rightarrow> association" where
  "on_t3_timeout a =
    (let a = a\<lparr>a_stats := inc_t3timeouts (a_stats a),
               a_ssthresh := max (a_cwnd a div 2) (4 * a_mtu a), a_cwnd := a_mtu a\<rparr>;
         a = (if a_use_forward_tsn a then
                let a = advance_peer_ack_point a
                in if sna32gt (a_advanced_peer_tsn_ack_point a) (a_cumulative_tsn_ack_point a)
                   then a\<lparr>a_will_send_forward_tsn := True\<rparr> else a
              else a)
     in a\<lparr>a_inflight_queue := pl_mark_all_to_retransmit (a_inflight_queue a),
          a_t3_retransmit_pending := True\<rparr>)"

definition on_retransmission_timeout :: "timer \<Rightarrow> association \<Rightarrow> association" where
  "on_retransmission_timeout t a =
    (case t of
       T1Init \<Rightarrow> snd (send_init a)
     | T1Cookie \<Rightarrow> snd (send_cookie_echo a)
     | T2Shutdown \<Rightarrow>
         (case a_state a of
            ShutdownSent \<Rightarrow> a\<lparr>a_will_send_shutdown := True\<rparr>
          | ShutdownAckSent \<Rightarrow> a\<lparr>a_will_send_shutdown_ack := True\<rparr>
          | _ \<Rightarrow> a)
     | T3RTX \<Rightarrow> on_t3_timeout a
     | Reconfig \<Rightarrow> a\<lparr>a_will_retransmit_reconfig := True\<rparr>
     | Ack \<Rightarrow> a)"

definition on_retransmission_failure :: "timer \<Rightarrow> association \<Rightarrow> association" where
  "on_retransmission_failure t a =
    (case t of
       T1Init \<Rightarrow> a\<lparr>a_error := Some (AeHandshakeFailed ErrHandshakeInitAck)\<rparr>
     | T1Cookie \<Rightarrow> a\<lparr>a_error := Some (AeHandshakeFailed ErrHandshakeCookieEcho)\<rparr>
     | _ \<Rightarrow> a)"

definition expire_timer :: "instant \<Rightarrow> timer \<Rightarrow> association \<Rightarrow> association" where
  "expire_timer now t a =
    (let ((expired, failure, n_rtos), tt) = tt_is_expired t now (a_timers a);
         a = a\<lparr>a_timers := tt\<rparr> in
     if \<not> expired then a
     else
       let a = a\<lparr>a_timers := tt_set t None (a_timers a)\<rparr> in
       if t = Ack then on_ack_timeout a
       else if failure then on_retransmission_failure t a
       else timer_start t now (on_retransmission_timeout t a))"

definition handle_timeout :: "instant \<Rightarrow> association \<Rightarrow> association" where
  "handle_timeout now a = fold (expire_timer now) timer_values a"

end
