(* ===== verification/Sctp_Transmit.thy ===== *)
theory Sctp_Transmit
  imports Sctp_Outbound Sctp_Sender Sctp_Dispatch
begin

text \<open>What the sending side guarantees: new data leaves in the order of the pending queue,
with consecutive TSNs and within the congestion and receiver windows; bundling neither loses
nor reorders chunks; every scan and loop of the send path returns; an expired T3-rtx timer
leads to a retransmission of the oldest chunk.\<close>

section \<open>Moving a chunk into flight\<close>

definition send_frame :: "association \<Rightarrow> association \<Rightarrow> bool" where
  "send_frame a b \<longleftrightarrow>
     b = a\<lparr>a_pending_queue := a_pending_queue b, a_inflight_queue := a_inflight_queue b,
           a_my_next_tsn := a_my_next_tsn b, a_rwnd := a_rwnd b\<rparr>"

lemma send_frame_refl: "send_frame a a"
  by (simp add: send_frame_def)

lemma send_frame_trans: "send_frame a b \<Longrightarrow> send_frame b c \<Longrightarrow> send_frame a c"
  by (cases a, cases b, cases c) (simp add: send_frame_def)

lemma send_frame_sel:
  assumes "send_frame a b"
  shows "a_cumulative_tsn_ack_point b = a_cumulative_tsn_ack_point a" "a_cwnd b = a_cwnd a"
    "a_streams b = a_streams a" "a_state b = a_state a" "a_mtu b = a_mtu a"
  using assms by (cases a, cases b, simp add: send_frame_def)+

text \<open>What of a chunk the application and the peer see, apart from its TSN.\<close>

definition chunk_content :: "chunk_payload_data \<Rightarrow> chunk_payload_data" where
  "chunk_content c = c\<lparr>pd_tsn := 0, pd_since := None, pd_nsent := 0, pd_abandoned := False, pd_all_inflight := False\<rparr>"

lemma partial_reliability_cases:
  assumes "P c" "P (c\<lparr>pd_abandoned := True\<rparr>)"
  shows "P (check_partial_reliability_status now u ss c)"
  using assms by (simp add: check_partial_reliability_status_def split: option.split)

lemma partial_reliability_sel [simp]:
  "pd_tsn (check_partial_reliability_status now u ss c) = pd_tsn c"
  "pd_user_data (check_partial_reliability_status now u ss c) = pd_user_data c"
  "pd_acked (check_partial_reliability_status now u ss c) = pd_acked c"
  "pd_stream_identifier (check_partial_reliability_status now u ss c) = pd_stream_identifier c"
  "pd_ending_fragment (check_partial_reliability_status now u ss c) = pd_ending_fragment c"
  "pd_all_inflight (check_partial_reliability_status now u ss c) = pd_all_inflight c"
  "pd_nsent (check_partial_reliability_status now u ss c) = pd_nsent c"
  "pd_since (check_partial_reliability_status now u ss c) = pd_since c"
  "pd_retransmit (check_partial_reliability_status now u ss c) = pd_retransmit c"
  "chunk_content (check_partial_reliability_status now u ss c) = chunk_content c"
  by (rule partial_reliability_cases; simp add: chunk_content_def)+

lemma pending_fresh_pop:
  assumes "pq_inv q" "pq_peek q = Some c" "pending_fresh q"
    "pq_pop (pd_beginning_fragment c) (pd_unordered c) q = (Some c, q')"
  shows "\<not> pd_acked c \<and> pending_fresh q'"
  using pq_peek_pop [OF assms(1,2)] assms(3,4) by (auto simp: pending_fresh_def split: if_splits)

lemma move_pending_ok:
  assumes "sender_inv a" "pq_peek (a_pending_queue a) = Some c" "Suc (Suc (pl_len (a_inflight_queue a))) < 2 ^ 31"
  obtains d b where
    "move_pending_data_chunk_to_inflight_queue (pd_beginning_fragment c) (pd_unordered c) now a = (Some d, b)"
    "sender_inv b" "send_frame a b" "chunk_content d = chunk_content c" "pd_tsn d = a_my_next_tsn a"
    "a_my_next_tsn b = a_my_next_tsn a + 1" "a_rwnd b = a_rwnd a"
    "pl_len (a_inflight_queue b) = Suc (pl_len (a_inflight_queue a))"
    "pl_n_bytes (a_inflight_queue b) = pl_n_bytes (a_inflight_queue a) + length (pd_user_data c)"
    "pq_pop (pd_beginning_fragment c) (pd_unordered c) (a_pending_queue a) = (Some c, a_pending_queue b)"
    "pq_queue_len (a_pending_queue a) = Suc (pq_queue_len (a_pending_queue b))"
proof -
  let ?q = "a_pending_queue a"
  have inv: "flight_inv (a_cumulative_tsn_ack_point a) (a_my_next_tsn a) (a_inflight_queue a)"
    "acked_empty (a_inflight_queue a)" "pq_inv ?q" "pending_fresh ?q"
    using assms(1) by (simp_all add: sender_inv_def)
  obtain q' where q': "pq_pop (pd_beginning_fragment c) (pd_unordered c) ?q = (Some c, q')" "pq_inv q'"
    "pq_queue_len ?q = Suc (pq_queue_len q')"
    using pq_peek_pop [OF inv(3) assms(2)] by blast
  note fresh = pending_fresh_pop [OF inv(3) assms(2) inv(4) q'(1)]
  define d where "d = check_partial_reliability_status now (a_use_forward_tsn a) (a_streams a)
    ((if pd_ending_fragment c then set_all_inflight c else c)\<lparr>pd_tsn := a_my_next_tsn a, pd_since := Some now, pd_nsent := 1\<rparr>)"
  let ?b = "a\<lparr>a_pending_queue := q', a_my_next_tsn := a_my_next_tsn a + 1,
      a_inflight_queue := pl_push_no_check d (a_inflight_queue a)\<rparr>"
  have run: "move_pending_data_chunk_to_inflight_queue (pd_beginning_fragment c) (pd_unordered c) now a = (Some d, ?b)"
    using q'(1) by (simp add: move_pending_data_chunk_to_inflight_queue_def generate_next_tsn_def d_def Let_def)
  have d: "pd_tsn d = a_my_next_tsn a" "pd_user_data d = pd_user_data c" "pd_acked d = pd_acked c"
    "chunk_content d = chunk_content c"
    by (simp_all add: d_def set_all_inflight_def) (simp_all add: chunk_content_def)
  note fl = flight_push [OF inv(1) d(1) assms(3)]
  have "acked_empty (pl_push_no_check d (a_inflight_queue a))"
    using inv(2) fresh d(3) by (intro acked_empty_push) simp_all
  then have si: "sender_inv ?b" using fl q'(2) fresh by (simp add: sender_inv_def)
  have nb: "pl_n_bytes (pl_push_no_check d (a_inflight_queue a)) = pl_n_bytes (a_inflight_queue a) + length (pd_user_data c)"
    using d(2) by (simp add: pl_push_no_check_def pl_insert_sorted_def Let_def)
  have "send_frame a ?b" by (simp add: send_frame_def)
  with that [OF run si] show thesis using d fl nb q' by simp
qed

section \<open>Filling the window\<close>

text \<open>The outcome of sending the chunks \<open>ts\<close> while the prefix \<open>ds\<close> of the pending queue is consumed.\<close>

definition window_filled ::
    "association \<Rightarrow> chunk_payload_data list \<Rightarrow> chunk_payload_data list \<Rightarrow> association \<Rightarrow> bool" where
  "window_filled a ds ts b \<longleftrightarrow>
     sender_inv b \<and> send_frame a b \<and>
     pq_drain (pq_queue_len (a_pending_queue a)) (a_pending_queue a) =
       ds @ pq_drain (pq_queue_len (a_pending_queue b)) (a_pending_queue b) \<and>
     map chunk_content ts = map chunk_content (filter (\<lambda>c. pd_user_data c \<noteq> []) ds) \<and>
     map pd_tsn ts = tsn_run (a_my_next_tsn a - 1) (length ts) \<and>
     a_my_next_tsn b = a_my_next_tsn a + of_nat (length ts) \<and>
     pl_len (a_inflight_queue b) = pl_len (a_inflight_queue a) + length ts \<and>
     pl_n_bytes (a_inflight_queue b) = pl_n_bytes (a_inflight_queue a) + data_bytes ts"

definition within_windows :: "association \<Rightarrow> chunk_payload_data list \<Rightarrow> association \<Rightarrow> bool" where
  "within_windows a ts b \<longleftrightarrow>
     (ts \<noteq> [] \<longrightarrow> pl_n_bytes (a_inflight_queue b) \<le> unat (a_cwnd a)) \<and>
     data_bytes ts \<le> unat (a_rwnd a) \<and> a_rwnd b = a_rwnd a - of_nat (data_bytes ts)"

text \<open>Sending stops at an empty pending queue or at a chunk that one of the windows does not admit.
A whole round stops at such a chunk only if something is in flight.\<close>

definition send_blocked :: "association \<Rightarrow> bool" where
  "send_blocked b \<longleftrightarrow>
     (case pq_peek (a_pending_queue b) of None \<Rightarrow> True | Some c \<Rightarrow> pd_user_data c \<noteq> [] \<and>
        (unat (a_cwnd b) < pl_n_bytes (a_inflight_queue b) + length (pd_user_data c) \<or>
         unat (a_rwnd b) < length (pd_user_data c)))"

definition round_blocked :: "association \<Rightarrow> bool" where
  "round_blocked b \<longleftrightarrow> send_blocked b \<and>
     (pq_peek (a_pending_queue b) = None \<or> \<not> pl_is_empty (a_inflight_queue b))"

lemma data_bytes_content: "chunk_content d = chunk_content c \<Longrightarrow> pd_user_data d = pd_user_data c"
  by (drule arg_cong [where f = pd_user_data]) (simp add: chunk_content_def)

lemma unat_sub_of_nat: "n \<le> unat (r :: u32) \<Longrightarrow> unat (r - of_nat n) = unat r - n"
proof -
  assume n: "n \<le> unat r"
  also have "unat r < 2 ^ 32" using unsigned_less [of r] by simp
  finally have "unat (of_nat n :: u32) = n" by (intro unat_of_nat_u32) simp
  then show ?thesis using n unat_sub [of "of_nat n" r] by (simp add: word_le_nat_alt)
qed

lemma pop_pending_loop_ok:
  assumes "sender_inv a" "pl_len (a_inflight_queue a) + pq_queue_len (a_pending_queue a) + 2 < 2 ^ 31"
  shows "\<exists>ds ts b. pop_pending_loop now cs sis a =
      Some (cs @ ts, sis @ map pd_stream_identifier (filter (\<lambda>c. pd_user_data c = []) ds), b) \<and>
    window_filled a ds ts b \<and> within_windows a ts b \<and> send_blocked b"
  using assms
proof (induction "pq_queue_len (a_pending_queue a)" arbitrary: a cs sis rule: less_induct)
  case less
  let ?q = "a_pending_queue a"
  have stop: "window_filled a [] [] a" "within_windows a [] a"
    using less.prems(1) by (simp_all add: window_filled_def within_windows_def send_frame_refl)
  show ?case
  proof (cases "pq_peek ?q")
    case None
    then have "pop_pending_loop now cs sis a = Some (cs, sis, a)" by (subst pop_pending_loop.simps) simp
    with stop None show ?thesis by (intro exI [of _ "[]"] exI [of _ a]) (simp add: send_blocked_def)
  next
    case (Some c)
    have inv: "pq_inv ?q" "pending_fresh ?q" using less.prems(1) by (simp_all add: sender_inv_def)
    obtain q' where q': "pq_pop (pd_beginning_fragment c) (pd_unordered c) ?q = (Some c, q')" "pq_inv q'"
      "pq_queue_len ?q = Suc (pq_queue_len q')"
      using pq_peek_pop [OF inv(1) Some] by blast
    have drain: "pq_drain (pq_queue_len ?q) ?q = c # pq_drain (pq_queue_len q') q'"
      using q' Some by simp
    consider (reset) "pd_user_data c = []"
      | (full) "pd_user_data c \<noteq> []" "unat (a_cwnd a) < pl_n_bytes (a_inflight_queue a) + length (pd_user_data c) \<or>
          unat (a_rwnd a) < length (pd_user_data c)"
      | (send) "pd_user_data c \<noteq> []" "pl_n_bytes (a_inflight_queue a) + length (pd_user_data c) \<le> unat (a_cwnd a)"
          "length (pd_user_data c) \<le> unat (a_rwnd a)"
      by linarith
    then show ?thesis
    proof cases
      case full
      then have "pop_pending_loop now cs sis a = Some (cs, sis, a)"
        using Some by (subst pop_pending_loop.simps) auto
      with stop full Some show ?thesis by (intro exI [of _ "[]"] exI [of _ a]) (simp add: send_blocked_def)
    next
      case reset
      let ?a = "a\<lparr>a_pending_queue := q'\<rparr>"
      have "sender_inv ?a"
        using less.prems(1) q' pending_fresh_pop [OF inv(1) Some inv(2) q'(1)] by (simp add: sender_inv_def)
      then obtain ds ts b where r: "pop_pending_loop now cs (sis @ [pd_stream_identifier c]) ?a =
          Some (cs @ ts, (sis @ [pd_stream_identifier c]) @ map pd_stream_identifier (filter (\<lambda>c. pd_user_data c = []) ds), b)"
        "window_filled ?a ds ts b" "within_windows ?a ts b"
        "send_blocked b"
        using less.hyps [of ?a cs "sis @ [pd_stream_identifier c]"] less.prems(2) q'(3) by auto
      have "pop_pending_loop now cs sis a = pop_pending_loop now cs (sis @ [pd_stream_identifier c]) ?a"
        using Some reset q'(1) by (subst pop_pending_loop.simps) simp
      moreover have "send_frame a b"
        using r(2) send_frame_trans [of a ?a b] by (simp add: window_filled_def send_frame_def [of a ?a])
      then have "window_filled a (c # ds) ts b" "within_windows a ts b"
        using r(2,3) drain reset by (simp_all add: window_filled_def within_windows_def)
      ultimately show ?thesis
        using r(1,4) reset by (intro exI [of _ "c # ds"] exI [of _ ts] exI [of _ b]) simp
    next
      case send
      let ?a = "a\<lparr>a_rwnd := a_rwnd a - of_nat (length (pd_user_data c))\<rparr>"
      have "sender_inv ?a" "pq_peek (a_pending_queue ?a) = Some c" "Suc (Suc (pl_len (a_inflight_queue ?a))) < 2 ^ 31"
        using less.prems q'(3) Some by (simp_all add: sender_inv_def)
      then obtain d a1 where m:
        "move_pending_data_chunk_to_inflight_queue (pd_beginning_fragment c) (pd_unordered c) now ?a = (Some d, a1)"
        "sender_inv a1" "send_frame ?a a1" "chunk_content d = chunk_content c" "pd_tsn d = a_my_next_tsn a"
        "a_my_next_tsn a1 = a_my_next_tsn a + 1" "a_rwnd a1 = a_rwnd ?a"
        "pl_len (a_inflight_queue a1) = Suc (pl_len (a_inflight_queue a))"
        "pl_n_bytes (a_inflight_queue a1) = pl_n_bytes (a_inflight_queue a) + length (pd_user_data c)"
        "pq_pop (pd_beginning_fragment c) (pd_unordered c) ?q = (Some c, a_pending_queue a1)"
        by (rule move_pending_ok [of ?a c now]) auto
      have q1: "a_pending_queue a1 = q'" using m(10) q'(1) by simp
      obtain ds ts b where r: "pop_pending_loop now (cs @ [d]) sis a1 =
          Some ((cs @ [d]) @ ts, sis @ map pd_stream_identifier (filter (\<lambda>c. pd_user_data c = []) ds), b)"
        "window_filled a1 ds ts b" "within_windows a1 ts b"
        "send_blocked b"
        using less.hyps [of a1 "cs @ [d]" sis] less.prems(2) q'(3) q1 m(2,8) by auto
      have run: "pop_pending_loop now cs sis a = pop_pending_loop now (cs @ [d]) sis a1"
        using Some send m(1) by (subst pop_pending_loop.simps) (simp add: Let_def)
      have fr: "send_frame a a1"
        using send_frame_trans [OF _ m(3), of a] by (simp add: send_frame_def [of a ?a])
      have ud: "pd_user_data d = pd_user_data c" using data_bytes_content [OF m(4)] .
      have "window_filled a (c # ds) (d # ts) b"
        using r(2) drain q1 send(1) m send_frame_trans [OF fr] ud by (simp add: window_filled_def)
      moreover have "within_windows a (d # ts) b"
      proof -
        have "unat (a_rwnd a1) = unat (a_rwnd a) - length (pd_user_data c)"
          using unat_sub_of_nat [OF send(3)] m(7) by simp
        then show ?thesis
          using r(2,3) m(7,9) send ud send_frame_sel(2) [OF fr] by (auto simp: within_windows_def window_filled_def)
      qed
      ultimately show ?thesis
        using r(1,4) run send(1) by (intro exI [of _ "c # ds"] exI [of _ "d # ts"] exI [of _ b]) simp
    qed
  qed
qed

lemma window_filled_probe:
  assumes "window_filled a ds [] b" "pl_is_empty (a_inflight_queue b)" "pq_peek (a_pending_queue b) = Some c"
    "pd_user_data c \<noteq> []"
  shows "\<exists>d e. zero_window_probe now [] b = ([d], e) \<and> window_filled a (ds @ [c]) [d] e"
proof -
  have b: "sender_inv b" "Suc (Suc (pl_len (a_inflight_queue b))) < 2 ^ 31"
    using assms(1,2) by (simp_all add: window_filled_def pl_is_empty_def)
  obtain d e where m:
    "move_pending_data_chunk_to_inflight_queue (pd_beginning_fragment c) (pd_unordered c) now b = (Some d, e)"
    "sender_inv e" "send_frame b e" "chunk_content d = chunk_content c" "pd_tsn d = a_my_next_tsn b"
    "a_my_next_tsn e = a_my_next_tsn b + 1"
    "pl_len (a_inflight_queue e) = Suc (pl_len (a_inflight_queue b))"
    "pl_n_bytes (a_inflight_queue e) = pl_n_bytes (a_inflight_queue b) + length (pd_user_data c)"
    "pq_pop (pd_beginning_fragment c) (pd_unordered c) (a_pending_queue b) = (Some c, a_pending_queue e)"
    "pq_queue_len (a_pending_queue b) = Suc (pq_queue_len (a_pending_queue e))"
    by (rule move_pending_ok [OF b(1) assms(3) b(2), of now]) auto
  have "zero_window_probe now [] b = ([d], e)"
    using m(1) assms(2,3) by (simp add: zero_window_probe_def)
  moreover have "pq_drain (pq_queue_len (a_pending_queue b)) (a_pending_queue b) =
      c # pq_drain (pq_queue_len (a_pending_queue e)) (a_pending_queue e)"
    using m(9,10) assms(3) by simp
  then have "window_filled a (ds @ [c]) [d] e"
    using assms(1,4) m send_frame_trans [OF _ m(3), of a] data_bytes_content [OF m(4)]
    by (simp add: window_filled_def)
  ultimately show ?thesis by blast
qed

lemma pop_pending_ok:
  assumes "sender_inv a" "pl_len (a_inflight_queue a) + pq_queue_len (a_pending_queue a) + 2 < 2 ^ 31"
  shows "\<exists>ds ts b. pop_pending_data_chunks_to_send now a =
      Some (ts, map pd_stream_identifier (filter (\<lambda>c. pd_user_data c = []) ds), b) \<and>
    window_filled a ds ts b \<and>
    (within_windows a ts b \<and> round_blocked b \<or> pl_is_empty (a_inflight_queue a) \<and> length ts = 1)"
proof (cases "pq_is_empty (a_pending_queue a)")
  case True
  moreover from this have "pq_peek (a_pending_queue a) = None"
    using assms(1) pq_peek_pop [of "a_pending_queue a"] by (cases "pq_peek (a_pending_queue a)") (auto simp: sender_inv_def pq_is_empty_def)
  ultimately show ?thesis
    using assms(1) by (intro exI [of _ "[]"] exI [of _ a])
      (simp add: pop_pending_data_chunks_to_send_def window_filled_def within_windows_def send_frame_refl
        round_blocked_def send_blocked_def)
next
  case False
  obtain ds ts b where l: "pop_pending_loop now [] [] a =
      Some (ts, map pd_stream_identifier (filter (\<lambda>c. pd_user_data c = []) ds), b)"
    "window_filled a ds ts b" "within_windows a ts b"
    "send_blocked b"
    using pop_pending_loop_ok [OF assms, of now "[]" "[]"] by auto
  show ?thesis
  proof (cases "ts = [] \<and> pl_is_empty (a_inflight_queue b) \<and> pq_peek (a_pending_queue b) \<noteq> None")
    case True
    then obtain c where c: "pq_peek (a_pending_queue b) = Some c" "pd_user_data c \<noteq> []"
      using l(4) by (auto simp: send_blocked_def)
    have wf: "window_filled a ds [] b" using l(2) True by simp
    then have e: "pl_is_empty (a_inflight_queue a)"
      using True by (simp add: window_filled_def pl_is_empty_def)
    obtain d e where p: "zero_window_probe now [] b = ([d], e)" "window_filled a (ds @ [c]) [d] e"
      using window_filled_probe [OF wf _ c, of now] True by blast
    show ?thesis
      using False l(1) True c(2) p e
      by (intro exI [of _ "ds @ [c]"] exI [of _ "[d]"] exI [of _ e]) (simp add: pop_pending_data_chunks_to_send_def)
  next
    case no: False
    then have "zero_window_probe now ts b = (ts, b)"
      by (auto simp: zero_window_probe_def)
    moreover have "round_blocked b"
      using no l(2,4) by (auto simp: round_blocked_def window_filled_def pl_is_empty_def)
    ultimately show ?thesis
      using False l by (intro exI [of _ ds] exI [of _ ts] exI [of _ b]) (simp add: pop_pending_data_chunks_to_send_def)
  qed
qed

text \<open>C17. \<open>pop_pending_data_chunks_to_send\<close> always returns, and what it sends is exactly the next
chunks of the pending queue in the queue's order (entries without data become stream reset
requests), under consecutive TSNs starting at the next TSN. There are two outcomes. Either the
bytes sent do not exceed the peer's window, which shrinks by them, and if anything is sent the
bytes in flight do not exceed the congestion window afterwards; then sending went on until the
queue was empty or, with data in flight, its next chunk did not fit one of the windows. Or nothing
was in flight and a single chunk is sent, which may be a window probe.\<close>

theorem sends_within_windows:
  assumes "sender_inv a" "pl_len (a_inflight_queue a) + pq_queue_len (a_pending_queue a) + 2 < 2 ^ 31"
  shows "\<exists>ds ts b. pop_pending_data_chunks_to_send now a =
      Some (ts, map pd_stream_identifier (filter (\<lambda>c. pd_user_data c = []) ds), b) \<and>
    window_filled a ds ts b \<and>
    (within_windows a ts b \<and> round_blocked b \<or> pl_is_empty (a_inflight_queue a) \<and> length ts = 1)"
  using assms by (rule pop_pending_ok)

definition pending_assoc_sample :: association where
  "pending_assoc_sample = flight_sample\<lparr>a_cwnd := 5, a_rwnd := 10,
     a_pending_queue := fold pq_push [frag_sample False True False 1, frag_sample False False True 2] pq_new\<rparr>"

theorem sends_within_windows_witness:
  "\<exists>ds ts b. pop_pending_data_chunks_to_send 0 pending_assoc_sample =
      Some (ts, map pd_stream_identifier (filter (\<lambda>c. pd_user_data c = []) ds), b) \<and>
    window_filled pending_assoc_sample ds ts b \<and> within_windows pending_assoc_sample ts b \<and> round_blocked b"
proof -
  let ?q = "fold pq_push [frag_sample False True False 1, frag_sample False False True 2] pq_new"
  have q: "pq_inv ?q \<and> pending_fresh ?q \<and> pq_queue_len ?q = 2"
    by (simp add: pq_push_def pq_new_def frag_sample_def payload_data_default_def Let_def pq_inv_def pending_fresh_def)
  have "sender_inv pending_assoc_sample" "pl_len (a_inflight_queue pending_assoc_sample) = 3"
    "pq_queue_len (a_pending_queue pending_assoc_sample) = 2"
    using flight_sample_inv q by (simp_all add: sender_inv_def pending_assoc_sample_def)
  then show ?thesis
    using sends_within_windows [of pending_assoc_sample 0] by (auto simp: pl_is_empty_def)
qed

section \<open>Bundling\<close>

text \<open>The size of a packet of DATA chunks without padding.\<close>

definition packet_size :: "chunk_payload_data list \<Rightarrow> nat" where
  "packet_size b = 12 + sum_list (map (\<lambda>c. 16 + length (pd_user_data c)) b)"

lemma packet_size_simps [simp]:
  "packet_size [] = 12" "packet_size (b @ [c]) = packet_size b + (16 + length (pd_user_data c))"
  by (simp_all add: packet_size_def)

lemma bundle_loop_concat: "concat (bundle_loop mtu cur n cs) = cur @ cs"
  by (induction mtu cur n cs rule: bundle_loop.induct) (auto simp: Let_def)

lemma bundle_loop_nonempty: "cur \<noteq> [] \<or> cs \<noteq> [] \<Longrightarrow> b \<in> set (bundle_loop mtu cur n cs) \<Longrightarrow> b \<noteq> []"
  by (induction mtu cur n cs rule: bundle_loop.induct) (auto simp: Let_def split: if_splits)

lemma unat_add_of_nat:
  assumes "unat (x :: u32) + n < 2 ^ 32" shows "unat (x + of_nat n) = unat x + n"
proof -
  have "unat (of_nat n :: u32) = n" using assms by (intro unat_of_nat_u32) simp
  then show ?thesis using assms by (simp add: unat_word_ariths)
qed

lemma bundle_loop_size:
  assumes "unat mtu < 2 ^ 30" "unat n = packet_size cur" "packet_size cur \<le> unat mtu + 16"
    "list_all (\<lambda>c. length (pd_user_data c) + 28 \<le> unat mtu) (cur @ cs)" "b \<in> set (bundle_loop mtu cur n cs)"
  shows "packet_size b \<le> unat mtu + 16"
  using assms
proof (induction mtu cur n cs rule: bundle_loop.induct)
  case (2 mtu cur n c cs)
  let ?l = "length (pd_user_data c)"
  have l: "?l + 28 \<le> unat mtu" using "2.prems"(4) by simp
  have add: "unat (n + of_nat ?l) = packet_size cur + ?l"
    using unat_add_of_nat [of n ?l] "2.prems"(1-3) l by simp
  have one: "unat (COMMON_HEADER_SIZE + (DATA_CHUNK_HEADER_SIZE + of_nat ?l)) = packet_size [c]"
    using unat_add_of_nat [of 28 ?l] l "2.prems"(1)
    by (simp add: COMMON_HEADER_SIZE_def DATA_CHUNK_HEADER_SIZE_def packet_size_def add.assoc [symmetric])
  have more: "unat (n + (DATA_CHUNK_HEADER_SIZE + of_nat ?l)) = packet_size (cur @ [c])"
    using unat_add_of_nat [of n "16 + ?l"] "2.prems"(1-3) l
    by (simp add: DATA_CHUNK_HEADER_SIZE_def)
  show ?case
  proof (cases "n + of_nat ?l > mtu \<and> cur \<noteq> []")
    case True
    then consider "b = cur" | "b \<in> set (bundle_loop mtu [c] (COMMON_HEADER_SIZE + (DATA_CHUNK_HEADER_SIZE + of_nat ?l)) cs)"
      using "2.prems"(5) by (auto simp: Let_def)
    then show ?thesis
    proof cases
      case 2
      have "packet_size [c] \<le> unat mtu + 16" using l by (simp add: packet_size_def)
      with "2.prems" one 2 True show ?thesis by (intro "2.IH"(1)) (auto simp: Let_def)
    qed (use "2.prems"(3) in simp)
  next
    case False
    have "packet_size (cur @ [c]) \<le> unat mtu + 16"
    proof (cases "cur = []")
      case False
      then have "n + of_nat ?l \<le> mtu" using \<open>\<not> (n + of_nat ?l > mtu \<and> cur \<noteq> [])\<close> by simp
      then show ?thesis using add by (simp add: word_le_nat_alt)
    qed (use l in \<open>simp add: packet_size_def\<close>)
    with "2.prems" more False show ?thesis by (intro "2.IH"(2)) (auto simp: Let_def)
  qed
qed simp

definition data_packet :: "association \<Rightarrow> chunk_payload_data list \<Rightarrow> packet" where
  "data_packet a b = create_packet a (map CPayloadData b)"

lemma data_packet_wire:
  assumes "crc32c_append crc" "list_all (\<lambda>c. length (pd_user_data c) < 65520) b"
  shows "\<exists>raw. packet_marshal crc (data_packet a b) = Ok raw \<and> length raw = marshaled_len (data_packet a b) \<and>
    packet_unmarshal crc raw = Ok (data_packet a (map payload_data_on_wire b))"
proof -
  have "list_all wf_chunk (pk_chunks (data_packet a b))"
    using assms(2) by (auto simp: data_packet_def create_packet_def list_all_iff wf_payload_data_def
        payload_data_value_length_def size_defs)
  then obtain raw where "packet_marshal crc (data_packet a b) = Ok raw"
    "packet_unmarshal crc raw = Ok (data_packet a b\<lparr>pk_chunks := map chunk_on_wire (pk_chunks (data_packet a b))\<rparr>)"
    "length raw = marshaled_len (data_packet a b)"
    using packet_codec [OF assms(1)] by metis
  then show ?thesis by (simp add: data_packet_def create_packet_def comp_def)
qed

lemma fold_push_raw:
  "list_all2 (\<lambda>b raw. f b = Ok raw) bs rs \<Longrightarrow> fold (\<lambda>b. push_raw (f b)) bs out = out @ rs"
  by (induction bs arbitrary: rs out) (auto simp: list_all2_Cons1 push_raw_def)

text \<open>C18. Bundling partitions the chunks: the datagrams written for a list of DATA chunks, when
parsed by a receiver, carry exactly these chunks in the same order; no datagram is empty, and
without padding none is longer than the MTU plus one DATA chunk header.\<close>

theorem bundling_partitions_chunks:
  assumes "crc32c_append crc" "chunks \<noteq> []" "unat (a_mtu a) < 65520"
    "list_all (\<lambda>c. length (pd_user_data c) + 28 \<le> unat (a_mtu a)) chunks"
  shows "\<exists>bs raws. bundle_data_chunks_into_packets crc chunks a [] = raws \<and> concat bs = chunks \<and>
    list_all (\<lambda>b. b \<noteq> [] \<and> packet_size b \<le> unat (a_mtu a) + 16) bs \<and>
    list_all2 (\<lambda>b raw. packet_unmarshal crc raw = Ok (data_packet a (map payload_data_on_wire b))) bs raws"
proof -
  let ?bs = "bundle_loop (a_mtu a) [] COMMON_HEADER_SIZE chunks"
  let ?f = "\<lambda>b. packet_marshal crc (data_packet a b)"
  have sz: "packet_size b \<le> unat (a_mtu a) + 16" if "b \<in> set ?bs" for b
  proof (rule bundle_loop_size [OF _ _ _ _ that])
    show "unat COMMON_HEADER_SIZE = packet_size []" by (simp add: COMMON_HEADER_SIZE_def)
  qed (use assms(3,4) in \<open>simp_all add: list_all_iff\<close>)
  have "list_all (\<lambda>c. length (pd_user_data c) < 65520) b" if "b \<in> set ?bs" for b
  proof -
    have "set chunks = (\<Union>b\<in>set ?bs. set b)"
      using arg_cong [OF bundle_loop_concat [of "a_mtu a" "[]" COMMON_HEADER_SIZE chunks], of set] by simp
    then have "c \<in> set chunks" if "c \<in> set b" for c using that \<open>b \<in> set ?bs\<close> by blast
    then show ?thesis using assms(3,4) unfolding list_all_iff by force
  qed
  then have "\<forall>b\<in>set ?bs. \<exists>raw. ?f b = Ok raw \<and> packet_unmarshal crc raw = Ok (data_packet a (map payload_data_on_wire b))"
    using data_packet_wire [OF assms(1)] by metis
  then obtain g where g: "\<forall>b\<in>set ?bs. ?f b = Ok (g b) \<and>
      packet_unmarshal crc (g b) = Ok (data_packet a (map payload_data_on_wire b))"
    by metis
  have "fold (\<lambda>b. push_raw (?f b)) ?bs [] = map g ?bs"
    using fold_push_raw [of ?f ?bs "map g ?bs" "[]"] g by (simp add: list_all2_conv_all_nth)
  then have "bundle_data_chunks_into_packets crc chunks a [] = map g ?bs"
    using assms(2) by (simp add: bundle_data_chunks_into_packets_def packet_marshal_def data_packet_def create_packet_def)
  then show ?thesis
    using g sz bundle_loop_concat bundle_loop_nonempty [of "[]" chunks] assms(2)
    by (intro exI [of _ ?bs] exI [of _ "map g ?bs"]) (auto simp: list_all_iff list_all2_conv_all_nth)
qed

theorem bundling_partitions_chunks_witness:
  "\<exists>bs raws. bundle_data_chunks_into_packets crc32c_ref [flight_chunk 1 10, flight_chunk 2 11]
      (association_default\<lparr>a_mtu := 40\<rparr>) [] = raws \<and>
    concat bs = [flight_chunk 1 10, flight_chunk 2 11] \<and>
    list_all (\<lambda>b. b \<noteq> [] \<and> packet_size b \<le> 56) bs \<and>
    list_all2 (\<lambda>b raw. packet_unmarshal crc32c_ref raw =
      Ok (data_packet (association_default\<lparr>a_mtu := 40\<rparr>) (map payload_data_on_wire b))) bs raws"
  using bundling_partitions_chunks [OF crc32c_ref.crc32c_append_axioms,
      of "[flight_chunk 1 10, flight_chunk 2 11]" "association_default\<lparr>a_mtu := 40\<rparr>"]
  by (simp add: flight_chunk_def payload_data_default_def)

text \<open>C32. The size test of the bundling ignores the padding and the header of the chunk it is
about to add, so the documented bound by the MTU does not hold: with the default MTU of 1228
bytes, 72 queued messages of one byte go into one datagram of 1452 bytes.\<close>

theorem bundle_exceeds_mtu:
  "INITIAL_MTU = 1228 \<and>
   bundle_loop INITIAL_MTU [] COMMON_HEADER_SIZE (replicate 72 (flight_chunk t x)) = [replicate 72 (flight_chunk t x)] \<and>
   marshaled_len (data_packet a (replicate 72 (flight_chunk t x))) = 1452"
proof -
  have len: "length (pd_user_data (flight_chunk t x)) = 1" by (simp add: flight_chunk_def)
  have step: "bundle_loop 1228 (replicate i (flight_chunk t x)) (12 + 17 * of_nat i) (replicate n (flight_chunk t x)) =
      [replicate (i + n) (flight_chunk t x)]" if "i + n \<le> 72" for i n
    using that
  proof (induction n arbitrary: i)
    case (Suc n)
    have "(12 + 17 * of_nat i + 1 :: u32) = of_nat (13 + 17 * i)" by simp
    then have "unat (12 + 17 * of_nat i + 1 :: u32) = 13 + 17 * i"
      using Suc.prems by (simp only:) (intro unat_of_nat_u32, simp)
    then have "\<not> (12 + 17 * of_nat i + 1 :: u32) > 1228"
      using Suc.prems by (simp add: word_less_nat_alt)
    then show ?case
      using Suc.IH [of "Suc i"] Suc.prems len
      by (simp add: DATA_CHUNK_HEADER_SIZE_def algebra_simps replicate_append_same)
  qed simp
  show ?thesis
    using step [of 0 72] by (simp add: INITIAL_MTU_def COMMON_HEADER_SIZE_def)
      (simp add: marshaled_len_def data_packet_def create_packet_def size_defs payload_data_value_length_def len
        get_padding_size_def PADDING_MULTIPLE_def PACKET_HEADER_SIZE_def sum_list_replicate)
qed

section \<open>Retransmission scans\<close>

lemma flight_scan:
  assumes "flight_inv cum next q" "j \<le> pl_len q"
  shows "pl_get (cum + of_nat j + 1) q = None \<longleftrightarrow> j = pl_len q"
proof -
  have "unat (of_nat (Suc j) :: u32) = Suc j"
    using assms by (intro unat_of_nat_u32) (simp add: flight_inv_def)
  then have "unat (cum + of_nat j + 1 - cum) = Suc j" by (simp add: add.commute)
  then show ?thesis using flight_get_iff [OF assms(1), of "cum + of_nat j + 1"] assms(2) by auto
qed

text \<open>Replacing the chunk at one TSN of the flight.\<close>

lemma flight_replace:
  assumes "flight_inv cum next q" "acked_empty q" "pl_get t q = Some c"
    "pd_tsn d = pd_tsn c" "pd_user_data d = pd_user_data c" "pd_acked d = pd_acked c"
  shows "flight_inv cum next (pl_modify t (\<lambda>_. d) q) \<and> acked_empty (pl_modify t (\<lambda>_. d) q) \<and>
    pl_len (pl_modify t (\<lambda>_. d) q) = pl_len q"
  using flight_modify [OF assms(1), of t "\<lambda>_. d"] assms(2-)
  by (auto simp: acked_empty_def pl_modify_get split: if_splits)

lemma flight_scan_Suc:
  assumes "flight_inv cum next q" "j \<le> pl_len q" "pl_get (cum + of_nat j + 1) q = Some c"
  shows "Suc j \<le> pl_len q"
  using flight_scan [OF assms(1,2)] assms(2,3) by auto

text \<open>From an index within the flight the scan returns; it changes nothing but the chunks in
flight, and of these neither the TSNs nor the data.\<close>

lemma retransmit_loop_ok:
  assumes "flight_inv (a_cumulative_tsn_ack_point a) next (a_inflight_queue a)" "acked_empty (a_inflight_queue a)"
    "j \<le> pl_len (a_inflight_queue a)"
  shows "\<exists>cs' r q. retransmit_loop now awnd (of_nat j) n cs a = Some (cs @ cs', r, a\<lparr>a_inflight_queue := q\<rparr>) \<and>
    flight_inv (a_cumulative_tsn_ack_point a) next q \<and> acked_empty q \<and> pl_n_bytes q = pl_n_bytes (a_inflight_queue a) \<and>
    pl_len q = pl_len (a_inflight_queue a)"
  using assms
proof (induction "pl_len (a_inflight_queue a) - j" arbitrary: j n cs a rule: less_induct)
  case less
  let ?q = "a_inflight_queue a" and ?cum = "a_cumulative_tsn_ack_point a"
  let ?t = "?cum + of_nat j + 1" and ?loop = "retransmit_loop now awnd (of_nat j) n cs a"
  let ?P = "\<lambda>x. \<exists>cs' r q. x = Some (cs @ cs', r, a\<lparr>a_inflight_queue := q\<rparr>) \<and>
    flight_inv ?cum next q \<and> acked_empty q \<and> pl_n_bytes q = pl_n_bytes ?q \<and> pl_len q = pl_len ?q"
  have same: "?P (Some (cs, r0, a))" for r0
    using less.prems by (intro exI [of _ "[]"] exI [of _ r0] exI [of _ ?q]) simp
  show ?case
  proof (cases "pl_get ?t ?q")
    case None
    then have "?loop = Some (cs, False, a)" by (subst retransmit_loop.simps) simp
    with same [of False] show ?thesis by (simp only:)
  next
    case (Some c)
    have j: "Suc j \<le> pl_len ?q" using flight_scan_Suc [OF less.prems(1,3) Some] .
    define d where "d = check_partial_reliability_status now (a_use_forward_tsn a) (a_streams a)
      (c\<lparr>pd_retransmit := False, pd_nsent := pd_nsent c + 1\<rparr>)"
    let ?m = "pl_modify ?t (\<lambda>_. d) ?q"
    have m: "flight_inv ?cum next ?m \<and> acked_empty ?m \<and> pl_len ?m = pl_len ?q"
      using flight_replace [OF less.prems(1,2) Some, of d] by (simp add: d_def)
    have skip: "?P (retransmit_loop now awnd (of_nat j + 1) n cs a)"
      using less.hyps [of a "Suc j" n cs] less.prems(1,2) j by (simp add: add.commute)
    have more: "?P (retransmit_loop now awnd (of_nat j + 1) n' (cs @ [d]) (a\<lparr>a_inflight_queue := ?m\<rparr>))" for n'
      using less.hyps [of "a\<lparr>a_inflight_queue := ?m\<rparr>" "Suc j" n' "cs @ [d]"] m j by (fastforce simp: add.commute)
    have sent: "?P (Some (cs @ [d], r0, a\<lparr>a_inflight_queue := ?m\<rparr>))" for r0
      using m by (intro exI [of _ "[d]"] exI [of _ r0] exI [of _ ?m]) simp
    let ?probe = "of_nat j = (0::u32) \<and> a_rwnd a < of_nat (length (pd_user_data c))"
    have "?loop = (if \<not> pd_retransmit c then retransmit_loop now awnd (of_nat j + 1) n cs a
      else if \<not> ?probe \<and> unat awnd < n + length (pd_user_data c) then Some (cs, True, a)
      else if ?probe then Some (cs @ [d], True, a\<lparr>a_inflight_queue := ?m\<rparr>)
      else retransmit_loop now awnd (of_nat j + 1) (n + length (pd_user_data c)) (cs @ [d]) (a\<lparr>a_inflight_queue := ?m\<rparr>))"
      using Some by (subst retransmit_loop.simps) (simp add: Let_def d_def)
    then show ?thesis
      using skip same [of True] sent [of True] more [of "n + length (pd_user_data c)"] by presburger
  qed
qed

section \<open>Expiry of T3-rtx\<close>

lemma note_abandoned_eq:
  "\<exists>y. note_abandoned_for_forward_tsn u si ssn a = a\<lparr>a_fwd_tsn_stream_map := y\<rparr>"
  by (cases u) (auto simp: note_abandoned_for_forward_tsn_def Let_def intro: exI [of _ "a_fwd_tsn_stream_map a"])

lemma advance_abandoned_eq:
  "\<exists>x y. advance_abandoned n i a = a\<lparr>a_advanced_peer_tsn_ack_point := x, a_fwd_tsn_stream_map := y\<rparr>"
proof (induction n arbitrary: i a)
  case (Suc n)
  have refl: "\<exists>x y. a = a\<lparr>a_advanced_peer_tsn_ack_point := x, a_fwd_tsn_stream_map := y\<rparr>"
    by (intro exI [of _ "a_advanced_peer_tsn_ack_point a"] exI [of _ "a_fwd_tsn_stream_map a"]) simp
  show ?case
  proof (cases "pl_get i (a_inflight_queue a)")
    case (Some c)
    obtain y where y: "note_abandoned_for_forward_tsn (pd_unordered c) (pd_stream_identifier c)
        (pd_stream_sequence_number c) (a\<lparr>a_advanced_peer_tsn_ack_point := i\<rparr>) =
      a\<lparr>a_advanced_peer_tsn_ack_point := i, a_fwd_tsn_stream_map := y\<rparr>"
      using note_abandoned_eq by fastforce
    show ?thesis
      using Suc.IH [of "i + 1" "a\<lparr>a_advanced_peer_tsn_ack_point := i, a_fwd_tsn_stream_map := y\<rparr>"] refl Some y
      by (cases "is_abandoned c") auto
  qed (use refl in simp)
next
  case 0
  show ?case
    by (intro exI [of _ "a_advanced_peer_tsn_ack_point a"] exI [of _ "a_fwd_tsn_stream_map a"]) simp
qed

text \<open>Every round of the scan of RFC 3758 C2 uses up a chunk in flight, so one round more than there
are chunks is enough.\<close>

lemma advance_abandoned_stops:
  assumes "flight_inv cum next (a_inflight_queue a)" "j \<le> pl_len (a_inflight_queue a)"
    "pl_len (a_inflight_queue a) - j < n"
  shows "advance_abandoned (n + k) (cum + of_nat j + 1) a = advance_abandoned n (cum + of_nat j + 1) a"
  using assms
proof (induction n arbitrary: j a)
  case (Suc n)
  let ?t = "cum + of_nat j + 1"
  show ?case
  proof (cases "pl_get ?t (a_inflight_queue a)")
    case (Some c)
    then have j: "Suc j \<le> pl_len (a_inflight_queue a)" "pl_len (a_inflight_queue a) - Suc j < n"
      using flight_scan [OF Suc.prems(1,2)] Suc.prems(2,3) by auto
    obtain y where y: "note_abandoned_for_forward_tsn (pd_unordered c) (pd_stream_identifier c)
        (pd_stream_sequence_number c) (a\<lparr>a_advanced_peer_tsn_ack_point := ?t\<rparr>) =
      a\<lparr>a_advanced_peer_tsn_ack_point := ?t, a_fwd_tsn_stream_map := y\<rparr>"
      using note_abandoned_eq by fastforce
    have "cum + of_nat (Suc j) + 1 = ?t + 1" by simp
    then show ?thesis
      using Suc.IH [of "a\<lparr>a_advanced_peer_tsn_ack_point := ?t, a_fwd_tsn_stream_map := y\<rparr>" "Suc j"] Suc.prems(1) j Some y
      by (cases "is_abandoned c") simp_all
  qed simp
qed simp

lemma on_t3_timeout_sel:
  "a_inflight_queue (on_t3_timeout a) = pl_mark_all_to_retransmit (a_inflight_queue a)"
  "a_cumulative_tsn_ack_point (on_t3_timeout a) = a_cumulative_tsn_ack_point a"
  "a_my_next_tsn (on_t3_timeout a) = a_my_next_tsn a" "a_pending_queue (on_t3_timeout a) = a_pending_queue a"
  "a_rwnd (on_t3_timeout a) = a_rwnd a" "a_cwnd (on_t3_timeout a) = a_mtu a" "a_mtu (on_t3_timeout a) = a_mtu a"
  "a_state (on_t3_timeout a) = a_state a" "a_t3_retransmit_pending (on_t3_timeout a)"
  "a_ssthresh (on_t3_timeout a) = max (a_cwnd a div 2) (4 * a_mtu a)"
proof -
  let ?a = "a\<lparr>a_stats := inc_t3timeouts (a_stats a), a_ssthresh := max (a_cwnd a div 2) (4 * a_mtu a), a_cwnd := a_mtu a\<rparr>"
  obtain x y where e: "advance_peer_ack_point ?a = ?a\<lparr>a_advanced_peer_tsn_ack_point := x, a_fwd_tsn_stream_map := y\<rparr>"
    using advance_abandoned_eq unfolding advance_peer_ack_point_def by blast
  then show "a_inflight_queue (on_t3_timeout a) = pl_mark_all_to_retransmit (a_inflight_queue a)"
    "a_cumulative_tsn_ack_point (on_t3_timeout a) = a_cumulative_tsn_ack_point a"
    "a_my_next_tsn (on_t3_timeout a) = a_my_next_tsn a" "a_pending_queue (on_t3_timeout a) = a_pending_queue a"
    "a_rwnd (on_t3_timeout a) = a_rwnd a" "a_cwnd (on_t3_timeout a) = a_mtu a" "a_mtu (on_t3_timeout a) = a_mtu a"
    "a_state (on_t3_timeout a) = a_state a" "a_t3_retransmit_pending (on_t3_timeout a)"
    "a_ssthresh (on_t3_timeout a) = max (a_cwnd a div 2) (4 * a_mtu a)"
    by (simp_all add: on_t3_timeout_def Let_def)
qed

lemma flight_mark_all:
  assumes "flight_inv cum next q" "acked_empty q"
  shows "flight_inv cum next (pl_mark_all_to_retransmit q) \<and> acked_empty (pl_mark_all_to_retransmit q) \<and>
    pl_len (pl_mark_all_to_retransmit q) = pl_len q"
proof -
  have "pl_sorted (pl_mark_all_to_retransmit q) = pl_sorted q" "pl_len (pl_mark_all_to_retransmit q) = pl_len q"
    by (simp_all add: pl_mark_all_to_retransmit_def pl_len_def)
  moreover have "acked_empty (pl_mark_all_to_retransmit q)"
    using assms(2) by (auto simp: acked_empty_def pl_mark_all_get)
  ultimately show ?thesis
    using assms(1) pl_mark_all_inv [OF flight_pl_inv [OF assms(1)]] by (simp add: flight_inv_def)
qed

lemma t3_sender_inv: "sender_inv a \<Longrightarrow> sender_inv (on_t3_timeout a)"
  using flight_mark_all [of "a_cumulative_tsn_ack_point a" "a_my_next_tsn a" "a_inflight_queue a"]
  by (simp add: sender_inv_def on_t3_timeout_sel)

lemma retransmit_first:
  assumes "sender_inv a" "pl_get (a_cumulative_tsn_ack_point a + 1) (a_inflight_queue a) = Some c" "pd_retransmit c"
    "length (pd_user_data c) \<le> unat (a_cwnd a)"
  shows "\<exists>d cs r e. retransmit_loop now (min (a_cwnd a) (a_rwnd a)) 0 0 [] a = Some (d # cs, r, e) \<and>
    sender_inv e \<and> pd_tsn d = a_cumulative_tsn_ack_point a + 1 \<and> pd_nsent d = pd_nsent c + 1 \<and>
    chunk_content d = chunk_content (c\<lparr>pd_retransmit := False\<rparr>)"
proof -
  let ?q = "a_inflight_queue a" and ?t = "a_cumulative_tsn_ack_point a + 1" and ?l = "length (pd_user_data c)"
  have inv: "flight_inv (a_cumulative_tsn_ack_point a) (a_my_next_tsn a) ?q" "acked_empty ?q"
    using assms(1) by (simp_all add: sender_inv_def)
  define d where "d = check_partial_reliability_status now (a_use_forward_tsn a) (a_streams a)
      (c\<lparr>pd_retransmit := False, pd_nsent := pd_nsent c + 1\<rparr>)"
  let ?a = "a\<lparr>a_inflight_queue := pl_modify ?t (\<lambda>_. d) ?q\<rparr>"
  have m: "flight_inv (a_cumulative_tsn_ack_point a) (a_my_next_tsn a) (a_inflight_queue ?a)" "acked_empty (a_inflight_queue ?a)"
    using flight_replace [OF inv assms(2), of d] by (simp_all add: d_def)
  have "1 \<le> pl_len ?q" using flight_scan_Suc [OF inv(1), of 0 c] assms(2) by simp
  then have one: "1 \<le> pl_len (a_inflight_queue ?a)" using flight_replace [OF inv assms(2), of d] by (simp add: d_def)
  have d: "pd_tsn d = ?t" "pd_nsent d = pd_nsent c + 1" "chunk_content d = chunk_content (c\<lparr>pd_retransmit := False\<rparr>)"
    using pl_inv_get_tsn [OF flight_pl_inv [OF inv(1)] assms(2)] by (simp_all add: d_def) (simp add: chunk_content_def)
  have "unat (a_cwnd a) < 2 ^ 32" using unsigned_less [of "a_cwnd a"] by simp
  then have lt: "?l < 2 ^ 32" using assms(4) by linarith
  show ?thesis
  proof (cases "a_rwnd a < of_nat ?l")
    case True
    then have "retransmit_loop now (min (a_cwnd a) (a_rwnd a)) 0 0 [] a = Some ([d], True, ?a)"
      using assms(2,3) by (subst retransmit_loop.simps) (simp add: Let_def d_def)
    moreover have "sender_inv ?a" using assms(1) m by (simp add: sender_inv_def)
    ultimately show ?thesis using d by blast
  next
    case False
    then have "?l \<le> unat (a_rwnd a)" using unat_of_nat_u32 [of ?l] lt by (simp add: word_less_nat_alt)
    then have "\<not> unat (min (a_cwnd a) (a_rwnd a)) < ?l" using assms(4) by (simp add: min_def)
    then have "retransmit_loop now (min (a_cwnd a) (a_rwnd a)) 0 0 [] a =
        retransmit_loop now (min (a_cwnd a) (a_rwnd a)) 1 ?l [d] ?a"
      using assms(2,3) False by (subst retransmit_loop.simps) (simp add: Let_def d_def)
    moreover obtain cs' r q where "retransmit_loop now (min (a_cwnd a) (a_rwnd a)) 1 ?l [d] ?a =
        Some ([d] @ cs', r, ?a\<lparr>a_inflight_queue := q\<rparr>)" "flight_inv (a_cumulative_tsn_ack_point a) (a_my_next_tsn a) q" "acked_empty q"
      using retransmit_loop_ok [of ?a "a_my_next_tsn a" 1 now "min (a_cwnd a) (a_rwnd a)" ?l "[d]"] m one by auto
    moreover from this have "sender_inv (?a\<lparr>a_inflight_queue := q\<rparr>)" using assms(1) by (simp add: sender_inv_def)
    ultimately show ?thesis using d by (intro exI [of _ d] exI [of _ cs'] exI [of _ r]) auto
  qed
qed

lemma expire_t3_eq:
  assumes "tt_data (a_timers a) T3RTX = Some t" "t \<le> now" "tt_retrans (a_timers a) T3RTX < tt_max_retrans (a_timers a) T3RTX"
  shows "\<exists>tt. expire_timer now T3RTX a = timer_start T3RTX now (on_t3_timeout (a\<lparr>a_timers := tt\<rparr>))"
  using assms
  by (intro exI [of _ "tt_set T3RTX None ((a_timers a)\<lparr>tt_retrans := (tt_retrans (a_timers a))(T3RTX := tt_retrans (a_timers a) T3RTX + 1)\<rparr>)"])
    (simp add: expire_timer_def tt_is_expired_def on_retransmission_timeout_def Let_def)

text \<open>C16. When the T3-rtx timer expires with chunks outstanding and retries left, the next round of
sending retransmits: the oldest outstanding chunk, if it is neither acknowledged nor abandoned
and fits the MTU, is the first chunk of the datagrams built, with its transmission count
increased; the timer runs again and the sender invariant is kept.\<close>

theorem t3_expiry_retransmits_oldest:
  assumes "sender_inv a" "tt_data (a_timers a) T3RTX = Some t" "t \<le> now"
    "tt_retrans (a_timers a) T3RTX < tt_max_retrans (a_timers a) T3RTX"
    "pl_get (a_cumulative_tsn_ack_point a + 1) (a_inflight_queue a) = Some c" "\<not> pd_acked c" "\<not> is_abandoned c"
    "length (pd_user_data c) \<le> unat (a_mtu a)"
  shows "tt_data (a_timers (expire_timer now T3RTX a)) T3RTX \<noteq> None \<and>
    (\<exists>d cs e. gather_data_packets_to_retransmit crc now' raws (expire_timer now T3RTX a) =
        Some (bundle_data_chunks_into_packets crc (d # cs) e raws, e) \<and> sender_inv e \<and>
      pd_tsn d = a_cumulative_tsn_ack_point a + 1 \<and> pd_nsent d = pd_nsent c + 1 \<and>
      chunk_content d = chunk_content (c\<lparr>pd_retransmit := False\<rparr>))"
proof -
  obtain tt where tt: "expire_timer now T3RTX a = timer_start T3RTX now (on_t3_timeout (a\<lparr>a_timers := tt\<rparr>))"
    using expire_t3_eq [OF assms(2-4)] by blast
  let ?b = "timer_start T3RTX now (on_t3_timeout (a\<lparr>a_timers := tt\<rparr>))"
  have sel: "a_inflight_queue ?b = pl_mark_all_to_retransmit (a_inflight_queue a)"
    "a_cumulative_tsn_ack_point ?b = a_cumulative_tsn_ack_point a" "a_cwnd ?b = a_mtu a" "a_t3_retransmit_pending ?b"
    by (simp_all add: timer_start_def on_t3_timeout_sel)
  have "sender_inv (on_t3_timeout (a\<lparr>a_timers := tt\<rparr>))"
    using assms(1) by (intro t3_sender_inv) (simp add: sender_inv_def)
  then have si: "sender_inv ?b" by (simp add: sender_inv_def timer_start_def)
  have get: "pl_get (a_cumulative_tsn_ack_point ?b + 1) (a_inflight_queue ?b) = Some (c\<lparr>pd_retransmit := True\<rparr>)"
    using sel assms(5-7) by (simp add: pl_mark_all_get)
  have "length (pd_user_data (c\<lparr>pd_retransmit := True\<rparr>)) \<le> unat (a_cwnd ?b)" using sel assms(8) by simp
  from retransmit_first [OF si get _ this, of now'] obtain d cs r e where r:
    "retransmit_loop now' (min (a_cwnd ?b) (a_rwnd ?b)) 0 0 [] ?b = Some (d # cs, r, e)"
    "sender_inv e" "pd_tsn d = a_cumulative_tsn_ack_point ?b + 1" "pd_nsent d = pd_nsent c + 1"
    "chunk_content d = chunk_content (c\<lparr>pd_retransmit := False\<rparr>)" by auto
  let ?e = "e\<lparr>a_t3_retransmit_pending := r\<rparr>"
  have "gather_data_packets_to_retransmit crc now' raws ?b = Some (bundle_data_chunks_into_packets crc (d # cs) ?e raws, ?e)"
    using sel(4) r(1)
    by (simp add: gather_data_packets_to_retransmit_def get_data_packets_to_retransmit_def Let_def)
  moreover have "sender_inv ?e" using r(2) by (simp add: sender_inv_def)
  moreover have "tt_data (a_timers ?b) T3RTX \<noteq> None" by (simp add: timer_start_def tt_start_def Let_def)
  ultimately show ?thesis using tt r sel(2) by auto
qed

definition t3_sample :: association where
  "t3_sample = flight_sample\<lparr>a_mtu := 1228, a_timers := tt_set T3RTX (Some 5) (tt_new timer_config_default)\<rparr>"

theorem t3_expiry_retransmits_oldest_witness:
  "tt_data (a_timers (expire_timer 7 T3RTX t3_sample)) T3RTX \<noteq> None \<and>
   (\<exists>d cs e. gather_data_packets_to_retransmit crc32c_ref 7 [] (expire_timer 7 T3RTX t3_sample) =
      Some (bundle_data_chunks_into_packets crc32c_ref (d # cs) e [], e) \<and> sender_inv e \<and>
      pd_tsn d = a_cumulative_tsn_ack_point t3_sample + 1 \<and> pd_nsent d = pd_nsent (flight_chunk 4294967295 10) + 1 \<and>
      chunk_content d = chunk_content ((flight_chunk 4294967295 10)\<lparr>pd_retransmit := False\<rparr>))"
proof (rule t3_expiry_retransmits_oldest [of t3_sample 5])
  show "sender_inv t3_sample" using flight_sample_inv by (simp add: t3_sample_def sender_inv_def)
  show "pl_get (a_cumulative_tsn_ack_point t3_sample + 1) (a_inflight_queue t3_sample) = Some (flight_chunk 4294967295 10)"
    by (simp add: t3_sample_def flight_queue_sample_def pl_push_no_check_get) (simp add: flight_chunk_def)
qed (simp_all add: t3_sample_def tt_set_def tt_new_def timer_config_default_def PATH_MAX_RETRANS_def
    flight_chunk_def payload_data_default_def is_abandoned_def)

text \<open>C33. After the configured number of retries T3-rtx fails for good and silently: the
expiry only switches the timer off. The association stays in its state, nothing is marked for
retransmission, no event or error is raised, and later expiry checks leave it as it is,
although the data is still in flight.\<close>

theorem t3_failure_is_silent:
  assumes "tt_data (a_timers a) T3RTX = Some t" "t \<le> now" "tt_max_retrans (a_timers a) T3RTX \<le> tt_retrans (a_timers a) T3RTX"
  shows "expire_timer now T3RTX a = a\<lparr>a_timers := a_timers (expire_timer now T3RTX a)\<rparr> \<and>
    tt_data (a_timers (expire_timer now T3RTX a)) T3RTX = None \<and>
    expire_timer later T3RTX (expire_timer now T3RTX a) = expire_timer now T3RTX a"
  using assms by (simp add: expire_timer_def tt_is_expired_def on_retransmission_failure_def tt_set_def Let_def)

theorem t3_failure_is_silent_witness:
  "tt_max_retrans (tt_new timer_config_default) T3RTX = 5 \<and>
   tt_data (a_timers (expire_timer 7 T3RTX (t3_sample\<lparr>a_timers := (a_timers t3_sample)\<lparr>tt_retrans := (\<lambda>_. 5)\<rparr>\<rparr>))) T3RTX = None"
  using t3_failure_is_silent [of "t3_sample\<lparr>a_timers := (a_timers t3_sample)\<lparr>tt_retrans := (\<lambda>_. 5)\<rparr>\<rparr>" 5 7]
  by (simp add: t3_sample_def tt_set_def tt_new_def timer_config_default_def PATH_MAX_RETRANS_def)

section \<open>The whole round\<close>

lemma fast_retransmit_loop_ok:
  assumes "flight_inv (a_cumulative_tsn_ack_point a) next (a_inflight_queue a)" "acked_empty (a_inflight_queue a)"
    "j \<le> pl_len (a_inflight_queue a)"
  shows "\<exists>cs' q st. fast_retransmit_loop now (of_nat j) n cs a = Some (cs @ cs', a\<lparr>a_inflight_queue := q, a_stats := st\<rparr>) \<and>
    flight_inv (a_cumulative_tsn_ack_point a) next q \<and> acked_empty q \<and> pl_len q = pl_len (a_inflight_queue a)"
  using assms
proof (induction "pl_len (a_inflight_queue a) - j" arbitrary: j n cs a rule: less_induct)
  case less
  let ?q = "a_inflight_queue a" and ?cum = "a_cumulative_tsn_ack_point a"
  let ?t = "?cum + of_nat j + 1" and ?loop = "fast_retransmit_loop now (of_nat j) n cs a"
  let ?P = "\<lambda>x. \<exists>cs' q st. x = Some (cs @ cs', a\<lparr>a_inflight_queue := q, a_stats := st\<rparr>) \<and>
    flight_inv ?cum next q \<and> acked_empty q \<and> pl_len q = pl_len ?q"
  have same: "?P (Some (cs, a))"
    using less.prems by (intro exI [of _ "[]"] exI [of _ ?q] exI [of _ "a_stats a"]) simp
  show ?case
  proof (cases "pl_get ?t ?q")
    case None
    then have "?loop = Some (cs, a)" by (subst fast_retransmit_loop.simps) simp
    with same show ?thesis by (simp only:)
  next
    case (Some c)
    have j: "Suc j \<le> pl_len ?q" using flight_scan_Suc [OF less.prems(1,3) Some] .
    define d where "d = check_partial_reliability_status now (a_use_forward_tsn a) (a_streams a)
      (c\<lparr>pd_nsent := pd_nsent c + 1\<rparr>)"
    let ?skip = "pd_acked c \<or> is_abandoned c \<or> pd_nsent c > 1 \<or> pd_miss_indicator c < 3"
    let ?size = "DATA_CHUNK_HEADER_SIZE + of_nat (length (pd_user_data c))"
    let ?b = "a\<lparr>a_stats := inc_fast_retrans (a_stats a), a_inflight_queue := pl_modify ?t (\<lambda>_. d) ?q\<rparr>"
    have m: "flight_inv ?cum next (a_inflight_queue ?b) \<and> acked_empty (a_inflight_queue ?b) \<and>
        pl_len (a_inflight_queue ?b) = pl_len ?q"
      using flight_replace [OF less.prems(1,2) Some, of d] by (simp add: d_def)
    have skip: "?P (fast_retransmit_loop now (of_nat j + 1) n cs a)"
      using less.hyps [of a "Suc j" n cs] less.prems(1,2) j by (simp add: add.commute)
    have more: "?P (fast_retransmit_loop now (of_nat j + 1) n' (cs @ [d]) ?b)" for n'
      using less.hyps [of ?b "Suc j" n' "cs @ [d]"] m j by (fastforce simp: add.commute)
    have "?loop = (if ?skip then fast_retransmit_loop now (of_nat j + 1) n cs a
      else if a_mtu a < n + ?size then Some (cs, a)
      else fast_retransmit_loop now (of_nat j + 1) (n + ?size) (cs @ [d]) ?b)"
      using Some by (subst fast_retransmit_loop.simps) (simp add: Let_def d_def)
    then show ?thesis using skip same more [of "n + ?size"] by presburger
  qed
qed

text \<open>The parts of \<open>gather_outbound\<close> keep the sender invariant.\<close>

definition flight_len :: "association \<Rightarrow> nat" where
  "flight_len a = pl_len (a_inflight_queue a) + pq_queue_len (a_pending_queue a)"

lemma gather_retransmit_returns:
  assumes "sender_inv a"
  shows "\<exists>raws' b. gather_data_packets_to_retransmit crc now raws a = Some (raws', b) \<and> sender_inv b \<and> flight_len b = flight_len a"
proof (cases "a_t3_retransmit_pending a")
  case True
  obtain cs r q where l: "retransmit_loop now (min (a_cwnd a) (a_rwnd a)) 0 0 [] a =
      Some (cs, r, a\<lparr>a_inflight_queue := q\<rparr>)" "flight_inv (a_cumulative_tsn_ack_point a) (a_my_next_tsn a) q" "acked_empty q"
      "pl_len q = pl_len (a_inflight_queue a)"
    using retransmit_loop_ok [of a "a_my_next_tsn a" 0 now _ 0 "[]"] assms unfolding sender_inv_def by fastforce
  with True assms show ?thesis
    by (simp add: gather_data_packets_to_retransmit_def get_data_packets_to_retransmit_def Let_def sender_inv_def
        flight_len_def)
qed (use assms in \<open>simp add: gather_data_packets_to_retransmit_def\<close>)

lemma gather_fast_returns:
  assumes "sender_inv a"
  shows "\<exists>raws' b. gather_outbound_fast_retransmission_packets crc now raws a = Some (raws', b) \<and> sender_inv b"
proof (cases "a_will_retransmit_fast a")
  case True
  let ?a = "a\<lparr>a_will_retransmit_fast := False\<rparr>"
  obtain cs q st where l: "fast_retransmit_loop now 0 COMMON_HEADER_SIZE [] ?a =
      Some (cs, ?a\<lparr>a_inflight_queue := q, a_stats := st\<rparr>)" "flight_inv (a_cumulative_tsn_ack_point a) (a_my_next_tsn a) q"
      "acked_empty q"
    using fast_retransmit_loop_ok [of ?a "a_my_next_tsn a" 0 now _ "[]"] assms
    unfolding sender_inv_def by fastforce
  with True assms show ?thesis
    by (simp add: gather_outbound_fast_retransmission_packets_def sender_inv_def)
qed (use assms in \<open>simp add: gather_outbound_fast_retransmission_packets_def\<close>)

lemma sender_inv_view: "sender_view a = sender_view b \<Longrightarrow> sender_inv a = sender_inv b"
  using sender_view_eqD [of a b] by (simp add: sender_inv_def)

lemma gather_view:
  "sender_view (snd (send_reconfig crc sis raws a)) = sender_view a"
  "sender_view (snd (gather_outbound_sack_packets crc raws a)) = sender_view a"
  "sender_view (snd (gather_outbound_forward_tsn_packets crc raws a)) = sender_view a"
  by (simp_all add: send_reconfig_def generate_next_rsn_def gather_outbound_sack_packets_def
      create_selective_ack_chunk_def gather_outbound_forward_tsn_packets_def sender_view_def Let_def pl_pop_duplicates_def)

lemma gather_shutdown_view: "sender_view (snd (gather_outbound_shutdown_packets crc now raws a)) = sender_view a"
proof -
  have "sender_view (snd (send_shutdown_chunk crc c now raws x)) = sender_view x" for c x
    by (simp add: send_shutdown_chunk_def split: sum.splits)
  moreover have "sender_view (x\<lparr>a_will_send_shutdown := y\<rparr>) = sender_view x"
    "sender_view (x\<lparr>a_will_send_shutdown_ack := y\<rparr>) = sender_view x"
    "sender_view (x\<lparr>a_will_send_shutdown_complete := y\<rparr>) = sender_view x" for x y
    by (simp_all add: sender_view_def)
  ultimately show ?thesis
    by (simp add: gather_outbound_shutdown_packets_def Let_def case_prod_beta split: sum.splits)
qed

lemma gather_data_returns:
  assumes "sender_inv a" "flight_len a + 2 < 2 ^ 31"
  shows "\<exists>raws' b. gather_outbound_data_and_reconfig_packets crc now raws a = Some (raws', b) \<and> sender_inv b"
proof -
  obtain ts sis b where p: "pop_pending_data_chunks_to_send now a = Some (ts, sis, b)" "sender_inv b"
    using pop_pending_ok [OF assms(1) assms(2) [unfolded flight_len_def], of now]
    unfolding window_filled_def by blast
  have r: "sender_view (x\<lparr>a_will_retransmit_reconfig := y\<rparr>) = sender_view x" for x y by (simp add: sender_view_def)
  have "map_option (\<lambda>x. sender_view (snd x)) (gather_outbound_data_and_reconfig_packets crc now raws a) = Some (sender_view b)"
    using p(1) by (simp add: gather_outbound_data_and_reconfig_packets_def Let_def case_prod_beta r gather_view(1))
  then obtain raws' c where "gather_outbound_data_and_reconfig_packets crc now raws a = Some (raws', c)"
    "sender_view c = sender_view b" by auto
  then show ?thesis using p(2) sender_inv_view by blast
qed

text \<open>C15. Polling an association for transmission always returns, whatever is queued, in flight or
to be retransmitted: none of the loops over the pending queue and over the TSNs in flight, each of
which the model lets run forever, does so. The sender invariant is kept. The chunks queued and in
flight must be fewer than half the TSN space.\<close>

theorem poll_transmit_returns:
  assumes "sender_inv a" "flight_len a + 2 < 2 ^ 31"
  shows "\<exists>out b. poll_transmit crc now a = Some (out, b) \<and> sender_inv b"
proof -
  obtain raw a1 where d: "drain_control crc a = (raw, a1)" by fastforce
  then have a1: "sender_inv a1" "flight_len a1 = flight_len a"
    using assms(1) by (auto simp: drain_control_def sender_inv_def flight_len_def)
  obtain raw2 a2 where g: "gather_data_packets_to_retransmit crc now raw a1 = Some (raw2, a2)"
    and a2: "sender_inv a2" "flight_len a2 = flight_len a1"
    using gather_retransmit_returns [OF a1(1)] by blast
  obtain raw3 a3 where e: "gather_outbound_data_and_reconfig_packets crc now raw2 a2 = Some (raw3, a3)" "sender_inv a3"
    using gather_data_returns [of a2 crc now raw2] a2 a1(2) assms(2) by auto
  obtain raw4 a4 where f: "gather_outbound_fast_retransmission_packets crc now raw3 a3 = Some (raw4, a4)" "sender_inv a4"
    using gather_fast_returns [OF e(2)] by blast
  obtain raw5 a5 where h: "gather_outbound_fast_retransmission_packets crc now raw2 a2 = Some (raw5, a5)" "sender_inv a5"
    using gather_fast_returns [OF a2(1)] by blast
  have "\<exists>out b. gather_outbound crc now a = Some (out, b) \<and> sender_inv b"
    using d g e f h a1 sender_inv_view [OF gather_view(2)] sender_inv_view [OF gather_view(3)]
      sender_inv_view [OF gather_shutdown_view]
    by (simp add: gather_outbound_def Let_def case_prod_beta) (metis prod.collapse)
  then show ?thesis by (auto simp: poll_transmit_def split: prod.splits)
qed

theorem poll_transmit_returns_witness:
  "\<exists>out b. poll_transmit crc32c_ref 0 flight_sample = Some (out, b) \<and> sender_inv b"
  using flight_sample_inv
  by (intro poll_transmit_returns) (simp_all add: flight_len_def pq_new_def)

end
