(* ===== verification/Sctp_Endpoint.thy ===== *)
theory Sctp_Endpoint
  imports Sctp_Dispatch
begin

text \<open>The endpoint (\<open>rtc-sctp/src/endpoint/mod.rs\<close>), which routes datagrams to associations by
their verification tag and creates associations. The map of handles is a slab of a crate
outside this repository: it is an association list here, and \<open>key\<close>, the function that
chooses the key of a new entry, is a parameter. The generator of association ids is a stream
of values. The theory shows that the routing tables stay consistent and what that means for
datagrams, including the teardown of an association.\<close>

section \<open>State\<close>

record server_config =
  sv_transport :: transport_config
  sv_concurrent_associations :: u32

definition server_config_new :: "transport_config \<Rightarrow> server_config" where
  "server_config_new transport = \<lparr>sv_transport = transport, sv_concurrent_associations = 100000\<rparr>"

record association_meta =
  am_init_cid :: u32
  am_cids_issued :: u64
  am_loc_cids :: "(u64 \<times> u32) list"
  am_initial_remote :: socket_addr

type_synonym slab = "(nat \<times> association_meta) list"

text \<open>\<open>ep_generator i\<close> is the \<open>i\<close>-th id the generator returns and \<open>ep_generated\<close> counts the calls.\<close>

record endpoint =
  ep_local_addr :: socket_addr
  ep_transport_protocol :: transport_protocol
  ep_association_ids_init :: "(u32 \<times> nat) list"
  ep_association_ids :: "(u32 \<times> nat) list"
  ep_associations :: slab
  ep_generator :: "nat \<Rightarrow> u32"
  ep_generated :: nat
  ep_max_payload_size :: u32
  ep_server_config :: "server_config option"
  ep_reject_new_associations :: bool

definition endpoint_new ::
    "socket_addr \<Rightarrow> transport_protocol \<Rightarrow> u32 \<Rightarrow> (nat \<Rightarrow> u32) \<Rightarrow> server_config option \<Rightarrow> endpoint" where
  "endpoint_new local_addr protocol max_payload_size generator server_config =
    \<lparr>ep_local_addr = local_addr, ep_transport_protocol = protocol, ep_association_ids_init = [],
     ep_association_ids = [], ep_associations = [], ep_generator = generator, ep_generated = 0,
     ep_max_payload_size = max_payload_size, ep_server_config = server_config,
     ep_reject_new_associations = False\<rparr>"

definition set_server_config :: "server_config option \<Rightarrow> endpoint \<Rightarrow> endpoint" where
  "set_server_config c e = e\<lparr>ep_server_config := c\<rparr>"

definition reject_new_associations :: "endpoint \<Rightarrow> endpoint" where
  "reject_new_associations e = e\<lparr>ep_reject_new_associations := True\<rparr>"

text \<open>\<open>(u32::MAX >> 1) + (u32::MAX >> 2)\<close>.\<close>

definition is_full :: "endpoint \<Rightarrow> bool" where
  "is_full e \<longleftrightarrow> unat (drop_bit 1 (- 1 :: u32) + drop_bit 2 (- 1)) < length (ep_association_ids e)"

section \<open>Operations\<close>

text \<open>\<open>Slab::remove\<close> panics on a key that is not occupied.\<close>

definition endpoint_handle_event :: "nat \<Rightarrow> endpoint_event \<Rightarrow> endpoint \<Rightarrow> unit result \<times> endpoint" where
  "endpoint_handle_event ch ev e =
    (case ev of
       EeDrained \<Rightarrow>
         case map_of (ep_associations e) ch of
           None \<Rightarrow> (panic, e)
         | Some conn \<Rightarrow>
             (Ok (), e\<lparr>ep_associations := AList.delete ch (ep_associations e),
                       ep_association_ids_init := AList.delete (am_init_cid conn) (ep_association_ids_init e),
                       ep_association_ids :=
                         fold (\<lambda>(_, cid). AList.delete cid) (am_loc_cids conn) (ep_association_ids e)\<rparr>))"

partial_function (option) new_aid :: "endpoint \<Rightarrow> (u32 \<times> endpoint) option" where
  "new_aid e =
    (let aid = ep_generator e (ep_generated e);
         e' = e\<lparr>ep_generated := ep_generated e + 1\<rparr>
     in if map_of (ep_association_ids e) aid = None then Some (aid, e') else new_aid e')"

definition add_association ::
    "(slab \<Rightarrow> nat) \<Rightarrow> u32 \<Rightarrow> u32 \<Rightarrow> socket_addr \<Rightarrow> instant \<Rightarrow> u32 \<Rightarrow> bool \<Rightarrow> transport_config \<Rightarrow>
     endpoint \<Rightarrow> (nat \<times> association) result \<times> endpoint" where
  "add_association key remote_aid local_aid remote_addr now rnd server cfg e =
    (case association_new server cfg (ep_max_payload_size e) local_aid remote_addr (ep_local_addr e)
            (ep_transport_protocol e) now rnd of
       Inl err \<Rightarrow> (Inl err, e)
     | Inr conn \<Rightarrow>
         let id = key (ep_associations e);
             meta = \<lparr>am_init_cid = remote_aid, am_cids_issued = 0, am_loc_cids = [(0, local_aid)],
                     am_initial_remote = remote_addr\<rparr>
         in (Ok (id, conn),
             e\<lparr>ep_associations := AList.update id meta (ep_associations e),
               ep_association_ids := AList.update local_aid id (ep_association_ids e)\<rparr>))"

datatype connect_error =
  EndpointStopping | TooManyAssociations | InvalidDnsName string | InvalidRemoteAddress socket_addr
| NoDefaultClientConfig

text \<open>\<open>connect\<close>; \<open>raid\<close> is the random remote id, \<open>rnd\<close> the random initial TSN. The outer \<open>None\<close>
is the id loop that does not end.\<close>

definition connect ::
    "(slab \<Rightarrow> nat) \<Rightarrow> transport_config \<Rightarrow> socket_addr \<Rightarrow> instant \<Rightarrow> u32 \<Rightarrow> u32 \<Rightarrow> endpoint \<Rightarrow>
     ((connect_error + nat \<times> association) result \<times> endpoint) option" where
  "connect key cfg remote now raid rnd e =
    (if is_full e then Some (Ok (Inl TooManyAssociations), e)
     else if snd remote = 0 then Some (Ok (Inl (InvalidRemoteAddress remote)), e)
     else
       case new_aid e of
         None \<Rightarrow> None
       | Some (local_aid, e) \<Rightarrow>
           Some (case add_association key raid local_aid remote now rnd False cfg e of
                   (Inl err, e) \<Rightarrow> (Inl err, e)
                 | (Inr r, e) \<Rightarrow> (Ok (Inr r), e)))"

text \<open>What \<open>handle\<close> returns: a datagram for an association or a new association.\<close>

datatype datagram_event = AssociationEvent partial_decode instant | NewAssociation association

definition handle_first_packet ::
    "(slab \<Rightarrow> nat) \<Rightarrow> instant \<Rightarrow> socket_addr \<Rightarrow> u32 \<Rightarrow> bytes \<Rightarrow> partial_decode \<Rightarrow> endpoint \<Rightarrow>
     ((nat \<times> association) option result \<times> endpoint) option" where
  "handle_first_packet key now remote rnd cookie pd e =
    (if pt_first_chunk_type pd \<noteq> CT_INIT \<or> pt_initiate_tag pd = None then Some (Ok None, e)
     else
       case ep_server_config e of
         None \<Rightarrow> Some (Ok None, e)
       | Some sc \<Rightarrow>
           if length (ep_associations e) \<ge> unat (sv_concurrent_associations sc) \<or>
              ep_reject_new_associations e \<or> is_full e
           then Some (Ok None, e)
           else
             let remote_aid = the (pt_initiate_tag pd) in
             case new_aid e of
               None \<Rightarrow> None
             | Some (local_aid, e) \<Rightarrow>
                 Some (case add_association key remote_aid local_aid remote now rnd True (sv_transport sc) e of
                         (Inl err, e) \<Rightarrow> (Inl err, e)
                       | (Inr (ch, conn), e) \<Rightarrow>
                           case handle_event cookie pd now conn of
                             (Inl err, _) \<Rightarrow> (Inl err, e)
                           | (Inr _, conn) \<Rightarrow> (Ok (Some (ch, conn)), e)))"

definition known_association :: "partial_decode \<Rightarrow> endpoint \<Rightarrow> nat option" where
  "known_association pd e =
    (let dst_cid = hd_verification_tag (pt_common_header pd) in
     if dst_cid > 0 then map_of (ep_association_ids e) dst_cid
     else if pt_first_chunk_type pd = CT_INIT then
       case pt_initiate_tag pd of
         Some tag \<Rightarrow> map_of (ep_association_ids e) tag
       | None \<Rightarrow> None
     else None)"

text \<open>\<open>handle\<close>: a datagram from \<open>remote\<close>. A panic of the parser is a panic of the endpoint.\<close>

definition endpoint_handle ::
    "crc_fun \<Rightarrow> (slab \<Rightarrow> nat) \<Rightarrow> instant \<Rightarrow> socket_addr \<Rightarrow> u32 \<Rightarrow> bytes \<Rightarrow> bytes \<Rightarrow> endpoint \<Rightarrow>
     ((nat \<times> datagram_event) option result \<times> endpoint) option" where
  "endpoint_handle crc key now remote rnd cookie data e =
    (case partial_decode_unmarshal crc data of
       Inl (Err _) \<Rightarrow> Some (Ok None, e)
     | Inl Panic \<Rightarrow> Some (panic, e)
     | Inr pd \<Rightarrow>
         case known_association pd e of
           Some ch \<Rightarrow> Some (Ok (Some (ch, AssociationEvent pd now)), e)
         | None \<Rightarrow>
             map_option (\<lambda>(r, e).
               (case r of
                  Inl err \<Rightarrow> Inl err
                | Inr None \<Rightarrow> Ok None
                | Inr (Some (ch, a)) \<Rightarrow> Ok (Some (ch, NewAssociation a)), e))
               (handle_first_packet key now remote rnd cookie pd e))"

section \<open>The routing table\<close>

text \<open>What the endpoint promises abstractly: a table from local tags to associations, in which
an association has one tag. A step adds a route under an unused tag, drops one or does nothing.\<close>

definition routes :: "endpoint \<Rightarrow> u32 \<rightharpoonup> nat" where
  "routes e = map_of (ep_association_ids e)"

inductive route_step :: "(u32 \<rightharpoonup> nat) \<Rightarrow> (u32 \<rightharpoonup> nat) \<Rightarrow> bool" where
  same: "route_step r r"
| add: "aid \<notin> dom r \<Longrightarrow> ch \<notin> ran r \<Longrightarrow> route_step r (r(aid \<mapsto> ch))"
| drop: "r aid = Some ch \<Longrightarrow> route_step r (r(aid := None))"

text \<open>The concrete tables agree: the tags are the ones the slab entries record. The table of initial
ids is never filled.\<close>

definition tags :: "endpoint \<Rightarrow> nat \<rightharpoonup> (u64 \<times> u32) list" where
  "tags e = map_option am_loc_cids \<circ> map_of (ep_associations e)"

definition route_inv :: "endpoint \<Rightarrow> bool" where
  "route_inv e \<longleftrightarrow>
     ep_association_ids_init e = [] \<and>
     distinct (map fst (ep_association_ids e)) \<and> distinct (map fst (ep_associations e)) \<and>
     (\<forall>ch l. tags e ch = Some l \<longrightarrow> (\<exists>aid. l = [(0, aid)])) \<and>
     (\<forall>aid ch. routes e aid = Some ch \<longleftrightarrow> tags e ch = Some [(0, aid)])"

text \<open>The documented behaviour of \<open>Slab::insert\<close>: the key was vacant.\<close>

definition fresh_key :: "(slab \<Rightarrow> nat) \<Rightarrow> bool" where
  "fresh_key key \<longleftrightarrow> (\<forall>s. key s \<notin> fst ` set s)"

lemma route_step_inj:
  assumes "route_step r r'" "inj_on r (dom r)"
  shows "inj_on r' (dom r')"
  using assms
  by (cases rule: route_step.cases) (fastforce simp: inj_on_def ran_def dom_def split: if_splits)+

lemma new_aid_sel:
  assumes "new_aid e = Some r"
  shows "routes e (fst r) = None \<and> (\<exists>n. snd r = e\<lparr>ep_generated := n\<rparr>)"
proof (rule new_aid.raw_induct [OF _ assms])
  fix new_aid' :: "endpoint \<Rightarrow> (u32 \<times> endpoint) option" and e r
  assume IH: "\<And>e r. new_aid' e = Some r \<Longrightarrow> routes e (fst r) = None \<and> (\<exists>n. snd r = e\<lparr>ep_generated := n\<rparr>)"
    and r: "(let aid = ep_generator e (ep_generated e); e' = e\<lparr>ep_generated := ep_generated e + 1\<rparr>
       in if map_of (ep_association_ids e) aid = None then Some (aid, e') else new_aid' e') = Some r"
  show "routes e (fst r) = None \<and> (\<exists>n. snd r = e\<lparr>ep_generated := n\<rparr>)"
  proof (cases "map_of (ep_association_ids e) (ep_generator e (ep_generated e)) = None")
    case True
    then show ?thesis using r by (auto simp: Let_def routes_def)
  next
    case False
    then have "new_aid' (e\<lparr>ep_generated := ep_generated e + 1\<rparr>) = Some r" using r by (auto simp: Let_def)
    from IH [OF this] show ?thesis by (auto simp: routes_def)
  qed
qed

text \<open>The loop of \<open>new_aid\<close> ends when the generator ever returns an unused id.\<close>

lemma new_aid_returns:
  assumes "routes e (ep_generator e (ep_generated e + n)) = None"
  shows "\<exists>aid e'. new_aid e = Some (aid, e')"
  using assms
proof (induction n arbitrary: e)
  case 0
  then show ?case by (subst new_aid.simps) (simp add: routes_def Let_def)
next
  case (Suc n)
  then have "\<exists>aid e'. new_aid (e\<lparr>ep_generated := ep_generated e + 1\<rparr>) = Some (aid, e')"
    by (simp add: routes_def)
  then show ?case by (subst new_aid.simps) (simp add: Let_def)
qed

lemma route_inv_generated [simp]: "route_inv (e\<lparr>ep_generated := n\<rparr>) = route_inv e"
  by (simp add: route_inv_def routes_def tags_def)

lemma routes_generated [simp]: "routes (e\<lparr>ep_generated := n\<rparr>) = routes e"
  by (simp add: routes_def)

lemma fresh_key_map_of: "fresh_key key \<Longrightarrow> map_of s (key s) = None"
  by (simp add: fresh_key_def map_of_eq_None_iff)

lemma route_inv_dom: "route_inv e \<Longrightarrow> tags e ch = None \<Longrightarrow> ch \<notin> ran (routes e)"
  by (auto simp: route_inv_def ran_def)

lemma route_inv_add:
  assumes inv: "route_inv e" and fresh: "routes e aid = None" "tags e ch = None"
    and e': "routes e' = (routes e)(aid \<mapsto> ch)" "tags e' = (tags e)(ch \<mapsto> [(0, aid)])"
      "distinct (map fst (ep_association_ids e'))" "distinct (map fst (ep_associations e'))"
      "ep_association_ids_init e' = []"
  shows "route_inv e'"
  using inv fresh unfolding route_inv_def e' by (auto simp: e') (metis option.distinct(1))

lemma route_inv_drop:
  assumes inv: "route_inv e" and aid: "routes e aid = Some ch"
    and e': "routes e' = (routes e)(aid := None)" "tags e' = (tags e)(ch := None)"
      "distinct (map fst (ep_association_ids e'))" "distinct (map fst (ep_associations e'))"
      "ep_association_ids_init e' = []"
  shows "route_inv e'"
  using inv aid unfolding route_inv_def e' by (auto simp: e') (metis option.inject)

lemma add_association_ok:
  assumes inv: "route_inv e" and key: "fresh_key key" and fresh: "routes e aid = None"
    and add: "add_association key raid aid remote now rnd server cfg e = (r, e')"
  shows "route_inv e' \<and> route_step (routes e) (routes e') \<and>
    (\<forall>ch conn. r = Ok (ch, conn) \<longrightarrow> routes e' = (routes e)(aid \<mapsto> ch))"
proof (cases "association_new server cfg (ep_max_payload_size e) aid remote (ep_local_addr e)
    (ep_transport_protocol e) now rnd")
  case (Inl err)
  then show ?thesis using add inv by (auto simp: add_association_def intro: route_step.same)
next
  case (Inr conn)
  define ch where "ch = key (ep_associations e)"
  have vacant: "tags e ch = None"
    unfolding ch_def by (simp add: tags_def fresh_key_map_of [OF key])
  have e': "r = Ok (ch, conn)"
      "ep_associations e' = AList.update ch \<lparr>am_init_cid = raid, am_cids_issued = 0,
         am_loc_cids = [(0, aid)], am_initial_remote = remote\<rparr> (ep_associations e)"
      "ep_association_ids e' = AList.update aid ch (ep_association_ids e)"
      "ep_association_ids_init e' = ep_association_ids_init e"
    using add Inr unfolding add_association_def ch_def by (auto simp: Let_def)
  have routes': "routes e' = (routes e)(aid \<mapsto> ch)"
    by (simp add: routes_def e' update_conv')
  have ran: "ch \<notin> ran (routes e)" by (rule route_inv_dom [OF inv vacant])
  have "route_inv e'"
  proof (rule route_inv_add [OF inv fresh vacant routes'])
    show "tags e' = (tags e)(ch \<mapsto> [(0, aid)])" by (auto simp: tags_def e' update_conv')
  qed (use inv in \<open>simp_all add: e' distinct_update route_inv_def\<close>)
  moreover have "route_step (routes e) (routes e')"
    unfolding routes' using fresh ran by (intro route_step.add) auto
  ultimately show ?thesis using routes' e' by auto
qed

lemma endpoint_handle_event_ok:
  assumes inv: "route_inv e" and h: "endpoint_handle_event ch EeDrained e = (r, e')"
  shows "route_inv e' \<and> route_step (routes e) (routes e') \<and> ch \<notin> ran (routes e')"
proof (cases "map_of (ep_associations e) ch")
  case None
  then show ?thesis using h inv route_inv_dom [OF inv, of ch]
    by (auto simp: endpoint_handle_event_def tags_def intro: route_step.same)
next
  case (Some m)
  then have m: "tags e ch = Some (am_loc_cids m)" by (simp add: tags_def)
  then obtain aid where l: "am_loc_cids m = [(0, aid)]" using inv unfolding route_inv_def by blast
  have aid: "routes e aid' = Some ch \<longleftrightarrow> aid' = aid" for aid'
    using inv m l unfolding route_inv_def by auto
  have e': "ep_associations e' = AList.delete ch (ep_associations e)"
      "ep_association_ids e' = AList.delete aid (ep_association_ids e)"
      "ep_association_ids_init e' = AList.delete (am_init_cid m) (ep_association_ids_init e)"
    using h Some l by (auto simp: endpoint_handle_event_def)
  have routes': "routes e' = (routes e)(aid := None)"
    by (simp add: routes_def e' delete_conv')
  have "route_inv e'"
  proof (rule route_inv_drop [OF inv _ routes'])
    show "tags e' = (tags e)(ch := None)" by (auto simp: tags_def e' delete_conv')
  qed (use inv aid in \<open>simp_all add: e' distinct_delete route_inv_def\<close>)
  moreover have "route_step (routes e) (routes e')"
    unfolding routes' by (rule route_step.drop [where ch = ch]) (simp add: aid)
  moreover have "ch \<notin> ran (routes e')"
    unfolding routes' by (auto simp: ran_def aid)
  ultimately show ?thesis by blast
qed

lemma new_aid_ok:
  assumes "new_aid e = Some (aid, e')" "route_inv e"
  shows "route_inv e' \<and> routes e' = routes e \<and> routes e' aid = None"
  using new_aid_sel [OF assms(1)] assms(2) by auto

lemma connect_ok:
  assumes inv: "route_inv e" and key: "fresh_key key"
    and c: "connect key cfg remote now raid rnd e = Some (r, e')"
  shows "route_inv e' \<and> route_step (routes e) (routes e')"
proof (cases "is_full e \<or> snd remote = 0")
  case True
  then show ?thesis using c inv by (auto simp: connect_def intro: route_step.same split: if_splits)
next
  case False
  then obtain aid e1 where n: "new_aid e = Some (aid, e1)"
    using c by (auto simp: connect_def split: option.splits)
  obtain r' e2 where a: "add_association key raid aid remote now rnd False cfg e1 = (r', e2)"
    by (rule prod.exhaust)
  have "e' = e2" using c False n a by (auto simp: connect_def split: sum.splits)
  with add_association_ok [OF _ key _ a] new_aid_ok [OF n inv] show ?thesis by auto
qed

lemma handle_first_packet_ok:
  assumes inv: "route_inv e" and key: "fresh_key key"
    and h: "handle_first_packet key now remote rnd cookie pd e = Some (r, e')"
  shows "route_inv e' \<and> route_step (routes e) (routes e') \<and>
    (\<forall>ch conn. r = Ok (Some (ch, conn)) \<longrightarrow> (\<exists>aid. routes e aid = None \<and> routes e' = (routes e)(aid \<mapsto> ch)))"
proof (cases "e' = e \<and> (\<forall>x. r \<noteq> Ok (Some x))")
  case True
  then show ?thesis using inv by (auto intro: route_step.same)
next
  case False
  then obtain sc aid e1 where sc: "ep_server_config e = Some sc" and n: "new_aid e = Some (aid, e1)"
    using h by (auto simp: handle_first_packet_def Let_def split: if_splits option.splits)
  obtain r' e2 where
    a: "add_association key (the (pt_initiate_tag pd)) aid remote now rnd True (sv_transport sc) e1 = (r', e2)"
    by (rule prod.exhaust)
  have e': "e' = e2 \<and> (\<forall>ch conn. r = Ok (Some (ch, conn)) \<longrightarrow> (\<exists>c. r' = Ok (ch, c)))"
    using h False sc n a
    by (auto simp: handle_first_packet_def Let_def split: if_splits sum.splits prod.splits)
  with add_association_ok [OF _ key _ a] new_aid_ok [OF n inv] show ?thesis by fastforce
qed

lemma endpoint_handle_ok:
  assumes inv: "route_inv e" and key: "fresh_key key"
    and h: "endpoint_handle crc key now remote rnd cookie data e = Some (r, e')"
  shows "route_inv e' \<and> route_step (routes e) (routes e')"
proof (cases "e' = e")
  case True
  then show ?thesis using inv by (auto intro: route_step.same)
next
  case False
  then obtain pd where "partial_decode_unmarshal crc data = Ok pd" "known_association pd e = None"
    using h by (auto simp: endpoint_handle_def split: sum.splits fault.splits option.splits)
  then obtain r' where "handle_first_packet key now remote rnd cookie pd e = Some (r', e')"
    using h by (auto simp: endpoint_handle_def)
  from handle_first_packet_ok [OF inv key this] show ?thesis by blast
qed

text \<open>What a program can do with an endpoint.\<close>

inductive endpoint_step :: "crc_fun \<Rightarrow> (slab \<Rightarrow> nat) \<Rightarrow> endpoint \<Rightarrow> endpoint \<Rightarrow> bool" for crc key where
  configure: "endpoint_step crc key e (set_server_config c e)"
| reject: "endpoint_step crc key e (reject_new_associations e)"
| connect: "connect key cfg remote now raid rnd e = Some (r, e') \<Longrightarrow> endpoint_step crc key e e'"
| handle: "endpoint_handle crc key now remote rnd cookie data e = Some (r, e') \<Longrightarrow> endpoint_step crc key e e'"
| drained: "endpoint_handle_event ch ev e = (r, e') \<Longrightarrow> endpoint_step crc key e e'"

lemma endpoint_step_ok:
  assumes "endpoint_step crc key e e'" and inv: "route_inv e" and key: "fresh_key key"
  shows "route_inv e' \<and> route_step (routes e) (routes e')"
  using assms(1)
proof cases
  case (configure c)
  then show ?thesis using inv
    by (auto simp: set_server_config_def route_inv_def routes_def tags_def intro: route_step.same)
next
  case reject
  then show ?thesis using inv
    by (auto simp: reject_new_associations_def route_inv_def routes_def tags_def intro: route_step.same)
next
  case connect
  then show ?thesis using connect_ok [OF inv key] by blast
next
  case handle
  then show ?thesis using endpoint_handle_ok [OF inv key] by blast
next
  case (drained ch ev r)
  then show ?thesis using endpoint_handle_event_ok [OF inv] by (cases ev) blast
qed

lemma route_inv_new: "route_inv (endpoint_new local_addr protocol sz gen sc)"
  by (simp add: endpoint_new_def route_inv_def routes_def tags_def)

lemma endpoint_run_ok:
  assumes "(endpoint_step crc key)\<^sup>*\<^sup>* e e'" and inv: "route_inv e" and key: "fresh_key key"
  shows "route_inv e' \<and> route_step\<^sup>*\<^sup>* (routes e) (routes e')"
  using assms(1)
proof induction
  case base
  then show ?case using inv by simp
next
  case (step e1 e2)
  then show ?case using endpoint_step_ok [OF step(2) _ key] by (auto intro: rtranclp.rtrancl_into_rtrancl)
qed

lemma route_inv_inj: "route_inv e \<Longrightarrow> routes e aid = Some ch \<Longrightarrow> routes e aid' = Some ch \<Longrightarrow> aid' = aid"
  by (auto simp: route_inv_def)

section \<open>Properties\<close>

text \<open>A key function as a slab could have it, for the examples.\<close>

definition sum_key :: "slab \<Rightarrow> nat" where
  "sum_key s = Suc (sum_list (map fst s))"

lemma sum_key_fresh: "fresh_key sum_key"
proof -
  have "fst x \<le> sum_list (map fst s)" if "x \<in> set s" for x and s :: slab
    using that by (auto intro: member_le_sum_list)
  then show ?thesis by (fastforce simp: fresh_key_def sum_key_def)
qed

definition endpoint_sample :: endpoint where
  "endpoint_sample = endpoint_new ([], 5000) UDP 1200 (\<lambda>i. of_nat i + 7) None"

definition endpoint_connected :: endpoint where
  "endpoint_connected = snd (the (connect sum_key transport_config_default ([], 5001) 0 1 9 endpoint_sample))"

lemma endpoint_connected_step:
  "\<exists>r. connect sum_key transport_config_default ([], 5001) 0 1 9 endpoint_sample = Some (r, endpoint_connected)"
proof -
  have "map_option fst (connect sum_key transport_config_default ([], 5001) 0 1 9 endpoint_sample) \<noteq> None"
    by (simp add: connect_def new_aid.simps endpoint_sample_def endpoint_new_def is_full_def)
  then show ?thesis
    by (cases "connect sum_key transport_config_default ([], 5001) 0 1 9 endpoint_sample")
      (auto simp: endpoint_connected_def)
qed

lemma endpoint_connected_routes: "ep_association_ids endpoint_connected = [(7, 1)]"
  by (simp add: endpoint_connected_def connect_def new_aid.simps endpoint_sample_def endpoint_new_def
    is_full_def add_association_def association_new_def sum_key_def COMMON_HEADER_SIZE_def
    DATA_CHUNK_HEADER_SIZE_def Let_def split: prod.splits sum.splits)

text \<open>C14. Refinement: whatever sequence of operations a program performs on a new endpoint, the
table of routes moves only by the steps of the abstract table, and the three concrete tables
stay consistent: every route leads to a live association that records its tag, no two
tags lead to one association, and the table of initial ids stays empty. The hypothesis is what the slab documents: a new key is vacant.\<close>

theorem endpoint_refines_routes:
  assumes "fresh_key key"
    and "(endpoint_step crc key)\<^sup>*\<^sup>* (endpoint_new local_addr protocol sz gen sc) e"
  shows "route_inv e \<and> route_step\<^sup>*\<^sup>* Map.empty (routes e) \<and> inj_on (routes e) (dom (routes e))"
proof -
  have "routes (endpoint_new local_addr protocol sz gen sc) = Map.empty"
    by (simp add: routes_def endpoint_new_def)
  then show ?thesis
    using endpoint_run_ok [OF assms(2) route_inv_new assms(1)]
    by (auto simp: inj_on_def dom_def intro: route_inv_inj)
qed

theorem endpoint_refines_routes_witness:
  "fresh_key sum_key \<and>
   (endpoint_step (\<lambda>_ _. 0) sum_key)\<^sup>*\<^sup>* (endpoint_new ([], 5000) UDP 1200 (\<lambda>i. of_nat i + 7) None)
      endpoint_connected \<and>
   route_inv endpoint_connected \<and> routes endpoint_connected 7 = Some 1"
proof -
  have run: "(endpoint_step (\<lambda>_ _. 0) sum_key)\<^sup>*\<^sup>* (endpoint_new ([], 5000) UDP 1200 (\<lambda>i. of_nat i + 7) None)
      endpoint_connected"
    using endpoint_connected_step unfolding endpoint_sample_def by (auto intro: endpoint_step.connect)
  show ?thesis
    using endpoint_refines_routes [OF sum_key_fresh run] sum_key_fresh run
    by (simp add: routes_def endpoint_connected_routes)
qed

lemma endpoint_handle_unknown:
  assumes "partial_decode_unmarshal crc data = Ok pd" "pt_first_chunk_type pd \<noteq> CT_INIT"
    and "routes e (hd_verification_tag (pt_common_header pd)) = None"
  shows "endpoint_handle crc key now remote rnd cookie data e = Some (Ok None, e)"
  using assms
  by (simp add: endpoint_handle_def known_association_def handle_first_packet_def routes_def Let_def)

lemma drained_route:
  assumes inv: "route_inv e" and aid: "routes e aid = Some ch"
  shows "\<exists>e'. endpoint_handle_event ch EeDrained e = (Ok (), e') \<and> routes e' aid = None"
proof -
  obtain r e' where h: "endpoint_handle_event ch EeDrained e = (r, e')" by (rule prod.exhaust)
  have "tags e ch = Some [(0, aid)]" using inv aid by (simp add: route_inv_def)
  then have "r = Ok ()" "routes e' aid = None"
    using h by (auto simp: tags_def endpoint_handle_event_def routes_def delete_conv')
  with h show ?thesis by auto
qed

text \<open>No datagram that carries the tag is delivered to an association, and one that does not begin
with an INIT is discarded and leaves the endpoint as it is.\<close>

definition unreachable :: "crc_fun \<Rightarrow> (slab \<Rightarrow> nat) \<Rightarrow> u32 \<Rightarrow> endpoint \<Rightarrow> bool" where
  "unreachable crc key aid e \<longleftrightarrow>
    (\<forall>data pd now remote rnd cookie.
       partial_decode_unmarshal crc data = Ok pd \<longrightarrow> hd_verification_tag (pt_common_header pd) = aid \<longrightarrow>
       (\<forall>ch pd' t e'. endpoint_handle crc key now remote rnd cookie data e \<noteq> Some (Ok (Some (ch, AssociationEvent pd' t)), e')) \<and>
       (pt_first_chunk_type pd \<noteq> CT_INIT \<longrightarrow>
          endpoint_handle crc key now remote rnd cookie data e = Some (Ok None, e)))"

lemma unrouted_unreachable:
  assumes "routes e aid = None" "0 < aid"
  shows "unreachable crc key aid e"
proof -
  have "known_association pd e = None" if "hd_verification_tag (pt_common_header pd) = aid" for pd
    using that assms by (simp add: known_association_def routes_def Let_def)
  then have "endpoint_handle crc key now remote rnd cookie data e \<noteq> Some (Ok (Some (ch, AssociationEvent pd' t)), e')"
    if "partial_decode_unmarshal crc data = Ok pd" "hd_verification_tag (pt_common_header pd) = aid"
    for data pd now remote rnd cookie ch pd' t e'
    using that by (auto simp: endpoint_handle_def split: sum.splits option.splits)
  then show ?thesis using endpoint_handle_unknown assms(1) by (simp add: unreachable_def)
qed

text \<open>C34. The local shutdown of an association makes it unreachable before the peer can answer.
\<open>shutdown\<close> enters ShutdownSent and at once queues Drained; when the endpoint processes that
event it drops the route. From then on, whatever else happens at the endpoint, and until the tag
is issued again, no datagram with the association's tag is delivered to an association; one that
does not begin with an INIT, such as the SHUTDOWN ACK that the state ShutdownSent waits for, is
discarded.\<close>

theorem shutdown_unroutes_association:
  assumes "route_inv e" "routes e (a_my_verification_tag a) = Some ch" "0 < a_my_verification_tag a"
    and "a_state a = Established" "a_endpoint_events a = []" "a_inflight_queue_length a = 0"
  shows "\<exists>a' ev a'' e'. shutdown a = (Ok (), a') \<and> a_state a' = ShutdownSent \<and>
    poll_endpoint_event a' = (Some ev, a'') \<and> endpoint_handle_event ch ev e = (Ok (), e') \<and>
    routes e' (a_my_verification_tag a) = None \<and>
    (\<forall>e''. (endpoint_step crc key)\<^sup>*\<^sup>* e' e'' \<longrightarrow> routes e'' (a_my_verification_tag a) = None \<longrightarrow>
      unreachable crc key (a_my_verification_tag a) e'')"
proof -
  obtain e' where e': "endpoint_handle_event ch EeDrained e = (Ok (), e')"
      "routes e' (a_my_verification_tag a) = None"
    using drained_route [OF assms(1,2)] by blast
  have "a_state (snd (shutdown a)) = ShutdownSent"
      "fst (shutdown a) = Ok ()" "fst (poll_endpoint_event (snd (shutdown a))) = Some EeDrained"
    using assms(4-6) by (simp_all add: shutdown_def set_state_def Let_def poll_endpoint_event_def)
  then show ?thesis using e' unrouted_unreachable [OF _ assms(3)] by (metis prod.collapse)
qed

definition established_sample :: association where
  "established_sample = association_default\<lparr>a_state := Established, a_my_verification_tag := 7\<rparr>"

definition shutdown_ack_datagram :: bytes where
  "shutdown_ack_datagram = [19, 136, 19, 136, 0, 0, 0, 7, 0, 0, 0, 0, 8, 0, 0, 4]"

lemma shutdown_ack_datagram_decode:
  "\<exists>pd. partial_decode_unmarshal (\<lambda>_ _. 0) shutdown_ack_datagram = Ok pd \<and>
     pt_first_chunk_type pd = CT_SHUTDOWN_ACK \<and> hd_verification_tag (pt_common_header pd) = 7"
proof -
  have "case partial_decode_unmarshal (\<lambda>_ _. 0) shutdown_ack_datagram of Inl _ \<Rightarrow> False
     | Inr pd \<Rightarrow> pt_first_chunk_type pd = CT_SHUTDOWN_ACK \<and> hd_verification_tag (pt_common_header pd) = 7"
    by code_simp
  then show ?thesis by (auto split: sum.splits)
qed

theorem shutdown_unroutes_association_witness:
  "routes endpoint_connected 7 = Some 1 \<and>
   (\<exists>a' ev a'' e'. shutdown established_sample = (Ok (), a') \<and> a_state a' = ShutdownSent \<and>
      poll_endpoint_event a' = (Some ev, a'') \<and> endpoint_handle_event 1 ev endpoint_connected = (Ok (), e') \<and>
      endpoint_handle (\<lambda>_ _. 0) sum_key 0 ([], 5001) 0 [] shutdown_ack_datagram e' = Some (Ok None, e'))"
proof -
  obtain pd where pd: "partial_decode_unmarshal (\<lambda>_ _. 0) shutdown_ack_datagram = Ok pd"
      "pt_first_chunk_type pd = CT_SHUTDOWN_ACK" "hd_verification_tag (pt_common_header pd) = 7"
    using shutdown_ack_datagram_decode by blast
  have r: "routes endpoint_connected 7 = Some 1" by (simp add: routes_def endpoint_connected_routes)
  have inv: "route_inv endpoint_connected"
    using connect_ok [OF _ sum_key_fresh] endpoint_connected_step
    unfolding endpoint_sample_def by (metis route_inv_new)
  have tag: "a_my_verification_tag established_sample = 7" by (simp add: established_sample_def)
  obtain a' ev a'' e' where s: "shutdown established_sample = (Ok (), a')" "a_state a' = ShutdownSent"
      "poll_endpoint_event a' = (Some ev, a'')" "endpoint_handle_event 1 ev endpoint_connected = (Ok (), e')"
      "unreachable (\<lambda>_ _. 0) sum_key 7 e'"
    using shutdown_unroutes_association [OF inv, of established_sample 1 "\<lambda>_ _. 0" sum_key] r unfolding tag
    by (auto simp: established_sample_def association_default_def)
  have "pt_first_chunk_type pd \<noteq> CT_INIT" using pd(2) by (simp add: CT_SHUTDOWN_ACK_def CT_INIT_def)
  then have "endpoint_handle (\<lambda>_ _. 0) sum_key 0 ([], 5001) 0 [] shutdown_ack_datagram e' = Some (Ok None, e')"
    using s(5) pd(1,3) unfolding unreachable_def by blast
  with r s show ?thesis by blast
qed

end
