(* ===== verification/Replay_Detector.thy ===== *)
theory Replay_Detector
  imports Rtc_Prelude "HOL-Library.Signed_Division"
begin

text \<open>Replay protection (\<open>rtc-shared/src/replay_detector\<close>): the fixed-size big integer that
holds the window, the two sliding-window detectors and the detector that accepts everything.
The theory shows what the shift of the bit window does, for which window sizes it is right,
and that both detectors implement one abstract contract: a head, a set of accepted indices,
and the rule that an index is accepted when it is inside the window and not in the set.\<close>

section \<open>The bit window\<close>

record fixed_big_int =
  fb_bits :: "u64 list"
  fb_n :: nat
  fb_msb_mask :: u64

definition fb_new :: "nat \<Rightarrow> fixed_big_int" where
  "fb_new n =
    (let chunk_size = (n + 63) div 64;
         chunk_size = (if chunk_size = 0 then 1 else chunk_size)
     in \<lparr>fb_bits = replicate chunk_size 0, fb_n = n,
         fb_msb_mask = (if n mod 64 = 0 then - 1 else push_bit (64 - n mod 64) 1 - 1)\<rparr>)"

text \<open>One turn of the loop of \<open>lsh\<close>, which runs over the words from the last to the first and
updates them in place.\<close>

definition lsh_step :: "nat \<Rightarrow> nat \<Rightarrow> u64 list \<Rightarrow> u64 list" where
  "lsh_step n i bits =
    (let n_chunk = n div 64; n_n = n mod 64;
         carry =
           (if n_chunk \<le> i then
              let carry = push_bit n_n (bits ! (i - n_chunk)) in
              if n_chunk < i
              then carry OR (if n_n = 0 then 0 else drop_bit (64 - n_n) (bits ! (i - n_chunk - 1)))
              else carry
            else 0)
     in bits[i := (if 64 \<le> n then carry else push_bit n (bits ! i) OR carry)])"

fun lsh_loop :: "nat \<Rightarrow> nat \<Rightarrow> u64 list \<Rightarrow> u64 list" where
  "lsh_loop n 0 bits = bits"
| "lsh_loop n (Suc i) bits = lsh_loop n i (lsh_step n i bits)"

definition lsh :: "nat \<Rightarrow> fixed_big_int \<Rightarrow> fixed_big_int" where
  "lsh n f =
    (if n = 0 then f
     else
       let bits = lsh_loop n (length (fb_bits f)) (fb_bits f);
           last = length bits - 1
       in f\<lparr>fb_bits := bits[last := bits ! last AND fb_msb_mask f]\<rparr>)"

definition fb_bit :: "fixed_big_int \<Rightarrow> nat \<Rightarrow> nat" where
  "fb_bit f i =
    (if fb_n f \<le> i then 0
     else if fb_bits f ! (i div 64) AND push_bit (i mod 64) 1 \<noteq> 0 then 1 else 0)"

definition set_bit_at :: "nat \<Rightarrow> fixed_big_int \<Rightarrow> fixed_big_int" where
  "set_bit_at i f =
    (if fb_n f \<le> i then f
     else f\<lparr>fb_bits := (fb_bits f)[i div 64 := fb_bits f ! (i div 64) OR push_bit (i mod 64) 1]\<rparr>)"

section \<open>Detectors\<close>

record sliding_window_detector =
  sw_accepted :: bool
  sw_seq :: u64
  sw_latest_seq :: u64
  sw_max_seq :: u64
  sw_window_size :: nat
  sw_mask :: fixed_big_int

definition sliding_window_detector_new :: "nat \<Rightarrow> u64 \<Rightarrow> sliding_window_detector" where
  "sliding_window_detector_new window_size max_seq =
    \<lparr>sw_accepted = False, sw_seq = 0, sw_latest_seq = 0, sw_max_seq = max_seq,
     sw_window_size = window_size, sw_mask = fb_new window_size\<rparr>"

definition sw_check :: "u64 \<Rightarrow> sliding_window_detector \<Rightarrow> bool \<times> sliding_window_detector" where
  "sw_check seq d =
    (let d = d\<lparr>sw_accepted := False\<rparr> in
     if seq > sw_max_seq d then (False, d)
     else if seq \<le> sw_latest_seq d \<and> sw_latest_seq d \<ge> of_nat (sw_window_size d) + seq then (False, d)
     else if seq \<le> sw_latest_seq d \<and> fb_bit (sw_mask d) (unat (sw_latest_seq d - seq)) \<noteq> 0
     then (False, d)
     else (True, d\<lparr>sw_accepted := True, sw_seq := seq\<rparr>))"

text \<open>The remainder panics when \<open>max_seq\<close> is zero.\<close>

definition sw_accept :: "sliding_window_detector \<Rightarrow> unit result \<times> sliding_window_detector" where
  "sw_accept d =
    (if \<not> sw_accepted d then (Ok (), d)
     else
       let d = (if sw_seq d > sw_latest_seq d
                then d\<lparr>sw_mask := lsh (unat (sw_seq d - sw_latest_seq d)) (sw_mask d),
                       sw_latest_seq := sw_seq d\<rparr>
                else d)
       in if sw_max_seq d = 0 then (panic, d)
          else
            let diff = (sw_latest_seq d - sw_seq d) mod sw_max_seq d
            in (Ok (), d\<lparr>sw_mask := set_bit_at (unat diff) (sw_mask d)\<rparr>))"

record wrapped_detector =
  wd_accepted :: bool
  wd_seq :: u64
  wd_latest_seq :: u64
  wd_max_seq :: u64
  wd_window_size :: nat
  wd_mask :: fixed_big_int
  wd_init :: bool

definition wrapped_detector_new :: "nat \<Rightarrow> u64 \<Rightarrow> wrapped_detector" where
  "wrapped_detector_new window_size max_seq =
    \<lparr>wd_accepted = False, wd_seq = 0, wd_latest_seq = 0, wd_max_seq = max_seq,
     wd_window_size = window_size, wd_mask = fb_new window_size, wd_init = False\<rparr>"

text \<open>The signed distance from the head, computed in \<open>i64\<close> (two's complement, wrapping); the
division of \<open>i64\<close> truncates.\<close>

definition wd_diff :: "u64 \<Rightarrow> u64 \<Rightarrow> u64 \<Rightarrow> u64" where
  "wd_diff max_seq latest_seq seq =
    (let diff = latest_seq - seq; half = sint max_seq sdiv 2 in
     if sint diff > half then diff - (max_seq + 1)
     else if sint diff \<le> - half then diff + (max_seq + 1)
     else diff)"

definition wd_check :: "u64 \<Rightarrow> wrapped_detector \<Rightarrow> bool \<times> wrapped_detector" where
  "wd_check seq d =
    (let d = d\<lparr>wd_accepted := False\<rparr> in
     if seq > wd_max_seq d then (False, d)
     else
       let d = (if \<not> wd_init d
                then d\<lparr>wd_latest_seq := (if seq \<noteq> 0 then seq - 1 else wd_max_seq d), wd_init := True\<rparr>
                else d);
           diff = wd_diff (wd_max_seq d) (wd_latest_seq d) seq
       in if sint diff \<ge> sint (of_nat (wd_window_size d) :: u64) then (False, d)
          else if sint diff \<ge> 0 \<and> fb_bit (wd_mask d) (unat diff) \<noteq> 0 then (False, d)
          else (True, d\<lparr>wd_accepted := True, wd_seq := seq\<rparr>))"

text \<open>The assertion is the first panic.\<close>

definition wd_accept :: "wrapped_detector \<Rightarrow> unit result \<times> wrapped_detector" where
  "wd_accept d =
    (if \<not> wd_accepted d then (Ok (), d)
     else
       let diff = wd_diff (wd_max_seq d) (wd_latest_seq d) (wd_seq d) in
       if sint diff \<ge> sint (of_nat (wd_window_size d) :: u64) then (panic, d)
       else if sint diff < 0
       then (Ok (), d\<lparr>wd_latest_seq := wd_seq d,
                      wd_mask := set_bit_at 0 (lsh (unat (- diff)) (wd_mask d))\<rparr>)
       else (Ok (), d\<lparr>wd_mask := set_bit_at (unat diff) (wd_mask d)\<rparr>))"

text \<open>The trait object.\<close>

datatype replay_detector =
  SlidingWindow sliding_window_detector | Wrapped wrapped_detector | NoOp

fun rd_check :: "u64 \<Rightarrow> replay_detector \<Rightarrow> bool \<times> replay_detector" where
  "rd_check seq (SlidingWindow d) = map_prod id SlidingWindow (sw_check seq d)"
| "rd_check seq (Wrapped d) = map_prod id Wrapped (wd_check seq d)"
| "rd_check seq NoOp = (True, NoOp)"

fun rd_accept :: "replay_detector \<Rightarrow> unit result \<times> replay_detector" where
  "rd_accept (SlidingWindow d) = map_prod id SlidingWindow (sw_accept d)"
| "rd_accept (Wrapped d) = map_prod id Wrapped (wd_accept d)"
| "rd_accept NoOp = (Ok (), NoOp)"

section \<open>What the bit window holds\<close>

text \<open>The words and the mask have the shape that \<open>new\<close> gives them.\<close>

definition fb_wf :: "fixed_big_int \<Rightarrow> bool" where
  "fb_wf f \<longleftrightarrow> length (fb_bits f) = length (fb_bits (fb_new (fb_n f))) \<and>
     fb_msb_mask f = fb_msb_mask (fb_new (fb_n f))"

lemma fb_wf_new [simp]: "fb_wf (fb_new n)"
  by (simp add: fb_wf_def fb_new_def Let_def)

lemma fb_wf_length: "fb_wf f \<Longrightarrow> i < fb_n f \<Longrightarrow> i div 64 < length (fb_bits f)"
  by (auto simp: fb_wf_def fb_new_def Let_def)

definition fb_has :: "fixed_big_int \<Rightarrow> nat \<Rightarrow> bool" where
  "fb_has f i \<longleftrightarrow> fb_bit f i \<noteq> 0"

lemma fb_bit_has [simp]: "fb_bit f i = 0 \<longleftrightarrow> \<not> fb_has f i" "0 < fb_bit f i \<longleftrightarrow> fb_has f i"
  by (auto simp: fb_has_def)

lemma fb_bit_iff: "fb_has f i \<longleftrightarrow> i < fb_n f \<and> bit (fb_bits f ! (i div 64)) (i mod 64)"
proof -
  have "(w :: u64) AND push_bit k 1 \<noteq> 0 \<longleftrightarrow> bit w k" if "k < 64" for w k
    using that by (auto simp: and_exp_eq_0_iff_not_bit push_bit_eq_mult)
  then show ?thesis by (auto simp: fb_has_def fb_bit_def)
qed

lemma fb_new_empty [simp]: "\<not> fb_has (fb_new n) i"
  using fb_wf_length [OF fb_wf_new, of i n] unfolding fb_bit_iff by (auto simp: fb_new_def Let_def)

lemma set_bit_at_wf [simp]: "fb_wf (set_bit_at i f) = fb_wf f"
  by (simp add: set_bit_at_def fb_wf_def)

lemma set_bit_at_n [simp]: "fb_n (set_bit_at i f) = fb_n f"
  by (simp add: set_bit_at_def)

lemma set_bit_at_bit:
  assumes "fb_wf f"
  shows "fb_has (set_bit_at i f) j \<longleftrightarrow> fb_has f j \<or> j = i \<and> i < fb_n f"
proof (cases "i < fb_n f \<and> j < fb_n f")
  case True
  then have "i div 64 < length (fb_bits f)" using fb_wf_length [OF assms] by blast
  moreover have "bit (push_bit (i mod 64) (1 :: u64)) (j mod 64) \<longleftrightarrow> i mod 64 = j mod 64"
    by (auto simp: bit_simps)
  moreover have "i = j \<longleftrightarrow> i div 64 = j div 64 \<and> i mod 64 = j mod 64"
    by (metis div_mult_mod_eq)
  ultimately show ?thesis using True unfolding fb_bit_iff
    by (auto simp: set_bit_at_def nth_list_update bit_or_iff)
next
  case False
  then show ?thesis unfolding fb_bit_iff by (auto simp: set_bit_at_def)
qed

text \<open>The word that the loop writes at position \<open>i\<close>, over the words before the shift.\<close>

definition shifted_word :: "nat \<Rightarrow> u64 list \<Rightarrow> nat \<Rightarrow> u64" where
  "shifted_word n bits i = lsh_step n i bits ! i"

lemma lsh_step_simps:
  assumes "i < length bits"
  shows "length (lsh_step n i bits) = length bits" and "lsh_step n i bits ! i = shifted_word n bits i"
    and "j \<noteq> i \<Longrightarrow> lsh_step n i bits ! j = bits ! j"
  by (simp_all add: lsh_step_def shifted_word_def Let_def)

text \<open>Going down, the loop reads only words that it has not written yet.\<close>

lemma shifted_word_cong:
  assumes "\<And>j. j \<le> i \<Longrightarrow> bits' ! j = bits ! j" "i < length bits" "length bits' = length bits"
  shows "shifted_word n bits' i = shifted_word n bits i"
  using assms by (simp add: shifted_word_def lsh_step_def Let_def)

lemma lsh_loop_nth:
  assumes "i \<le> length bits"
  shows "length (lsh_loop n i bits) = length bits \<and>
    (\<forall>j<length bits. lsh_loop n i bits ! j = (if j < i then shifted_word n bits j else bits ! j))"
  using assms
proof (induction i arbitrary: bits)
  case (Suc i)
  then have i: "i < length bits" by simp
  note st = lsh_step_simps [OF i]
  have "shifted_word n (lsh_step n i bits) j = shifted_word n bits j" if "j < i" for j
    using that i st by (intro shifted_word_cong) auto
  with Suc.IH [of "lsh_step n i bits"] i st show ?case by (auto simp: less_Suc_eq)
qed simp

text \<open>Positions as a word and a bit in it, and what a shift does to them.\<close>

lemma position_minus:
  fixes c d p r :: nat
  assumes "p < 64" "r < 64" "64 * d + r \<le> 64 * c + p"
  shows "r \<le> p \<Longrightarrow> (64 * c + p - (64 * d + r)) div 64 = c - d \<and> (64 * c + p - (64 * d + r)) mod 64 = p - r"
    and "p < r \<Longrightarrow> d < c \<and> (64 * c + p - (64 * d + r)) div 64 = c - d - 1 \<and>
      (64 * c + p - (64 * d + r)) mod 64 = p + 64 - r"
proof -
  have split: "(x + 64 * y) div 64 = y \<and> (x + 64 * y) mod 64 = x" if "x < 64" for x y :: nat
    using that by simp
  {
    assume "r \<le> p"
    then have "64 * c + p - (64 * d + r) = (p - r) + 64 * (c - d)" using assms by simp
    then show "(64 * c + p - (64 * d + r)) div 64 = c - d \<and> (64 * c + p - (64 * d + r)) mod 64 = p - r"
      using split [of "p - r" "c - d"] assms(1) by simp
  next
    assume pr: "p < r"
    then have dc: "d < c" using assms by presburger
    then have "64 * c + p - (64 * d + r) = (p + 64 - r) + 64 * (c - d - 1)" using pr assms by simp
    then show "d < c \<and> (64 * c + p - (64 * d + r)) div 64 = c - d - 1 \<and>
        (64 * c + p - (64 * d + r)) mod 64 = p + 64 - r"
      using split [of "p + 64 - r" "c - d - 1"] pr dc by simp
  }
qed

lemma shifted_word_bit:
  assumes "q div 64 < length bits"
  shows "bit (shifted_word n bits (q div 64)) (q mod 64) \<longleftrightarrow>
    n \<le> q \<and> bit (bits ! ((q - n) div 64)) ((q - n) mod 64)"
proof -
  define c p d r where "c = q div 64" and "p = q mod 64" and "d = n div 64" and "r = n mod 64"
  have q: "q = 64 * c + p" and n: "n = 64 * d + r" and p: "p < 64" and r: "r < 64"
    by (simp_all add: c_def p_def d_def r_def)
  have c: "c < length bits" using assms by (simp add: c_def)
  have small: "64 \<le> n \<longleftrightarrow> d \<noteq> 0" using r by (auto simp: n)
  have word: "shifted_word n bits c = (if d \<le> c then push_bit r (bits ! (c - d)) OR
      (if d < c \<and> r \<noteq> 0 then drop_bit (64 - r) (bits ! (c - d - 1)) else 0) else 0)"
    using c small unfolding shifted_word_def lsh_step_def Let_def d_def [symmetric] r_def [symmetric]
    by (auto simp: n or.assoc [symmetric])
  have hi: "bit (push_bit r (w :: u64)) p \<longleftrightarrow> r \<le> p \<and> bit w (p - r)" for w
    using p by (auto simp: bit_push_bit_iff)
  have lo: "bit (drop_bit (64 - r) (w :: u64)) p \<longleftrightarrow> p < r \<and> bit w (p + 64 - r)" for w
  proof (cases "p < r")
    case True
    then have "64 - r + p = p + 64 - r" using r by simp
    then show ?thesis using True by (simp add: bit_drop_bit_eq)
  next
    case False
    then show ?thesis using r by (auto simp: bit_drop_bit_eq dest: bit_imp_le_length)
  qed
  have le: "n \<le> q \<longleftrightarrow> d < c \<or> d = c \<and> r \<le> p" using p r unfolding q n by linarith
  show ?thesis
  proof (cases "n \<le> q")
    case True
    note pos = position_minus [OF p r, of d c, folded q n, OF True]
    show ?thesis
      unfolding c_def [symmetric] p_def [symmetric] word
      using True le pos by (cases "r \<le> p") (auto simp: bit_or_iff hi lo)
  next
    case False
    then show ?thesis
      unfolding c_def [symmetric] p_def [symmetric] word using le by (auto simp: bit_or_iff hi)
  qed
qed

lemma lsh_wf [simp]: "fb_wf (lsh k f) = fb_wf f"
  using lsh_loop_nth [of "length (fb_bits f)" "fb_bits f" k] by (auto simp: lsh_def fb_wf_def Let_def)

lemma lsh_n [simp]: "fb_n (lsh k f) = fb_n f"
  by (simp add: lsh_def Let_def)

definition good_size :: "nat \<Rightarrow> bool" where
  "good_size n \<longleftrightarrow> n mod 64 \<le> 32"

text \<open>The mask of the last word keeps the bits of the window when \<open>n mod 64\<close> is at most 32.\<close>

lemma msb_mask_bit:
  assumes "good_size n" "q < n" "q div 64 = length (fb_bits (fb_new n)) - 1"
  shows "bit (fb_msb_mask (fb_new n)) (q mod 64)"
proof (cases "n mod 64 = 0")
  case True
  then show ?thesis by (simp add: fb_new_def Let_def)
next
  case False
  define a r where "a = n div 64" and "r = n mod 64"
  have n: "n = 64 * a + r" by (simp add: a_def r_def)
  have "n + 63 = (r - 1) + 64 * (a + 1)" using False by (simp add: n r_def [symmetric])
  moreover have "((r - 1) + 64 * (a + 1)) div 64 = a + 1"
    using mod_less_divisor [of 64 n] by (simp add: r_def)
  ultimately have "(n + 63) div 64 = n div 64 + 1" by (simp add: a_def)
  then have "q div 64 = n div 64" using assms(3) by (simp add: fb_new_def Let_def)
  then have "q mod 64 < n mod 64"
    using assms(2) div_mult_mod_eq [of q 64] div_mult_mod_eq [of n 64] by linarith
  then have "q mod 64 < 64 - n mod 64" using assms(1) by (simp add: good_size_def)
  moreover have "push_bit k 1 - 1 = (mask k :: u64)" for k
    by (simp add: mask_eq_exp_minus_1 push_bit_eq_mult)
  ultimately show ?thesis using False by (simp add: fb_new_def Let_def bit_mask_iff)
qed

lemma lsh_bit:
  assumes wf: "fb_wf f" and good: "good_size (fb_n f)"
  shows "fb_has (lsh k f) i \<longleftrightarrow> i < fb_n f \<and> k \<le> i \<and> fb_has f (i - k)"
proof (cases "k = 0 \<or> \<not> i < fb_n f")
  case True
  then show ?thesis unfolding fb_bit_iff by (auto simp: lsh_def Let_def)
next
  case False
  let ?b = "fb_bits f" and ?l = "length (fb_bits f)"
  have i: "i div 64 < ?l" using fb_wf_length [OF wf] False by simp
  note loop = lsh_loop_nth [of ?l ?b k, simplified]
  have "fb_bits (lsh k f) ! (i div 64) =
      (if i div 64 = ?l - 1 then shifted_word k ?b (i div 64) AND fb_msb_mask f
       else shifted_word k ?b (i div 64))"
    using False i loop by (auto simp: lsh_def Let_def nth_list_update)
  moreover have "i div 64 = ?l - 1 \<Longrightarrow> bit (fb_msb_mask f) (i mod 64)"
    using msb_mask_bit [OF good] wf False by (auto simp: fb_wf_def)
  ultimately have "bit (fb_bits (lsh k f) ! (i div 64)) (i mod 64) \<longleftrightarrow>
      bit (shifted_word k ?b (i div 64)) (i mod 64)"
    by (auto simp: bit_and_iff)
  with shifted_word_bit [OF i] False show ?thesis unfolding fb_bit_iff by auto
qed

section \<open>The contract of a window\<close>

text \<open>Each arrival is a sequence number and whether the packet turned out to be authentic: a
detector is asked first, and only an authentic packet is then accepted.\<close>

fun rd_run :: "(u64 \<times> bool) list \<Rightarrow> replay_detector \<Rightarrow> bool list result" where
  "rd_run [] d = Ok []"
| "rd_run ((q, authentic) # as) d =
    (case rd_check q d of
       (fresh, d) \<Rightarrow>
         if fresh \<and> authentic
         then case rd_accept d of
                (Inl f, _) \<Rightarrow> Inl f
              | (Inr _, d) \<Rightarrow> and_then (rd_run as d) (\<lambda>bs. Ok (fresh # bs))
         else and_then (rd_run as d) (\<lambda>bs. Ok (fresh # bs)))"

text \<open>The abstract window: \<open>index head q\<close> is the index that a sequence number stands for, \<open>seen\<close>
the accepted indices. What is at or before the end of the window counts as old.\<close>

definition window_fresh :: "(int \<Rightarrow> u64 \<Rightarrow> int) \<Rightarrow> u64 \<Rightarrow> nat \<Rightarrow> u64 \<Rightarrow> int \<Rightarrow> int set \<Rightarrow> bool" where
  "window_fresh index m w q h seen \<longleftrightarrow> q \<le> m \<and> h - int w < index h q \<and> index h q \<notin> seen"

fun window_run ::
    "(int \<Rightarrow> u64 \<Rightarrow> int) \<Rightarrow> u64 \<Rightarrow> nat \<Rightarrow> (u64 \<times> bool) list \<Rightarrow> int \<Rightarrow> int set \<Rightarrow> bool list" where
  "window_run index m w [] h seen = []"
| "window_run index m w ((q, authentic) # as) h seen =
    (if window_fresh index m w q h seen
     then True #
       (if authentic then window_run index m w as (max h (index h q)) (insert (index h q) seen)
        else window_run index m w as h seen)
     else False # window_run index m w as h seen)"

text \<open>The indices that a run accepts.\<close>

fun window_accepted ::
    "(int \<Rightarrow> u64 \<Rightarrow> int) \<Rightarrow> u64 \<Rightarrow> nat \<Rightarrow> (u64 \<times> bool) list \<Rightarrow> int \<Rightarrow> int set \<Rightarrow> int list" where
  "window_accepted index m w [] h seen = []"
| "window_accepted index m w ((q, authentic) # as) h seen =
    (if window_fresh index m w q h seen \<and> authentic
     then index h q # window_accepted index m w as (max h (index h q)) (insert (index h q) seen)
     else window_accepted index m w as h seen)"

lemma window_accepted_distinct:
  "distinct (window_accepted index m w as h seen) \<and> set (window_accepted index m w as h seen) \<inter> seen = {}"
  by (induction index m w as h seen rule: window_accepted.induct) (auto simp: window_fresh_def)

text \<open>The interface: \<open>rel d h seen\<close> relates a detector to an abstract window.\<close>

locale replay_contract =
  fixes check :: "u64 \<Rightarrow> 'd \<Rightarrow> bool \<times> 'd"
    and accept :: "'d \<Rightarrow> unit result \<times> 'd"
    and rel :: "u64 \<Rightarrow> nat \<Rightarrow> 'd \<Rightarrow> int \<Rightarrow> int set \<Rightarrow> bool"
    and index :: "u64 \<Rightarrow> int \<Rightarrow> u64 \<Rightarrow> int"
    and detector :: "'d \<Rightarrow> replay_detector"
  assumes rd_check: "rd_check q (detector d) = map_prod id detector (check q d)"
    and rd_accept: "rd_accept (detector d) = map_prod id detector (accept d)"
    and check_fresh: "rel m w d h seen \<Longrightarrow> fst (check q d) = window_fresh (index m) m w q h seen"
    and check_keeps: "rel m w d h seen \<Longrightarrow> rel m w (snd (check q d)) h seen"
    and accept_adds: "rel m w d h seen \<Longrightarrow> fst (check q d) \<Longrightarrow>
      \<exists>d'. accept (snd (check q d)) = (Ok (), d') \<and> rel m w d' (max h (index m h q)) (insert (index m h q) seen)"
begin

lemma run_refines: "rel m w d h seen \<Longrightarrow> rd_run as (detector d) = Ok (window_run (index m) m w as h seen)"
proof (induction as arbitrary: d h seen)
  case (Cons a as)
  obtain q authentic where a: "a = (q, authentic)" by (cases a)
  obtain b d1 where c: "check q d = (b, d1)" by (cases "check q d")
  have b: "b = window_fresh (index m) m w q h seen" and d1: "rel m w d1 h seen"
    using check_fresh [OF Cons.prems, of q] check_keeps [OF Cons.prems, of q] c by auto
  show ?case
  proof (cases "b \<and> authentic")
    case True
    then obtain d2 where d2: "accept d1 = (Ok (), d2)"
        "rel m w d2 (max h (index m h q)) (insert (index m h q) seen)"
      using accept_adds [OF Cons.prems, of q] c by auto
    show ?thesis using Cons.IH [OF d2(2)] True b by (simp add: a rd_check rd_accept c d2(1))
  next
    case False
    then show ?thesis using Cons.IH [OF d1] b by (auto simp: a rd_check c)
  qed
qed simp

end

text \<open>What the bit mask of a detector represents.\<close>

definition mask_rel :: "nat \<Rightarrow> fixed_big_int \<Rightarrow> int \<Rightarrow> int set \<Rightarrow> bool" where
  "mask_rel w f h seen \<longleftrightarrow> fb_wf f \<and> fb_n f = w \<and> good_size w \<and> (\<forall>x\<in>seen. x \<le> h) \<and>
     (\<forall>i<w. fb_has f i \<longleftrightarrow> h - int i \<in> seen)"

lemma mask_rel_new: "good_size w \<Longrightarrow> mask_rel w (fb_new w) h {}"
  by (simp add: mask_rel_def fb_new_empty) (simp add: fb_new_def Let_def)

lemma mask_rel_set:
  assumes "mask_rel w f h seen" "i < w"
  shows "mask_rel w (set_bit_at i f) h (insert (h - int i) seen)"
  using assms by (auto simp: mask_rel_def set_bit_at_bit)

lemma mask_rel_shift:
  assumes "mask_rel w f h seen" "0 < w" "0 < k"
  shows "mask_rel w (set_bit_at 0 (lsh k f)) (h + int k) (insert (h + int k) seen)"
proof -
  have f: "fb_wf f" "fb_n f = w" "good_size w" "\<forall>x\<in>seen. x \<le> h"
      "\<And>i. i < w \<Longrightarrow> fb_has f i \<longleftrightarrow> h - int i \<in> seen"
    using assms(1) unfolding mask_rel_def by blast+
  have "fb_has (set_bit_at 0 (lsh k f)) i \<longleftrightarrow> h + int k - int i \<in> insert (h + int k) seen"
    if i: "i < w" for i
  proof -
    have "fb_has (set_bit_at 0 (lsh k f)) i \<longleftrightarrow> i = 0 \<or> k \<le> i \<and> h - int (i - k) \<in> seen"
      using i f assms(2) set_bit_at_bit [of "lsh k f" 0 i] lsh_bit [of f k i] f(5) [of "i - k"] by auto
    also have "\<dots> \<longleftrightarrow> i = 0 \<or> h + int k - int i \<in> seen"
      using f(4) by (auto simp: of_nat_diff algebra_simps dest: spec)
    finally show ?thesis by auto
  qed
  then show ?thesis using f assms(3) unfolding mask_rel_def by auto
qed

section \<open>The detector without wrapping\<close>

definition sw_rel :: "u64 \<Rightarrow> nat \<Rightarrow> sliding_window_detector \<Rightarrow> int \<Rightarrow> int set \<Rightarrow> bool" where
  "sw_rel m w d h seen \<longleftrightarrow> 0 < w \<and> int w \<le> uint m \<and> uint m + int w < 2 ^ 64 \<and>
     sw_max_seq d = m \<and> sw_window_size d = w \<and> uint (sw_latest_seq d) = h \<and> sw_latest_seq d \<le> m \<and>
     mask_rel w (sw_mask d) h seen"

lemma unat_sub_u64:
  assumes "q \<le> (l :: u64)"
  shows "unat (l - q) = nat (uint l - uint q)"
proof -
  have "uint (l - q) = uint l - uint q" by (rule uint_sub_lem [THEN iffD1]) (use assms in \<open>simp add: word_le_def\<close>)
  then show ?thesis by (simp only: unat_eq_nat_uint)
qed

lemma sw_fresh:
  assumes "sw_rel m w d h seen" "q \<le> m"
  shows "fst (sw_check q d) \<longleftrightarrow> h - int w < uint q \<and> uint q \<notin> seen"
proof -
  let ?l = "sw_latest_seq d"
  have r: "0 < w" "int w \<le> uint m" "uint m + int w < 2 ^ 64" "sw_max_seq d = m" "sw_window_size d = w"
      "uint ?l = h" "mask_rel w (sw_mask d) h seen"
    using assms(1) unfolding sw_rel_def by blast+
  have q: "uint q \<le> uint m" using assms(2) by (simp add: word_le_def)
  have "uint (of_nat w + q) = int w + uint q"
  proof -
    have w: "uint (of_nat w :: u64) = int w" using r(2,3) uint_lt2p [of m] by (simp add: unsigned_of_nat take_bit_nat_eq_self)
    show ?thesis using r(3) q uint_plus_if' [of "of_nat w" q] w by simp
  qed
  then have old: "?l \<ge> of_nat w + q \<longleftrightarrow> \<not> h - int w < uint q" using r(6) by (auto simp: word_le_def)
  show ?thesis
  proof (cases "q \<le> ?l")
    case True
    have dup: "h - int w < uint q \<Longrightarrow> fb_has (sw_mask d) (unat (?l - q)) \<longleftrightarrow> uint q \<in> seen"
    proof -
      assume "h - int w < uint q"
      then have "unat (?l - q) < w" "h - int (unat (?l - q)) = uint q"
        using True r(6) by (auto simp: unat_sub_u64 word_le_def)
      then show ?thesis using r(7) unfolding mask_rel_def by metis
    qed
    show ?thesis using True assms(2) r(4,5) old dup
      by (auto simp: sw_check_def Let_def not_less)
  next
    case False
    then have "h < uint q" using r(6) by (simp add: word_le_def)
    moreover have "\<forall>x\<in>seen. x \<le> h" using r(7) by (simp add: mask_rel_def)
    ultimately show ?thesis using False assms(2) r(1,4,5)
      by (auto simp: sw_check_def Let_def not_less)
  qed
qed

lemma sw_check_sel:
  "\<exists>a s. snd (sw_check q d) = d\<lparr>sw_accepted := a, sw_seq := s\<rparr>"
  "fst (sw_check q d) \<Longrightarrow> snd (sw_check q d) = d\<lparr>sw_accepted := True, sw_seq := q\<rparr>"
  "fst (sw_check q d) \<Longrightarrow> q \<le> sw_max_seq d"
proof -
  show "\<exists>a s. snd (sw_check q d) = d\<lparr>sw_accepted := a, sw_seq := s\<rparr>"
    by (rule exI [of _ "fst (sw_check q d)"], rule exI [of _ "if fst (sw_check q d) then q else sw_seq d"])
      (simp add: sw_check_def Let_def)
qed (auto simp: sw_check_def Let_def split: if_splits)

lemma sw_accept_ok:
  assumes rel: "sw_rel m w d h seen" and fresh: "fst (sw_check q d)"
  shows "\<exists>d'. sw_accept (snd (sw_check q d)) = (Ok (), d') \<and> sw_rel m w d' (max h (uint q)) (insert (uint q) seen)"
proof -
  let ?l = "sw_latest_seq d"
  have r: "0 < w" "int w \<le> uint m" "sw_max_seq d = m" "uint ?l = h" "mask_rel w (sw_mask d) h seen"
    using rel unfolding sw_rel_def by blast+
  have q: "q \<le> m" using sw_check_sel(3) [OF fresh] r(3) by simp
  have in_window: "h - int w < uint q" using sw_fresh [OF rel q] fresh by simp
  have m0: "m \<noteq> 0" using r(1,2) by auto
  show ?thesis
  proof (cases "q > ?l")
    case True
    then have k: "unat (q - ?l) = nat (uint q - h)" "0 < uint q - h"
      using unat_sub_u64 [of ?l q] r(4) by (simp_all add: word_less_def word_le_def)
    have mask: "mask_rel w (set_bit_at 0 (lsh (unat (q - ?l)) (sw_mask d))) (uint q) (insert (uint q) seen)"
      using mask_rel_shift [OF r(5) r(1), of "unat (q - ?l)"] k by simp
    show ?thesis using True mask rel m0 q k(2)
      by (auto simp: sw_check_sel(2) [OF fresh] sw_accept_def Let_def sw_rel_def)
  next
    case False
    then have le: "q \<le> ?l" by simp
    define i where "i = unat (?l - q)"
    have i: "i < w" "h - int i = uint q"
      using le in_window r(4) by (auto simp: i_def unat_sub_u64 word_le_def)
    have "int (unat (?l - q)) < uint m" using i(1) r(2) unfolding i_def by linarith
    then have "?l - q < m" by (simp add: word_less_def)
    then have "(?l - q) mod m = ?l - q" by (simp add: mod_word_less)
    moreover have "mask_rel w (set_bit_at i (sw_mask d)) h (insert (uint q) seen)"
      using mask_rel_set [OF r(5) i(1)] i(2) by simp
    moreover have "uint q \<le> h" using i(2) by linarith
    ultimately show ?thesis using False rel m0 r(3)
      by (auto simp: sw_check_sel(2) [OF fresh] sw_accept_def Let_def sw_rel_def i_def max_def)
  qed
qed

interpretation sw: replay_contract sw_check sw_accept sw_rel "\<lambda>_ _ q. uint q" SlidingWindow
proof
  show "fst (sw_check q d) = window_fresh (\<lambda>_ q. uint q) m w q h seen" if "sw_rel m w d h seen" for m w d h seen q
    using sw_fresh [OF that, of q] sw_check_sel(3) [of q d] that
    by (cases "q \<le> m") (auto simp: window_fresh_def sw_rel_def)
  show "sw_rel m w (snd (sw_check q d)) h seen" if "sw_rel m w d h seen" for m w d h seen q
    using that sw_check_sel(1) [of q d] by (auto simp: sw_rel_def)
qed (simp_all add: sw_accept_ok)

lemma sw_rel_new:
  assumes "good_size w" "0 < w" "int w \<le> uint m" "uint m + int w < 2 ^ 64"
  shows "sw_rel m w (sliding_window_detector_new w m) 0 {}"
  using assms by (simp add: sw_rel_def sliding_window_detector_new_def mask_rel_new)

section \<open>The detector with wrapping\<close>

text \<open>The signed distance on integers, and the index that a sequence number stands for, relative
to the head.\<close>

definition wrap_diff :: "int \<Rightarrow> int \<Rightarrow> int" where
  "wrap_diff m d = (if d > m div 2 then d - (m + 1) else if d \<le> - (m div 2) then d + (m + 1) else d)"

definition wrapped_index :: "u64 \<Rightarrow> int \<Rightarrow> u64 \<Rightarrow> int" where
  "wrapped_index m h q = h - wrap_diff (uint m) (h mod (uint m + 1) - uint q)"

definition wd_rel :: "u64 \<Rightarrow> nat \<Rightarrow> wrapped_detector \<Rightarrow> int \<Rightarrow> int set \<Rightarrow> bool" where
  "wd_rel m w d h seen \<longleftrightarrow> 0 < w \<and> int w < 2 ^ 63 \<and> uint m < 2 ^ 62 \<and>
     wd_max_seq d = m \<and> wd_window_size d = w \<and> wd_init d \<and>
     uint (wd_latest_seq d) = h mod (uint m + 1) \<and> mask_rel w (wd_mask d) h seen"

lemma sint_word_of_int_small:
  assumes "- (2 ^ 63) \<le> k" "k < 2 ^ 63"
  shows "sint (word_of_int k :: u64) = k"
proof -
  have "sint (word_of_int k :: u64) = signed_take_bit 63 k" by (simp add: sint_sbintrunc')
  also have "\<dots> = k" using assms by (rule signed_take_bit_int_eq_self)
  finally show ?thesis .
qed

lemma sint_small: "uint (x :: u64) < 2 ^ 63 \<Longrightarrow> sint x = uint x"
  using sint_word_of_int_small [of "uint x"] uint_ge_0 [of x] by simp

lemma wrap_diff_bound: "\<bar>d\<bar> \<le> m \<Longrightarrow> \<bar>wrap_diff m d\<bar> \<le> 2 * m + 1"
  unfolding wrap_diff_def by (simp split: if_splits) linarith

lemma wd_diff_sint:
  assumes m: "uint m < 2 ^ 62" and l: "uint l \<le> uint m" and q: "uint q \<le> uint m"
  shows "sint (wd_diff m l q) = wrap_diff (uint m) (uint l - uint q)"
proof -
  let ?d = "uint l - uint q"
  have w: "l - q = word_of_int ?d" by (simp add: word_of_int_minus)
  have d: "- (2 ^ 62) < ?d" "?d < 2 ^ 62" "- uint m \<le> ?d" "?d \<le> uint m" using assms uint_ge_0 [of l] uint_ge_0 [of q] by linarith+
  have sd: "sint (l - q) = ?d" unfolding w by (rule sint_word_of_int_small) (use d in simp_all)
  have sm: "sint m = uint m" using m by (intro sint_small) simp
  have half: "uint m sdiv 2 = uint m div 2" using uint_ge_0 [of m] by (simp add: signed_divide_int_def sgn_if)
  have "wd_diff m l q = word_of_int (wrap_diff (uint m) ?d)"
    unfolding wd_diff_def wrap_diff_def Let_def sd sm half by simp
  moreover have "- (2 ^ 63) \<le> wrap_diff (uint m) ?d" "wrap_diff (uint m) ?d < 2 ^ 63"
    using wrap_diff_bound [of ?d "uint m"] d(3,4) m by (auto simp: abs_le_iff)
  ultimately show ?thesis using sint_word_of_int_small by simp
qed

lemma wrapped_index_mod:
  assumes "uint q \<le> uint m"
  shows "wrapped_index m h q mod (uint m + 1) = uint q"
proof -
  let ?M = "uint m + 1"
  have "\<exists>k. wrap_diff (uint m) d = d + k * ?M" for d
    by (rule exI [of _ "if d > uint m div 2 then - 1 else if d \<le> - (uint m div 2) then 1 else 0"])
      (simp add: wrap_diff_def)
  then obtain k where "wrapped_index m h q = h - (h mod ?M - uint q + k * ?M)"
    unfolding wrapped_index_def by metis
  also have "\<dots> = uint q + (h div ?M - k) * ?M"
    using div_mult_mod_eq [of h ?M] by (simp add: algebra_simps)
  finally have "wrapped_index m h q mod ?M = uint q mod ?M" by (simp add: mod_mult_self1)
  then show ?thesis using assms by (simp add: mod_pos_pos_trivial)
qed

lemma wd_diff_rel:
  assumes "wd_rel m w d h seen" "q \<le> m"
  shows "sint (wd_diff m (wd_latest_seq d) q) = h - wrapped_index m h q"
proof -
  have "uint (wd_latest_seq d) \<le> uint m"
    using assms(1) pos_mod_bound [of "uint m + 1" h] uint_ge_0 [of m] unfolding wd_rel_def by linarith
  then show ?thesis using assms by (simp add: wd_diff_sint wrapped_index_def wd_rel_def word_le_def)
qed

lemma sint_less_half: "sint (x :: u64) < 2 ^ 63"
  using sint_lt [of x] by simp

lemma unat_sint:
  assumes "0 \<le> sint (x :: u64)"
  shows "int (unat x) = sint x"
proof -
  have "uint x = take_bit 64 (sint x)" by (simp add: uint_sint)
  also have "\<dots> = sint x" using assms sint_less_half [of x] by (intro take_bit_int_eq_self) auto
  finally show ?thesis by simp
qed

lemma unat_minus_sint:
  assumes "sint (x :: u64) < 0" "- (2 ^ 63) < sint x"
  shows "int (unat (- x)) = - sint x"
proof -
  have "- x = word_of_int (- sint x)" by simp
  then have "sint (- x) = - sint x" using assms by (simp only:) (rule sint_word_of_int_small; simp)
  then show ?thesis using unat_sint [of "- x"] assms by simp
qed

lemma wrapped_index_near:
  assumes "uint m < 2 ^ 62" "q \<le> m"
  shows "\<bar>h - wrapped_index m h q\<bar> < 2 ^ 63"
proof -
  have "\<bar>h mod (uint m + 1) - uint q\<bar> \<le> uint m"
    using assms(2) pos_mod_bound [of "uint m + 1" h] pos_mod_sign [of "uint m + 1" h] uint_ge_0 [of m]
      uint_ge_0 [of q] unfolding word_le_def by linarith
  from wrap_diff_bound [OF this] show ?thesis using assms(1) by (simp add: wrapped_index_def)
qed

lemma window_sint: "int w < 2 ^ 63 \<Longrightarrow> sint (of_nat w :: u64) = int w"
  using sint_word_of_int_small [of "int w"] by simp

lemma wd_check_sel:
  assumes "wd_init d"
  shows "\<exists>a s. snd (wd_check q d) = d\<lparr>wd_accepted := a, wd_seq := s\<rparr>"
    and "fst (wd_check q d) \<Longrightarrow> snd (wd_check q d) = d\<lparr>wd_accepted := True, wd_seq := q\<rparr>"
    and "fst (wd_check q d) \<Longrightarrow> q \<le> wd_max_seq d"
proof -
  show "\<exists>a s. snd (wd_check q d) = d\<lparr>wd_accepted := a, wd_seq := s\<rparr>"
    by (rule exI [of _ "fst (wd_check q d)"], rule exI [of _ "if fst (wd_check q d) then q else wd_seq d"])
      (simp add: wd_check_def Let_def assms)
qed (auto simp: wd_check_def Let_def assms split: if_splits)

lemma wd_fresh:
  assumes rel: "wd_rel m w d h seen" and q: "q \<le> m"
  shows "fst (wd_check q d) \<longleftrightarrow> h - int w < wrapped_index m h q \<and> wrapped_index m h q \<notin> seen"
proof -
  let ?x = "wd_diff m (wd_latest_seq d) q" and ?i = "wrapped_index m h q"
  have r: "int w < 2 ^ 63" "wd_max_seq d = m" "wd_window_size d = w" "wd_init d" "mask_rel w (wd_mask d) h seen"
    using rel unfolding wd_rel_def by blast+
  have x: "sint ?x = h - ?i" by (rule wd_diff_rel [OF rel q])
  have dup: "0 \<le> h - ?i \<Longrightarrow> h - ?i < int w \<Longrightarrow> fb_has (wd_mask d) (unat ?x) \<longleftrightarrow> ?i \<in> seen"
  proof -
    assume "0 \<le> h - ?i" "h - ?i < int w"
    then have "unat ?x < w" "h - int (unat ?x) = ?i" using unat_sint [of ?x] x by linarith+
    then show ?thesis using r(5) unfolding mask_rel_def by metis
  qed
  have new: "?i \<notin> seen" if "h - ?i < 0" using r(5) that by (auto simp: mask_rel_def)
  have "fst (wd_check q d) \<longleftrightarrow> \<not> int w \<le> h - ?i \<and> \<not> (0 \<le> h - ?i \<and> fb_has (wd_mask d) (unat ?x))"
    using q r(2-4) by (simp add: wd_check_def Let_def x window_sint [OF r(1)] not_less)
  then show ?thesis using dup new by (cases "0 \<le> h - ?i") (auto simp: not_le)
qed

lemma wd_accept_ok:
  assumes rel: "wd_rel m w d h seen" and fresh: "fst (wd_check q d)"
  shows "\<exists>d'. wd_accept (snd (wd_check q d)) = (Ok (), d') \<and>
    wd_rel m w d' (max h (wrapped_index m h q)) (insert (wrapped_index m h q) seen)"
proof -
  let ?x = "wd_diff m (wd_latest_seq d) q" and ?i = "wrapped_index m h q"
  have r: "0 < w" "int w < 2 ^ 63" "uint m < 2 ^ 62" "wd_max_seq d = m" "wd_window_size d = w" "wd_init d"
      "mask_rel w (wd_mask d) h seen"
    using rel unfolding wd_rel_def by blast+
  have q: "q \<le> m" using wd_check_sel(3) [OF r(6) fresh] r(4) by simp
  have x: "sint ?x = h - ?i" by (rule wd_diff_rel [OF rel q])
  have win: "h - ?i < int w" using wd_fresh [OF rel q] fresh by linarith
  show ?thesis
  proof (cases "h - ?i < 0")
    case True
    then have k: "int (unat (- ?x)) = ?i - h"
      using unat_minus_sint [of ?x] wrapped_index_near [OF r(3) q, of h] x by linarith
    have "mask_rel w (set_bit_at 0 (lsh (unat (- ?x)) (wd_mask d))) ?i (insert ?i seen)"
      using mask_rel_shift [OF r(7) r(1), of "unat (- ?x)"] k True by simp
    moreover have "uint q = ?i mod (uint m + 1)" using wrapped_index_mod [of q m h] q by (simp add: word_le_def)
    ultimately show ?thesis using True rel r(4,5)
      by (auto simp: wd_check_sel(2) [OF r(6) fresh] wd_accept_def Let_def wd_rel_def x window_sint)
  next
    case False
    then have k: "unat ?x < w" "h - int (unat ?x) = ?i" using unat_sint [of ?x] x win by linarith+
    have "mask_rel w (set_bit_at (unat ?x) (wd_mask d)) h (insert ?i seen)"
      using mask_rel_set [OF r(7) k(1)] k(2) by simp
    then show ?thesis using False win rel r(4,5)
      by (auto simp: wd_check_sel(2) [OF r(6) fresh] wd_accept_def Let_def wd_rel_def x window_sint max_def)
  qed
qed

interpretation wd: replay_contract wd_check wd_accept wd_rel wrapped_index Wrapped
proof
  show "fst (wd_check q d) = window_fresh (wrapped_index m) m w q h seen" if "wd_rel m w d h seen" for m w d h seen q
    using wd_fresh [OF that, of q] wd_check_sel(3) [of d q] that
    by (cases "q \<le> m") (auto simp: window_fresh_def wd_rel_def)
  show "wd_rel m w (snd (wd_check q d)) h seen" if "wd_rel m w d h seen" for m w d h seen q
    using that wd_check_sel(1) [of d q] by (auto simp: wd_rel_def)
qed (simp_all add: wd_accept_ok)

text \<open>The first check places the head just before the number it sees.\<close>

definition wd_started :: "u64 \<Rightarrow> wrapped_detector \<Rightarrow> wrapped_detector" where
  "wd_started q d = d\<lparr>wd_latest_seq := (if q \<noteq> 0 then q - 1 else wd_max_seq d), wd_init := True\<rparr>"

lemma wd_check_first: "\<not> wd_init d \<Longrightarrow> q \<le> wd_max_seq d \<Longrightarrow> wd_check q d = wd_check q (wd_started q d)"
  by (simp add: wd_check_def wd_started_def Let_def)

lemma wd_rel_new:
  assumes "good_size w" "0 < w" "int w < 2 ^ 63" "uint m < 2 ^ 62" "q \<le> m"
  shows "wd_rel m w (wd_started q (wrapped_detector_new w m)) (uint q - 1) {}"
proof -
  have start: "uint (if q \<noteq> 0 then q - 1 else m) = (uint q - 1) mod (uint m + 1)"
  proof (cases "q = 0")
    case True
    then show ?thesis using uint_ge_0 [of m] by (simp add: zmod_minus1)
  next
    case False
    then have "uint q \<noteq> 0" by (simp add: uint_0_iff)
    then have "1 \<le> uint q" using uint_ge_0 [of q] by linarith
    then have "uint (q - 1) = uint q - 1" using uint_sub_lem [of 1 q] by simp
    then show ?thesis using False assms(5) uint_ge_0 [of "q - 1"]
      by (simp add: word_le_def mod_pos_pos_trivial)
  qed
  show ?thesis
    using assms start [symmetric] by (simp add: wd_rel_def wd_started_def wrapped_detector_new_def mask_rel_new)
qed

section \<open>Properties\<close>

text \<open>C8. Both sliding-window detectors implement the abstract window, for every positive window size
whose remainder modulo 64 is at most 32 and that does not exceed the largest number, when this
is below 2^62 and, for the detector with wrapping, the first number is not above it: whatever numbers arrive, and whichever packets turn out to
be authentic, their answers are those of the window, no call panics, and no index is accepted
twice. The indices are the numbers themselves for the detector without wrapping, and the
nearest continuation of the head for the one with wrapping.\<close>

theorem replay_detectors_refine_window:
  assumes "good_size w" "0 < w" "int w \<le> uint m" "uint m < 2 ^ 62" "q \<le> m"
  shows "rd_run as (SlidingWindow (sliding_window_detector_new w m)) = Ok (window_run (\<lambda>_ q. uint q) m w as 0 {}) \<and>
    distinct (window_accepted (\<lambda>_ q. uint q) m w as 0 {}) \<and>
    rd_run ((q, b) # as) (Wrapped (wrapped_detector_new w m)) =
      Ok (window_run (wrapped_index m) m w ((q, b) # as) (uint q - 1) {}) \<and>
    distinct (window_accepted (wrapped_index m) m w ((q, b) # as) (uint q - 1) {})"
proof -
  have "rd_run ((q, b) # as) (Wrapped (wrapped_detector_new w m)) =
      rd_run ((q, b) # as) (Wrapped (wd_started q (wrapped_detector_new w m)))"
    using wd_check_first [of "wrapped_detector_new w m" q] assms(5) by (simp add: wrapped_detector_new_def)
  moreover have "wd_rel m w (wd_started q (wrapped_detector_new w m)) (uint q - 1) {}"
    using assms by (intro wd_rel_new) auto
  moreover have "sw_rel m w (sliding_window_detector_new w m) 0 {}"
    using assms by (intro sw_rel_new) auto
  ultimately show ?thesis
    using sw.run_refines wd.run_refines window_accepted_distinct by metis
qed

theorem replay_detectors_refine_window_witness:
  "good_size 64 \<and> rd_run [(7, True), (5, True), (7, True), (5, True)] (Wrapped (wrapped_detector_new 64 65535)) =
     Ok [True, True, False, False]"
proof -
  have "good_size 64" by (simp add: good_size_def)
  moreover have "rd_run [(7, True), (5, True), (7, True), (5, True)] (Wrapped (wrapped_detector_new 64 65535)) =
      Ok (window_run (wrapped_index 65535) 65535 64 [(7, True), (5, True), (7, True), (5, True)] (uint (7 :: u64) - 1) {})"
    using replay_detectors_refine_window [of 64 65535 7 "[]" True]
      replay_detectors_refine_window [of 64 65535 7 "[(5, True), (7, True), (5, True)]" True]
    by (simp add: good_size_def)
  ultimately show ?thesis by (simp add: window_fresh_def wrapped_index_def wrap_diff_def)
qed

text \<open>One packet of a wrapped detector whose head is at \<open>l\<close>.\<close>

lemma wd_diff_65535:
  assumes "l \<le> 65535" "q \<le> 65535"
  shows "sint (wd_diff 65535 l q) = wrap_diff 65535 (uint l - uint q)"
  using wd_diff_sint [of 65535 l q] assms by (simp add: word_le_def)

lemma lsh_loses_bit:
  assumes "32 < w mod 64" "fb_wf f" "fb_n f = w" "0 < k"
  shows "\<not> fb_has (lsh k f) (w - w mod 64 + (64 - w mod 64))"
proof -
  define a r where "a = w div 64" and "r = w mod 64"
  have w: "w = 64 * a + r" and r: "32 < r" "r < 64" using assms(1) by (simp_all add: a_def r_def)
  have q: "w - w mod 64 + (64 - w mod 64) = 64 * a + (64 - r)"
    unfolding r_def [symmetric] using w by simp
  have split: "(x + 64 * y) div 64 = y \<and> (x + 64 * y) mod 64 = x" if "x < 64" for x y :: nat
    using that by simp
  have div: "(64 * a + (64 - r)) div 64 = a" "(64 * a + (64 - r)) mod 64 = 64 - r"
    using split [of "64 - r" a] r by (simp_all add: add.commute)
  have "(64 * a + r + 63) div 64 = a + 1"
  proof -
    have "64 * a + r + 63 = (r - 1) + 64 * (a + 1)" using r by simp
    then show ?thesis using r by simp
  qed
  then have len: "length (fb_bits f) = a + 1" using assms(2,3) by (simp add: fb_wf_def fb_new_def Let_def w)
  have "fb_msb_mask f = mask (64 - r)"
    using assms(2,3) r(1) unfolding fb_wf_def
    by (simp add: fb_new_def Let_def r_def mask_eq_exp_minus_1 push_bit_eq_mult)
  then have "\<not> bit (fb_bits (lsh k f) ! a) (64 - r)"
    using assms(4) len lsh_loop_nth [of "length (fb_bits f)" "fb_bits f" k]
    by (simp add: lsh_def Let_def bit_and_iff bit_mask_iff)
  then show ?thesis unfolding q fb_bit_iff div by simp
qed

lemma uint_of_nat_u64: "n < 2 ^ 64 \<Longrightarrow> uint (of_nat n :: u64) = int n"
  by (simp add: unsigned_of_nat take_bit_nat_eq_self)

text \<open>What a wrapped detector does with an authentic packet ahead of the head.\<close>

lemma wd_ahead:
  assumes "wd_init d" "wd_max_seq d = 65535" "wd_latest_seq d \<le> 65535" "q \<le> 65535"
    and "uint q = uint (wd_latest_seq d) + int k" "0 < k" "k \<le> 32766" "wd_window_size d < 32768"
  shows "wd_check q d = (True, d\<lparr>wd_accepted := True, wd_seq := q\<rparr>) \<and>
    wd_accept (d\<lparr>wd_accepted := True, wd_seq := q\<rparr>) = (Ok (), d\<lparr>wd_accepted := True, wd_seq := q,
      wd_latest_seq := q, wd_mask := set_bit_at 0 (lsh k (wd_mask d))\<rparr>)"
proof -
  let ?x = "wd_diff 65535 (wd_latest_seq d) q"
  have x: "sint ?x = - int k"
    using wd_diff_65535 [OF assms(3,4)] assms(5-7) by (simp add: wrap_diff_def)
  have "int (unat (- ?x)) = int k" using unat_minus_sint [of ?x] x assms(6,7) by simp
  then have k: "unat (- ?x) = k" by (simp only: of_nat_eq_iff)
  have w: "sint (of_nat (wd_window_size d) :: u64) = int (wd_window_size d)"
    using assms(8) by (intro window_sint) simp
  show ?thesis using assms(1,2,4,6) x k w by (simp add: wd_check_def wd_accept_def Let_def)
qed

text \<open>C37. For every other window size below 2^15 the detector forgets: the mask of the last word
is computed from the unused bits instead of the used ones, so a shift clears bits that are
still inside the window. A packet is then accepted a second time although a window of the
configured size must reject it.\<close>

theorem misaligned_window_accepts_replay:
  assumes "32 < w mod 64" "w < 32768"
  shows "\<exists>k<w. rd_run [(1, True), (of_nat (1 + k), True), (1, True)] (Wrapped (wrapped_detector_new w 65535)) =
    Ok [True, True, True]"
proof -
  define k where "k = w - w mod 64 + (64 - w mod 64)"
  have k: "0 < k" "k < w" "k \<le> 32766"
    using assms mod_less_divisor [of 64 w] mod_less_eq_dividend [of w 64] unfolding k_def by linarith+
  define q :: u64 where "q = of_nat (1 + k)"
  have q: "uint q = 1 + int k" using uint_of_nat_u64 [of "1 + k"] k(3) unfolding q_def by simp
  define f where "f = set_bit_at 0 (lsh 1 (fb_new w))"
  define d0 where "d0 = wd_started 1 (wrapped_detector_new w 65535)"
  define d1 where "d1 = d0\<lparr>wd_accepted := True, wd_seq := 1, wd_latest_seq := 1, wd_mask := f\<rparr>"
  define d2 where "d2 = d1\<lparr>wd_accepted := True, wd_seq := q, wd_latest_seq := q,
    wd_mask := set_bit_at 0 (lsh k f)\<rparr>"
  note defs = d0_def d1_def d2_def wd_started_def wrapped_detector_new_def
  have first: "rd_check 1 (Wrapped (wrapped_detector_new w 65535)) = rd_check 1 (Wrapped d0)"
    using wd_check_first [of "wrapped_detector_new w 65535" 1] by (simp add: d0_def wrapped_detector_new_def)
  have s1: "wd_check 1 d0 = (True, d0\<lparr>wd_accepted := True, wd_seq := 1\<rparr>)"
      "wd_accept (d0\<lparr>wd_accepted := True, wd_seq := 1\<rparr>) = (Ok (), d1)"
    using wd_ahead [of d0 1 1] assms(2) by (simp_all add: defs f_def)
  have s2: "wd_check q d1 = (True, d1\<lparr>wd_accepted := True, wd_seq := q\<rparr>)"
      "wd_accept (d1\<lparr>wd_accepted := True, wd_seq := q\<rparr>) = (Ok (), d2)"
    using wd_ahead [of d1 q k] assms(2) k q by (simp_all add: defs word_le_def)
  have wf: "fb_wf f" "fb_n f = w" by (simp_all add: f_def) (simp add: fb_new_def Let_def)
  have "\<not> fb_has (set_bit_at 0 (lsh k f)) k"
    using lsh_loses_bit [OF assms(1) wf k(1)] set_bit_at_bit [of "lsh k f" 0 k] wf k
    unfolding k_def [symmetric] by simp
  moreover have "sint (wd_diff 65535 q 1) = int k"
    using wd_diff_65535 [of q 1] q k(3) by (simp add: word_le_def wrap_diff_def)
  moreover have "unat (wd_diff 65535 q 1) = k"
  proof -
    have "int (unat (wd_diff 65535 q 1)) = int k"
      using unat_sint [of "wd_diff 65535 q 1"] calculation(2) by linarith
    then show ?thesis by (simp only: of_nat_eq_iff)
  qed
  moreover have "sint (of_nat w :: u64) = int w" using assms(2) by (intro window_sint) simp
  ultimately have s3: "fst (wd_check 1 d2)" "\<exists>d3. wd_accept (snd (wd_check 1 d2)) = (Ok (), d3)"
    using k(2) by (simp_all add: wd_check_def wd_accept_def defs Let_def)
  have "rd_run [(1, True), (q, True), (1, True)] (Wrapped (wrapped_detector_new w 65535)) = Ok [True, True, True]"
    using first s1 s2 s3 by (auto simp: split_beta)
  then show ?thesis using k(2) unfolding q_def by blast
qed

theorem misaligned_window_accepts_replay_witness:
  "\<exists>k<48. rd_run [(1, True), (of_nat (1 + k), True), (1, True)] (Wrapped (wrapped_detector_new 48 65535)) =
    Ok [True, True, True]"
  by (rule misaligned_window_accepts_replay) simp_all

end
