(* ===== verification/Rtp_Header.thy ===== *)
theory Rtp_Header
  imports Rtc_Prelude
begin

text \<open>RTP headers and packets (\<open>rtc-rtp/src/header.rs\<close>, \<open>rtc-rtp/src/packet/mod.rs\<close>): parsing,
size computation, serialisation and the operations on header extensions. A parser returns
the value and the rest of the buffer; a serialiser writes into a buffer of \<open>cap\<close> bytes and
returns what it has written. The theory shows the round trips, that the operations on
extensions keep a header well formed, and where parsing and serialisation disagree.\<close>

section \<open>Data\<close>

definition RTP_HEADER_LENGTH :: nat where "RTP_HEADER_LENGTH = 4"
definition VERSION_SHIFT :: nat where "VERSION_SHIFT = 6"
definition VERSION_MASK :: u8 where "VERSION_MASK = 0x3"
definition PADDING_SHIFT :: nat where "PADDING_SHIFT = 5"
definition PADDING_MASK :: u8 where "PADDING_MASK = 0x1"
definition EXTENSION_SHIFT :: nat where "EXTENSION_SHIFT = 4"
definition EXTENSION_MASK :: u8 where "EXTENSION_MASK = 0x1"
definition EXTENSION_PROFILE_ONE_BYTE :: u16 where "EXTENSION_PROFILE_ONE_BYTE = 0xBEDE"
definition EXTENSION_PROFILE_TWO_BYTE :: u16 where "EXTENSION_PROFILE_TWO_BYTE = 0x1000"
definition EXTENSION_ID_RESERVED :: u8 where "EXTENSION_ID_RESERVED = 0xF"
definition CC_MASK :: u8 where "CC_MASK = 0xF"
definition MARKER_SHIFT :: nat where "MARKER_SHIFT = 7"
definition MARKER_MASK :: u8 where "MARKER_MASK = 0x1"
definition PT_MASK :: u8 where "PT_MASK = 0x7F"
definition CSRC_OFFSET :: nat where "CSRC_OFFSET = 12"
definition CSRC_LENGTH :: nat where "CSRC_LENGTH = 4"

lemmas rtp_consts = RTP_HEADER_LENGTH_def VERSION_SHIFT_def VERSION_MASK_def PADDING_SHIFT_def
  PADDING_MASK_def EXTENSION_SHIFT_def EXTENSION_MASK_def EXTENSION_ID_RESERVED_def CC_MASK_def
  MARKER_SHIFT_def MARKER_MASK_def PT_MASK_def CSRC_OFFSET_def CSRC_LENGTH_def

record extension =
  ex_id :: u8
  ex_payload :: bytes

record rtp_header =
  rh_version :: u8
  rh_padding :: bool
  rh_extension :: bool
  rh_marker :: bool
  rh_payload_type :: u8
  rh_sequence_number :: u16
  rh_timestamp :: u32
  rh_ssrc :: u32
  rh_csrc :: "u32 list"
  rh_extension_profile :: u16
  rh_extensions :: "extension list"
  rh_extensions_padding :: nat

section \<open>Parsing\<close>

text \<open>\<open>Buf::copy_to_bytes\<close> and indexing of a byte buffer panic out of range.\<close>

definition copy_to_bytes :: "nat \<Rightarrow> bytes \<Rightarrow> (bytes \<times> bytes) result" where
  "copy_to_bytes n r = (if n > length r then panic else Ok (take n r, drop n r))"

definition byte_at :: "bytes \<Rightarrow> nat \<Rightarrow> u8 result" where
  "byte_at b i = (if i < length b then Ok (b ! i) else panic)"

lemma copy_to_bytes_append [codec_simps]: "n = length a \<Longrightarrow> copy_to_bytes n (a @ r) = Ok (a, r)"
  by (simp add: copy_to_bytes_def)

lemma copy_to_bytes_ok: "n \<le> length r \<Longrightarrow> copy_to_bytes n r = Ok (take n r, drop n r)"
  by (simp add: copy_to_bytes_def)

text \<open>The loops over one-byte and two-byte extension elements: \<open>c\<close> is the current offset, \<open>e\<close>
the end of the block, \<open>r\<close> the unread bytes, \<open>p\<close> the padding seen.\<close>

function one_byte_loop ::
    "nat \<Rightarrow> nat \<Rightarrow> bytes \<Rightarrow> nat \<Rightarrow> extension list \<Rightarrow> (extension list \<times> nat \<times> bytes) result" where
  "one_byte_loop c e r p xs =
    (if e \<le> c then Ok (xs, p, r)
     else
       and_then (get_u8 r) (\<lambda>(b, r).
       if b = 0 then one_byte_loop (c + 1) e r (p + 1) xs
       else
         let extid = drop_bit 4 b; len = unat ((b AND (0xFF XOR 0xF0)) + 1) in
         if extid = EXTENSION_ID_RESERVED then Ok (xs, p, r)
         else guard (len > length r) (Media ErrHeaderSizeInsufficientForExtension)
                (and_then (copy_to_bytes len r) (\<lambda>(payload, r).
                 one_byte_loop (c + 1 + len) e r p (xs @ [\<lparr>ex_id = extid, ex_payload = payload\<rparr>])))))"
  by auto
termination by (relation "measure (\<lambda>(c, e, _). e - c)") auto

function two_byte_loop ::
    "nat \<Rightarrow> nat \<Rightarrow> bytes \<Rightarrow> nat \<Rightarrow> extension list \<Rightarrow> (extension list \<times> nat \<times> bytes) result" where
  "two_byte_loop c e r p xs =
    (if e \<le> c then Ok (xs, p, r)
     else
       and_then (get_u8 r) (\<lambda>(b, r).
       if b = 0 then two_byte_loop (c + 1) e r (p + 1) xs
       else
         guard (c + 1 \<ge> e) (Media ErrHeaderSizeInsufficientForExtension)
        (and_then (get_u8 r) (\<lambda>(l, r).
         let len = unat l in
         guard (len > length r) (Media ErrHeaderSizeInsufficientForExtension)
        (and_then (copy_to_bytes len r) (\<lambda>(payload, r).
         two_byte_loop (c + 2 + len) e r p (xs @ [\<lparr>ex_id = b, ex_payload = payload\<rparr>])))))))"
  by auto
termination by (relation "measure (\<lambda>(c, e, _). e - c)") auto

declare one_byte_loop.simps [simp del] two_byte_loop.simps [simp del]

text \<open>The extension block, after the CSRC list; \<open>raw_len\<close> is the length of the packet.\<close>

definition extensions_unmarshal ::
    "nat \<Rightarrow> nat \<Rightarrow> bytes \<Rightarrow> (u16 \<times> extension list \<times> nat \<times> bytes) result" where
  "extensions_unmarshal raw_len curr_offset r =
     guard (raw_len < curr_offset + 4) (Media ErrHeaderSizeInsufficientForExtension)
    (and_then (get_u16 r) (\<lambda>(profile, r).
     and_then (get_u16 r) (\<lambda>(words, r).
     let extension_length = unat words * 4; curr_offset = curr_offset + 4 in
     guard (raw_len < curr_offset + extension_length) (Media ErrHeaderSizeInsufficientForExtension)
    (if profile = EXTENSION_PROFILE_ONE_BYTE then
       and_then (one_byte_loop curr_offset (curr_offset + extension_length) r 0 [])
         (\<lambda>(xs, p, r). Ok (profile, xs, p, r))
     else if profile = EXTENSION_PROFILE_TWO_BYTE then
       and_then (two_byte_loop curr_offset (curr_offset + extension_length) r 0 [])
         (\<lambda>(xs, p, r). Ok (profile, xs, p, r))
     else
       guard (raw_len < curr_offset + extension_length) (Media ErrHeaderSizeInsufficientForExtension)
         (and_then (copy_to_bytes extension_length r) (\<lambda>(payload, r).
          Ok (profile, [\<lparr>ex_id = 0, ex_payload = payload\<rparr>], 0, r)))))))"

definition rtp_header_unmarshal :: "bytes \<Rightarrow> (rtp_header \<times> bytes) result" where
  "rtp_header_unmarshal raw =
     guard (length raw < RTP_HEADER_LENGTH) (Media ErrHeaderSizeInsufficient)
    (and_then (get_u8 raw) (\<lambda>(b0, r).
     let cc = unat (b0 AND CC_MASK); curr_offset = CSRC_OFFSET + cc * CSRC_LENGTH;
         extension = drop_bit EXTENSION_SHIFT b0 AND EXTENSION_MASK > 0 in
     guard (length raw < curr_offset) (Media ErrHeaderSizeInsufficient)
    (and_then (get_u8 r) (\<lambda>(b1, r).
     and_then (get_u16 r) (\<lambda>(sequence_number, r).
     and_then (get_u32 r) (\<lambda>(timestamp, r).
     and_then (get_u32 r) (\<lambda>(ssrc, r).
     and_then (get_u32s cc r) (\<lambda>(csrc, r).
     and_then (if extension then extensions_unmarshal (length raw) curr_offset r else Ok (0, [], 0, r))
       (\<lambda>(profile, xs, p, r).
     Ok (\<lparr>rh_version = drop_bit VERSION_SHIFT b0 AND VERSION_MASK,
          rh_padding = drop_bit PADDING_SHIFT b0 AND PADDING_MASK > 0,
          rh_extension = extension,
          rh_marker = drop_bit MARKER_SHIFT b1 AND MARKER_MASK > 0,
          rh_payload_type = b1 AND PT_MASK,
          rh_sequence_number = sequence_number, rh_timestamp = timestamp, rh_ssrc = ssrc, rh_csrc = csrc,
          rh_extension_profile = profile, rh_extensions = xs, rh_extensions_padding = p\<rparr>, r))))))))))"

section \<open>Size and serialisation\<close>

definition profile_len :: "u16 \<Rightarrow> nat" where
  "profile_len profile =
    (if profile = EXTENSION_PROFILE_ONE_BYTE then 1 else if profile = EXTENSION_PROFILE_TWO_BYTE then 2 else 0)"

definition get_extension_payload_len :: "rtp_header \<Rightarrow> nat" where
  "get_extension_payload_len h =
     sum_list (map (length \<circ> ex_payload) (rh_extensions h)) +
     length (rh_extensions h) * profile_len (rh_extension_profile h)"

definition marshal_size_for :: "rtp_header \<Rightarrow> nat \<Rightarrow> nat" where
  "marshal_size_for h extension_payload_len =
     12 + length (rh_csrc h) * CSRC_LENGTH +
     (if rh_extension h then 4 + (extension_payload_len + rh_extensions_padding h + 3) div 4 * 4 else 0)"

definition rtp_header_marshal_size :: "rtp_header \<Rightarrow> nat" where
  "rtp_header_marshal_size h =
     marshal_size_for h (if rh_extension h then get_extension_payload_len h else 0)"

definition one_byte_element :: "extension \<Rightarrow> bytes" where
  "one_byte_element x = (push_bit 4 (ex_id x) OR (of_nat (length (ex_payload x)) - 1)) # ex_payload x"

definition two_byte_element :: "extension \<Rightarrow> bytes" where
  "two_byte_element x = ex_id x # of_nat (length (ex_payload x)) # ex_payload x"

definition extensions_marshal :: "rtp_header \<Rightarrow> nat \<Rightarrow> bytes result" where
  "extensions_marshal h extension_payload_len =
    (let profile = rh_extension_profile h;
         size = (unat (of_nat extension_payload_len :: u16) + 3) div 4;
         pad = replicate (size * 4 - extension_payload_len) 0;
         head = be16 profile @ be16 (of_nat size) in
     if profile = EXTENSION_PROFILE_ONE_BYTE
     then Ok (head @ concat (map one_byte_element (rh_extensions h)) @ pad)
     else if profile = EXTENSION_PROFILE_TWO_BYTE
     then Ok (head @ concat (map two_byte_element (rh_extensions h)) @ pad)
     else
       guard (extension_payload_len mod 4 \<noteq> 0) (Media HeaderExtensionPayloadNot32BitWords)
      (guard (length (rh_extensions h) \<noteq> 1) (Media ErrRfc3550headerIdrange)
      (guard (length (ex_payload (hd (rh_extensions h))) mod 4 \<noteq> 0) (Media HeaderExtensionPayloadNot32BitWords)
         (Ok (head @ ex_payload (hd (rh_extensions h)) @ pad)))))"

text \<open>A write past the end of the buffer panics.\<close>

definition rtp_header_marshal_to :: "nat \<Rightarrow> rtp_header \<Rightarrow> bytes result" where
  "rtp_header_marshal_to cap h =
    (let extension_payload_len = (if rh_extension h then get_extension_payload_len h else 0) in
     guard (cap < marshal_size_for h extension_payload_len) (Media ErrBufferTooSmall)
    (let b0 = push_bit VERSION_SHIFT (rh_version h) OR of_nat (length (rh_csrc h));
         b0 = (if rh_padding h then b0 OR push_bit PADDING_SHIFT 1 else b0);
         b0 = (if rh_extension h then b0 OR push_bit EXTENSION_SHIFT 1 else b0);
         b1 = rh_payload_type h;
         b1 = (if rh_marker h then b1 OR push_bit MARKER_SHIFT 1 else b1);
         fixed = b0 # b1 # be16 (rh_sequence_number h) @ be32 (rh_timestamp h) @ be32 (rh_ssrc h) @
           concat (map be32 (rh_csrc h)) in
     and_then (if rh_extension h then extensions_marshal h extension_payload_len else Ok []) (\<lambda>ext.
     if length (fixed @ ext) > cap then panic else Ok (fixed @ ext))))"

text \<open>The provided method \<open>Marshal::marshal\<close>.\<close>

definition marshal_exact :: "nat \<Rightarrow> (nat \<Rightarrow> bytes result) \<Rightarrow> bytes result" where
  "marshal_exact l marshal_to =
     and_then (marshal_to l) (\<lambda>buf. if length buf \<noteq> l then Fail (Media Other) else Ok buf)"

definition rtp_header_marshal :: "rtp_header \<Rightarrow> bytes result" where
  "rtp_header_marshal h = marshal_exact (rtp_header_marshal_size h) (\<lambda>cap. rtp_header_marshal_to cap h)"

section \<open>Extensions\<close>

text \<open>Replaces the payload of the first extension with the id.\<close>

fun replace_first :: "u8 \<Rightarrow> bytes \<Rightarrow> extension list \<Rightarrow> extension list" where
  "replace_first extid payload [] = []"
| "replace_first extid payload (x # xs) =
    (if ex_id x = extid then x\<lparr>ex_payload := payload\<rparr> # xs else x # replace_first extid payload xs)"

fun remove_first :: "u8 \<Rightarrow> extension list \<Rightarrow> extension list" where
  "remove_first extid [] = []"
| "remove_first extid (x # xs) = (if ex_id x = extid then xs else x # remove_first extid xs)"

definition take_padding :: "nat \<Rightarrow> nat \<Rightarrow> nat" where
  "take_padding padding extension_padding =
    (if padding < extension_padding then padding + 4 - extension_padding else padding - extension_padding)"

text \<open>Adding or replacing an extension of a header that has some.\<close>

definition update_extension :: "u8 \<Rightarrow> bytes \<Rightarrow> rtp_header \<Rightarrow> rtp_header" where
  "update_extension extid payload h =
    (let p = rh_extensions_padding h in
     case find (\<lambda>x. ex_id x = extid) (rh_extensions h) of
       Some x \<Rightarrow>
         let delta = int (length payload) - int (length (ex_payload x)) in
         h\<lparr>rh_extensions := replace_first extid payload (rh_extensions h),
           rh_extensions_padding :=
             (if delta < 0 then nat ((int p - delta) mod 4)
              else if delta > 0 then take_padding p (nat (delta mod 4)) else p)\<rparr>
     | None \<Rightarrow>
         let delta = length payload + profile_len (rh_extension_profile h) in
         h\<lparr>rh_extensions := rh_extensions h @ [\<lparr>ex_id = extid, ex_payload = payload\<rparr>],
           rh_extensions_padding := (if delta > 0 then take_padding p (delta mod 4) else p)\<rparr>)"

definition set_extension :: "u8 \<Rightarrow> bytes \<Rightarrow> rtp_header \<Rightarrow> unit result \<times> rtp_header" where
  "set_extension extid payload h =
    (let payload_len = length payload; profile = rh_extension_profile h in
     if rh_extension h then
       if profile = EXTENSION_PROFILE_ONE_BYTE then
         if \<not> (1 \<le> extid \<and> extid \<le> 14) then (Fail (Media ErrRfc8285oneByteHeaderIdrange), h)
         else if payload_len > 16 then (Fail (Media ErrRfc8285oneByteHeaderSize), h)
         else (Ok (), update_extension extid payload h)
       else if profile = EXTENSION_PROFILE_TWO_BYTE then
         if extid < 1 then (Fail (Media ErrRfc8285twoByteHeaderIdrange), h)
         else if payload_len > 255 then (Fail (Media ErrRfc8285twoByteHeaderSize), h)
         else (Ok (), update_extension extid payload h)
       else if extid \<noteq> 0 then (Fail (Media ErrRfc3550headerIdrange), h)
       else (Ok (), update_extension extid payload h)
     else
       let (plen, profile) =
             (if payload_len \<le> 16 then (1, EXTENSION_PROFILE_ONE_BYTE)
              else if payload_len \<le> 255 then (2, EXTENSION_PROFILE_TWO_BYTE)
              else (0, profile))
       in (Ok (), h\<lparr>rh_extension := True, rh_extension_profile := profile,
                    rh_extensions_padding := take_padding (rh_extensions_padding h) ((payload_len + plen) mod 4),
                    rh_extensions := rh_extensions h @ [\<lparr>ex_id = extid, ex_payload = payload\<rparr>]\<rparr>))"

definition get_extension_ids :: "rtp_header \<Rightarrow> u8 list" where
  "get_extension_ids h = (if rh_extension h then map ex_id (rh_extensions h) else [])"

definition get_extension :: "u8 \<Rightarrow> rtp_header \<Rightarrow> bytes option" where
  "get_extension extid h =
    (if rh_extension h then map_option ex_payload (find (\<lambda>x. ex_id x = extid) (rh_extensions h)) else None)"

definition del_extension :: "u8 \<Rightarrow> rtp_header \<Rightarrow> unit result \<times> rtp_header" where
  "del_extension extid h =
    (if rh_extension h then
       case find (\<lambda>x. ex_id x = extid) (rh_extensions h) of
         Some x \<Rightarrow>
           (Ok (), h\<lparr>rh_extensions := remove_first extid (rh_extensions h),
                     rh_extensions_padding := (rh_extensions_padding h +
                       (length (ex_payload x) + profile_len (rh_extension_profile h)) mod 4) mod 4\<rparr>)
       | None \<Rightarrow> (Fail (Media ErrHeaderExtensionNotFound), h)
     else (Fail (Media ErrHeaderExtensionsNotEnabled), h))"

section \<open>Packets\<close>

record rtp_packet =
  rp_header :: rtp_header
  rp_payload :: bytes

text \<open>The end of the slice wraps around when the padding is longer than the payload, and the slice
panics then.\<close>

definition rtp_packet_unmarshal :: "bytes \<Rightarrow> rtp_packet result" where
  "rtp_packet_unmarshal raw =
     and_then (rtp_header_unmarshal raw) (\<lambda>(header, r).
     and_then (copy_to_bytes (length r) r) (\<lambda>(payload, _).
     let payload_len = length r in
     if rh_padding header then
       guard (payload_len = 0) (Media ErrShortPacket)
      (and_then (byte_at payload (payload_len - 1)) (\<lambda>b.
       let padding_len = unat b in
       guard (padding_len > payload_len) (Media ErrShortPacket)
      (and_then (if padding_len > payload_len then panic else slice payload 0 (payload_len - padding_len)) (\<lambda>payload.
       Ok \<lparr>rp_header = header, rp_payload = payload\<rparr>))))
     else Ok \<lparr>rp_header = header, rp_payload = payload\<rparr>))"

definition get_padding :: "nat \<Rightarrow> nat" where
  "get_padding len = (if len mod 4 = 0 then 0 else 4 - len mod 4)"

definition packet_padding :: "rtp_packet \<Rightarrow> nat" where
  "packet_padding pkt =
    (if rh_padding (rp_header pkt)
     then let padding_len = get_padding (length (rp_payload pkt)) in if padding_len = 0 then 4 else padding_len
     else 0)"

definition rtp_packet_marshal_size :: "rtp_packet \<Rightarrow> nat" where
  "rtp_packet_marshal_size pkt =
     rtp_header_marshal_size (rp_header pkt) + length (rp_payload pkt) + packet_padding pkt"

definition rtp_packet_marshal_to :: "nat \<Rightarrow> rtp_packet \<Rightarrow> bytes result" where
  "rtp_packet_marshal_to cap pkt =
     guard (cap < rtp_packet_marshal_size pkt) (Media ErrBufferTooSmall)
    (and_then (rtp_header_marshal_to cap (rp_header pkt)) (\<lambda>head.
     let padding_len = packet_padding pkt;
         pad = (if rh_padding (rp_header pkt) then replicate (padding_len - 1) 0 @ [of_nat padding_len] else []);
         out = head @ rp_payload pkt @ pad in
     if length out > cap then panic else Ok out))"

definition rtp_packet_marshal :: "rtp_packet \<Rightarrow> bytes result" where
  "rtp_packet_marshal pkt =
     marshal_exact (rtp_packet_marshal_size pkt) (\<lambda>cap. rtp_packet_marshal_to cap pkt)"

section \<open>Bits of the first two bytes\<close>

lemma bit_flag: "drop_bit k (w :: u8) AND 1 > 0 \<longleftrightarrow> bit w k"
  by (simp add: and_one_eq bit_iff_odd_drop_bit word_gt_0 odd_iff_mod_2_eq_one)

lemma small_bits:
  assumes "(w :: u8) < 2 ^ k" "k < 8" "bit w i"
  shows "i < k"
proof (rule ccontr)
  assume "\<not> i < k"
  moreover have "unat w < 2 ^ k"
  proof -
    have "(2 ^ k :: u8) = of_nat (2 ^ k)" by simp
    then have "unat (2 ^ k :: u8) = 2 ^ k"
      using power_strict_increasing [of k 8 "2 :: nat"] assms(2)
      by (simp only: unsigned_of_nat) (simp add: take_bit_nat_eq_self)
    then show ?thesis using assms(1) by (simp add: word_less_nat_alt)
  qed
  ultimately have "unat w < 2 ^ i" by (meson le_less_trans less_le_trans not_less one_le_numeral power_increasing)
  moreover have "bit (unat w) i" using assms(3) by (simp add: bit_unsigned_iff)
  ultimately show False by (simp add: bit_iff_odd)
qed

definition flag :: "nat \<Rightarrow> bool \<Rightarrow> u8" where
  "flag k b = (if b then push_bit k 1 else 0)"

lemma bit_flag_iff: "k < 8 \<Longrightarrow> bit (flag k b) i \<longleftrightarrow> b \<and> i = k"
  by (auto simp: flag_def bit_simps)

lemma first_byte:
  fixes v n :: u8 and p x :: bool
  assumes "v < 4" "n < 16"
  defines "b0 \<equiv> push_bit 6 v OR n OR flag 5 p OR flag 4 x"
  shows "drop_bit 6 b0 AND 3 = v" "bit b0 5 = p" "bit b0 4 = x" "b0 AND 15 = n"
proof -
  have v: "bit v i \<Longrightarrow> i < 2" and n: "bit n i \<Longrightarrow> i < 4" for i
    using assms small_bits [of v 2] small_bits [of n 4] by auto
  have m: "(3 :: u8) = mask 2" "(15 :: u8) = mask 4" by (simp_all add: mask_eq_exp_minus_1)
  show "drop_bit 6 b0 AND 3 = v"
    unfolding m b0_def
    by (rule bit_word_eqI) (use v n in \<open>auto simp: bit_simps bit_flag_iff dest: v n\<close>)
  show "b0 AND 15 = n"
    unfolding m b0_def
    by (rule bit_word_eqI) (use v n in \<open>auto simp: bit_simps bit_flag_iff dest: v n\<close>)
  show "bit b0 5 = p" "bit b0 4 = x"
    unfolding b0_def using n [of 5] n [of 4] by (auto simp: bit_simps bit_flag_iff)
qed

lemma second_byte:
  fixes t :: u8
  assumes "t < 128"
  shows "bit (t OR flag 7 m) 7 = m" "(t OR flag 7 m) AND 127 = t"
proof -
  have t: "bit t i \<Longrightarrow> i < 7" for i using assms small_bits [of t 7] by auto
  have k: "(127 :: u8) = mask 7" by (simp add: mask_eq_exp_minus_1)
  show "bit (t OR flag 7 m) 7 = m" using t [of 7] by (auto simp: bit_simps bit_flag_iff)
  show "(t OR flag 7 m) AND 127 = t"
    unfolding k by (rule bit_word_eqI) (auto simp: bit_simps bit_flag_iff dest: t)
qed

lemma element_byte:
  fixes i l :: u8
  assumes "1 \<le> i" "i \<le> 14" "l < 16"
  shows "push_bit 4 i OR l \<noteq> 0" "drop_bit 4 (push_bit 4 i OR l) = i" "(push_bit 4 i OR l) AND 15 = l"
proof -
  have "i < 2 ^ 4" using assms(2) by (simp add: word_le_nat_alt word_less_nat_alt)
  then have i: "bit i k \<Longrightarrow> k < 4" and l: "bit l k \<Longrightarrow> k < 4" for k
    using small_bits [of i 4] small_bits [of l 4] assms(3) by auto
  have k: "(15 :: u8) = mask 4" by (simp add: mask_eq_exp_minus_1)
  show d: "drop_bit 4 (push_bit 4 i OR l) = i"
    by (rule bit_word_eqI) (auto simp: bit_simps dest: i l)
  show "push_bit 4 i OR l \<noteq> 0"
  proof
    assume "push_bit 4 i OR l = 0"
    then have "i = 0" using d by (metis drop_bit_of_0)
    then show False using assms(1) by simp
  qed
  show "(push_bit 4 i OR l) AND 15 = l"
    unfolding k by (rule bit_word_eqI) (auto simp: bit_simps dest: i l)
qed

section \<open>Well-formed headers\<close>

definition wf_one_byte :: "extension \<Rightarrow> bool" where
  "wf_one_byte x \<longleftrightarrow> 1 \<le> ex_id x \<and> ex_id x \<le> 14 \<and> 1 \<le> length (ex_payload x) \<and> length (ex_payload x) \<le> 16"

definition wf_two_byte :: "extension \<Rightarrow> bool" where
  "wf_two_byte x \<longleftrightarrow> ex_id x \<noteq> 0 \<and> length (ex_payload x) \<le> 255"

text \<open>The padding that \<open>set_extension\<close> and \<open>del_extension\<close> keep track of is what is missing to
the next 32-bit word.\<close>

definition wf_extensions :: "rtp_header \<Rightarrow> bool" where
  "wf_extensions h \<longleftrightarrow>
     get_extension_payload_len h < 65536 \<and> rh_extensions_padding h = get_padding (get_extension_payload_len h) \<and>
     (if rh_extension_profile h = EXTENSION_PROFILE_ONE_BYTE then \<forall>x\<in>set (rh_extensions h). wf_one_byte x
      else if rh_extension_profile h = EXTENSION_PROFILE_TWO_BYTE then \<forall>x\<in>set (rh_extensions h). wf_two_byte x
      else \<exists>d. rh_extensions h = [\<lparr>ex_id = 0, ex_payload = d\<rparr>] \<and> length d mod 4 = 0)"

definition wf_rtp_header :: "rtp_header \<Rightarrow> bool" where
  "wf_rtp_header h \<longleftrightarrow>
     rh_version h < 4 \<and> rh_payload_type h < 128 \<and> length (rh_csrc h) < 16 \<and>
     (if rh_extension h then wf_extensions h
      else rh_extension_profile h = 0 \<and> rh_extensions h = [] \<and> rh_extensions_padding h = 0)"

lemma round_up_words: "(n + 3) div 4 * 4 = n + get_padding n"
  unfolding get_padding_def by (cases "n mod 4 = 0") (auto, presburger+)

lemma get_padding_mod: "(n + get_padding n) mod 4 = 0" and get_padding_less: "get_padding n < 4"
  unfolding get_padding_def by (auto, presburger+)

lemma unat_of_nat_u8: "n < 256 \<Longrightarrow> unat (of_nat n :: u8) = n"
  by (simp add: unsigned_of_nat take_bit_nat_eq_self)

lemma extension_eta [simp]: "\<lparr>ex_id = ex_id x, ex_payload = ex_payload x\<rparr> = (x :: extension)"
  by simp

lemma one_byte_loop_padding:
  "one_byte_loop c (c + q) (replicate q 0 @ rest) p acc = Ok (acc, p + q, rest)"
proof (induction q arbitrary: c p)
  case (Suc q)
  show ?case using Suc.IH [of "c + 1" "p + 1"] by (subst one_byte_loop.simps) simp
qed (subst one_byte_loop.simps, simp)

lemma one_byte_loop_elements:
  assumes "\<forall>x\<in>set xs. wf_one_byte x"
  shows "one_byte_loop c (c + length (concat (map one_byte_element xs)) + q)
      (concat (map one_byte_element xs) @ replicate q 0 @ rest) p acc = Ok (acc @ xs, p + q, rest)"
  using assms
proof (induction xs arbitrary: c acc)
  case Nil
  then show ?case by (simp add: one_byte_loop_padding)
next
  case (Cons x xs)
  let ?l = "length (ex_payload x)" and ?b = "push_bit 4 (ex_id x) OR (of_nat (length (ex_payload x)) - 1 :: u8)"
  have x: "1 \<le> ex_id x" "ex_id x \<le> 14" "1 \<le> ?l" "?l \<le> 16" using Cons.prems by (simp_all add: wf_one_byte_def)
  obtain n where n: "?l = Suc n" using x(3) by (cases ?l) auto
  have l: "of_nat ?l - 1 < (16 :: u8)"
    unfolding n using x(4) n by (simp add: word_less_nat_alt unat_of_nat_u8)
  note b = element_byte [OF x(1,2) l]
  have len: "unat ((?b AND (0xFF XOR 0xF0)) + 1) = ?l"
  proof -
    have "(0xFF XOR 0xF0 :: u8) = 15" by simp
    then have "(?b AND (0xFF XOR 0xF0)) + 1 = of_nat ?l" using b(3) by simp
    then show ?thesis using x(4) by (simp add: unat_of_nat_u8)
  qed
  have res: "ex_id x \<noteq> EXTENSION_ID_RESERVED" using x(2) by (auto simp: EXTENSION_ID_RESERVED_def)
  have IH: "one_byte_loop (c + 1 + ?l) (c + 1 + ?l + length (concat (map one_byte_element xs)) + q)
      (concat (map one_byte_element xs) @ replicate q 0 @ rest) p (acc @ [x]) = Ok ((acc @ [x]) @ xs, p + q, rest)"
    using Cons.IH [of "c + 1 + ?l" "acc @ [x]"] Cons.prems by simp
  show ?case
    by (subst one_byte_loop.simps)
      (use IH b(1,2) len res in \<open>simp add: one_byte_element_def guard_def Let_def copy_to_bytes_ok ac_simps\<close>)
qed

lemma two_byte_loop_padding:
  "two_byte_loop c (c + q) (replicate q 0 @ rest) p acc = Ok (acc, p + q, rest)"
proof (induction q arbitrary: c p)
  case (Suc q)
  show ?case using Suc.IH [of "c + 1" "p + 1"] by (subst two_byte_loop.simps) simp
qed (subst two_byte_loop.simps, simp)

lemma two_byte_loop_elements:
  assumes "\<forall>x\<in>set xs. wf_two_byte x"
  shows "two_byte_loop c (c + length (concat (map two_byte_element xs)) + q)
      (concat (map two_byte_element xs) @ replicate q 0 @ rest) p acc = Ok (acc @ xs, p + q, rest)"
  using assms
proof (induction xs arbitrary: c acc)
  case Nil
  then show ?case by (simp add: two_byte_loop_padding)
next
  case (Cons x xs)
  let ?l = "length (ex_payload x)"
  have x: "ex_id x \<noteq> 0" "unat (of_nat ?l :: u8) = ?l" using Cons.prems by (simp_all add: wf_two_byte_def unat_of_nat_u8)
  have IH: "two_byte_loop (c + 2 + ?l) (c + 2 + ?l + length (concat (map two_byte_element xs)) + q)
      (concat (map two_byte_element xs) @ replicate q 0 @ rest) p (acc @ [x]) = Ok ((acc @ [x]) @ xs, p + q, rest)"
    using Cons.IH [of "c + 2 + ?l" "acc @ [x]"] Cons.prems by simp
  show ?case
    by (subst two_byte_loop.simps)
      (use IH x in \<open>simp add: two_byte_element_def guard_def Let_def copy_to_bytes_ok ac_simps\<close>)
qed

lemma length_elements:
  "length (concat (map one_byte_element xs)) = sum_list (map (length \<circ> ex_payload) xs) + length xs"
  "length (concat (map two_byte_element xs)) = sum_list (map (length \<circ> ex_payload) xs) + length xs * 2"
  by (induction xs) (simp_all add: one_byte_element_def two_byte_element_def)

lemma one_two_distinct: "EXTENSION_PROFILE_ONE_BYTE \<noteq> EXTENSION_PROFILE_TWO_BYTE"
  by (simp add: EXTENSION_PROFILE_ONE_BYTE_def EXTENSION_PROFILE_TWO_BYTE_def)

text \<open>The extension block survives, whatever follows.\<close>

lemma extensions_roundtrip:
  assumes wf: "wf_extensions h"
  defines "L \<equiv> get_extension_payload_len h"
  shows "\<exists>ext. extensions_marshal h L = Ok ext \<and> length ext = 4 + L + get_padding L \<and>
    (\<forall>raw_len c rest. c + length ext \<le> raw_len \<longrightarrow> extensions_unmarshal raw_len c (ext @ rest) =
      Ok (rh_extension_profile h, rh_extensions h, rh_extensions_padding h, rest))"
proof -
  let ?p = "rh_extension_profile h" and ?xs = "rh_extensions h" and ?q = "get_padding L"
  define size where "size = (L + 3) div 4"
  define body where "body = (if ?p = EXTENSION_PROFILE_ONE_BYTE then concat (map one_byte_element ?xs)
    else if ?p = EXTENSION_PROFILE_TWO_BYTE then concat (map two_byte_element ?xs)
    else ex_payload (hd ?xs))"
  have L: "L < 65536" and pad: "rh_extensions_padding h = ?q" using wf by (simp_all add: wf_extensions_def L_def)
  have size: "size * 4 = L + ?q" "unat (of_nat L :: u16) = L" "unat (of_nat size :: u16) = size"
    using L round_up_words [of L] by (auto simp: size_def unat_of_nat_u16)
  have len: "length body = L"
    using wf by (auto simp: body_def L_def wf_extensions_def get_extension_payload_len_def profile_len_def
      length_elements one_two_distinct split: if_splits)
  define ext where "ext = be16 ?p @ be16 (of_nat size) @ body @ replicate ?q 0"
  have "extensions_marshal h L = Ok ext"
    using wf size len unfolding extensions_marshal_def Let_def size(2) size_def [symmetric]
    by (auto simp: ext_def body_def wf_extensions_def guard_def get_extension_payload_len_def profile_len_def
      L_def split: if_splits)
  moreover have length: "length ext = 4 + L + ?q" by (simp add: ext_def len codec_simps)
  moreover have "extensions_unmarshal raw_len c (ext @ rest) = Ok (?p, ?xs, ?q, rest)"
    if le: "c + length ext \<le> raw_len" for raw_len c rest
  proof -
    consider (one) "?p = EXTENSION_PROFILE_ONE_BYTE" | (two) "?p = EXTENSION_PROFILE_TWO_BYTE"
      | (other) "?p \<noteq> EXTENSION_PROFILE_ONE_BYTE" "?p \<noteq> EXTENSION_PROFILE_TWO_BYTE"
      by blast
    then show ?thesis
    proof cases
      case one
      have "one_byte_loop (c + 4) (c + 4 + (L + ?q)) (body @ replicate ?q 0 @ rest) 0 [] = Ok (?xs, ?q, rest)"
        using one_byte_loop_elements [of ?xs "c + 4" ?q rest 0 "[]"] wf one len
        by (simp add: body_def wf_extensions_def add.assoc)
      then show ?thesis using le one length size
        by (simp add: extensions_unmarshal_def ext_def codec_simps guard_def Let_def)
    next
      case two
      have "two_byte_loop (c + 4) (c + 4 + (L + ?q)) (body @ replicate ?q 0 @ rest) 0 [] = Ok (?xs, ?q, rest)"
        using two_byte_loop_elements [of ?xs "c + 4" ?q rest 0 "[]"] wf two len one_two_distinct
        by (simp add: body_def wf_extensions_def add.assoc)
      then show ?thesis using le two length size one_two_distinct
        by (simp add: extensions_unmarshal_def ext_def codec_simps guard_def Let_def)
    next
      case other
      then obtain d where d: "?xs = [\<lparr>ex_id = 0, ex_payload = d\<rparr>]" "length d mod 4 = 0"
        using wf by (auto simp: wf_extensions_def)
      then have "?q = 0" "body = d" using len other by (auto simp: body_def get_padding_def)
      then show ?thesis using le other length size len d
        by (simp add: extensions_unmarshal_def ext_def codec_simps guard_def Let_def)
    qed
  qed
  ultimately show ?thesis unfolding pad by (intro exI [of _ ext]) simp
qed

lemma flag_or: "(if b then w OR push_bit k 1 else w) = w OR flag k b"
  by (simp add: flag_def)

lemma rtp_header_roundtrip:
  assumes wf: "wf_rtp_header h" and cap: "rtp_header_marshal_size h \<le> cap"
  shows "\<exists>bs. rtp_header_marshal_to cap h = Ok bs \<and> length bs = rtp_header_marshal_size h \<and>
    (\<forall>rest. rtp_header_unmarshal (bs @ rest) = Ok (h, rest))"
proof -
  let ?L = "if rh_extension h then get_extension_payload_len h else 0" and ?n = "length (rh_csrc h)"
  have f: "rh_version h < 4" "rh_payload_type h < 128" "?n < 16" using wf by (simp_all add: wf_rtp_header_def)
  have n: "(of_nat ?n :: u8) < 16" "unat (of_nat ?n :: u8) = ?n" using f(3) by (simp_all add: word_less_nat_alt unat_of_nat_u8)
  obtain ext where ext: "(if rh_extension h then extensions_marshal h ?L else Ok []) = Ok ext"
      "length ext = (if rh_extension h then 4 + ?L + get_padding ?L else 0)"
      "\<And>raw_len c rest. c + length ext \<le> raw_len \<Longrightarrow>
        (if rh_extension h then extensions_unmarshal raw_len c (ext @ rest) else Ok (0, [], 0, ext @ rest)) =
        Ok (rh_extension_profile h, rh_extensions h, rh_extensions_padding h, rest)"
    using wf extensions_roundtrip [of h] by (cases "rh_extension h") (auto simp: wf_rtp_header_def)
  define b0 where "b0 = push_bit 6 (rh_version h) OR of_nat ?n OR flag 5 (rh_padding h) OR flag 4 (rh_extension h)"
  define b1 where "b1 = rh_payload_type h OR flag 7 (rh_marker h)"
  define bs where "bs = b0 # b1 # be16 (rh_sequence_number h) @ be32 (rh_timestamp h) @ be32 (rh_ssrc h) @
    concat (map be32 (rh_csrc h)) @ ext"
  have size: "rtp_header_marshal_size h = 12 + 4 * ?n + length ext"
  proof (cases "rh_extension h")
    case True
    then have "rh_extensions_padding h = get_padding ?L" using wf by (simp add: wf_rtp_header_def wf_extensions_def)
    moreover have "(?L + get_padding ?L + 3) div 4 * 4 = ?L + get_padding ?L"
      using round_up_words [of "?L + get_padding ?L"] get_padding_mod [of ?L] by (simp add: get_padding_def)
    ultimately show ?thesis using True ext(2)
      by (simp add: rtp_header_marshal_size_def marshal_size_for_def CSRC_LENGTH_def)
  next
    case False
    then show ?thesis using ext(2) by (simp add: rtp_header_marshal_size_def marshal_size_for_def CSRC_LENGTH_def)
  qed
  have len: "length bs = rtp_header_marshal_size h" by (simp add: bs_def size length_concat_be32)
  have "rtp_header_marshal_to cap h = Ok bs"
    using cap len ext(1)
    unfolding rtp_header_marshal_to_def Let_def rtp_header_marshal_size_def [symmetric] flag_or
    by (simp add: guard_def bs_def b0_def b1_def rtp_consts or.assoc)
  moreover have "rtp_header_unmarshal (bs @ rest) = Ok (h, rest)" for rest
  proof -
    note b = first_byte [OF f(1) n(1), of "rh_padding h" "rh_extension h", folded b0_def]
      second_byte [OF f(2), of "rh_marker h", folded b1_def]
    have cc: "unat (b0 AND 15) = ?n" using b(4) n(2) by simp
    have x: "(if rh_extension h then extensions_unmarshal (length (bs @ rest)) (12 + ?n * 4) (ext @ rest)
        else Ok (0, [], 0, ext @ rest)) = Ok (rh_extension_profile h, rh_extensions h, rh_extensions_padding h, rest)"
      by (rule ext(3)) (simp add: len size)
    have g: "get_u8 (bs @ rest) = Ok (b0, b1 # be16 (rh_sequence_number h) @ be32 (rh_timestamp h) @
        be32 (rh_ssrc h) @ concat (map be32 (rh_csrc h)) @ ext @ rest)"
      by (simp add: bs_def)
    show ?thesis
      unfolding rtp_header_unmarshal_def rtp_consts bit_flag
      using x b cc len size g
      by (cases "rh_extension h") (auto simp: guard_def Let_def codec_simps intro!: rtp_header.equality)
  qed
  ultimately show ?thesis using len by blast
qed

lemma rtp_packet_unmarshal_padded:
  assumes "rtp_header_unmarshal raw = Ok (h, r)" "rh_padding h" "r \<noteq> []" "unat (last r) \<le> length r"
  shows "rtp_packet_unmarshal raw = Ok \<lparr>rp_header = h, rp_payload = take (length r - unat (last r)) r\<rparr>"
  using assms by (simp add: rtp_packet_unmarshal_def guard_def Let_def copy_to_bytes_ok byte_at_def slice_def last_conv_nth)

lemma rtp_packet_roundtrip_to:
  assumes wf: "wf_rtp_header (rp_header pkt)" and cap: "rtp_packet_marshal_size pkt \<le> cap"
  shows "\<exists>bs. rtp_packet_marshal_to cap pkt = Ok bs \<and> length bs = rtp_packet_marshal_size pkt \<and>
    rtp_packet_unmarshal bs = Ok pkt"
proof -
  let ?h = "rp_header pkt" and ?d = "rp_payload pkt" and ?n = "packet_padding pkt"
  obtain head where head: "rtp_header_marshal_to cap ?h = Ok head" "length head = rtp_header_marshal_size ?h"
      "\<And>rest. rtp_header_unmarshal (head @ rest) = Ok (?h, rest)"
    using rtp_header_roundtrip [OF wf, of cap] cap by (auto simp: rtp_packet_marshal_size_def)
  define pad :: bytes where "pad = (if rh_padding ?h then replicate (?n - 1) 0 @ [of_nat ?n] else [])"
  have n: "rh_padding ?h \<Longrightarrow> 1 \<le> ?n \<and> ?n \<le> 4" "\<not> rh_padding ?h \<Longrightarrow> ?n = 0"
    using get_padding_less [of "length ?d"] by (simp_all add: packet_padding_def Let_def)
  have pad: "length pad = ?n" using n by (cases "rh_padding ?h") (auto simp: pad_def)
  have "rtp_packet_marshal_to cap pkt = Ok (head @ ?d @ pad)"
    using cap head pad by (simp add: rtp_packet_marshal_to_def rtp_packet_marshal_size_def guard_def Let_def pad_def)
  moreover have "rtp_packet_unmarshal (head @ ?d @ pad) = Ok pkt"
  proof (cases "rh_padding ?h")
    case True
    then have "last (?d @ pad) = of_nat ?n" "?d @ pad \<noteq> []" "unat (of_nat ?n :: u8) = ?n"
      using n by (simp_all add: pad_def unat_of_nat_u8)
    then show ?thesis using True pad n
      by (subst rtp_packet_unmarshal_padded [OF head(3) True]) simp_all
  next
    case False
    then show ?thesis by (simp add: rtp_packet_unmarshal_def head(3) pad_def copy_to_bytes_ok)
  qed
  ultimately show ?thesis using head pad by (intro exI [of _ "head @ ?d @ pad"]) (simp add: rtp_packet_marshal_size_def)
qed

text \<open>C11. Round trip of RTP packets: a packet with a well-formed header serialises to exactly the
size that \<open>marshal_size\<close> announces, with or without padding and header extensions, and parsing
the bytes gives back the packet.\<close>

theorem rtp_packet_roundtrip:
  assumes "wf_rtp_header (rp_header pkt)"
  shows "\<exists>bs. rtp_packet_marshal pkt = Ok bs \<and> length bs = rtp_packet_marshal_size pkt \<and>
    rtp_packet_unmarshal bs = Ok pkt"
  using rtp_packet_roundtrip_to [OF assms, of "rtp_packet_marshal_size pkt"]
  by (auto simp: rtp_packet_marshal_def marshal_exact_def)

definition rtp_sample :: rtp_packet where
  "rtp_sample = \<lparr>rp_header = \<lparr>rh_version = 2, rh_padding = True, rh_extension = True, rh_marker = True,
     rh_payload_type = 96, rh_sequence_number = 65535, rh_timestamp = 1, rh_ssrc = 7, rh_csrc = [5],
     rh_extension_profile = EXTENSION_PROFILE_ONE_BYTE,
     rh_extensions = [\<lparr>ex_id = 3, ex_payload = [1, 2]\<rparr>], rh_extensions_padding = 1\<rparr>,
     rp_payload = [9, 8, 7]\<rparr>"

theorem rtp_packet_roundtrip_witness:
  "\<exists>bs. rtp_packet_marshal rtp_sample = Ok bs \<and> length bs = rtp_packet_marshal_size rtp_sample \<and>
    rtp_packet_unmarshal bs = Ok rtp_sample"
  by (rule rtp_packet_roundtrip)
    (simp add: rtp_sample_def wf_rtp_header_def wf_extensions_def get_extension_payload_len_def
      profile_len_def get_padding_def wf_one_byte_def)

section \<open>Operations on extensions\<close>

lemma find_replace_first:
  "find (\<lambda>x. ex_id x = i) xs = Some x \<Longrightarrow> find (\<lambda>x. ex_id x = i) (replace_first i d xs) = Some (x\<lparr>ex_payload := d\<rparr>)"
  "j \<noteq> i \<Longrightarrow> find (\<lambda>x. ex_id x = j) (replace_first i d xs) = find (\<lambda>x. ex_id x = j) xs"
  by (induction xs) auto

lemma find_append: "find P (xs @ ys) = (case find P xs of None \<Rightarrow> find P ys | Some x \<Rightarrow> Some x)"
  by (induction xs) auto

lemma set_replace_first: "set (replace_first i d xs) \<subseteq> set xs \<union> {x\<lparr>ex_payload := d\<rparr> | x. x \<in> set xs \<and> ex_id x = i}"
  by (induction xs) auto

lemma sum_replace_first:
  "find (\<lambda>x. ex_id x = i) xs = Some x \<Longrightarrow>
    int (sum_list (map (length \<circ> ex_payload) (replace_first i d xs))) =
      int (sum_list (map (length \<circ> ex_payload) xs)) + (int (length d) - int (length (ex_payload x))) \<and>
    length (replace_first i d xs) = length xs"
  by (induction xs) (auto split: if_splits)

lemma sum_remove_first:
  "find (\<lambda>x. ex_id x = i) xs = Some x \<Longrightarrow>
    sum_list (map (length \<circ> ex_payload) xs) =
      sum_list (map (length \<circ> ex_payload) (remove_first i xs)) + length (ex_payload x) \<and>
    length xs = Suc (length (remove_first i xs)) \<and> set (remove_first i xs) \<subseteq> set xs"
  by (induction xs) (auto split: if_splits)

text \<open>The padding arithmetic of \<open>set_extension\<close>.\<close>

lemma mod4_cases:
  fixes n :: nat
  obtains "n mod 4 = 0" | "n mod 4 = 1" | "n mod 4 = 2" | "n mod 4 = 3"
  using mod_less_divisor [of 4 n] by linarith

lemma mod4_add: "(n + d) mod 4 = (n mod 4 + d mod 4) mod (4 :: nat)"
  by (simp add: mod_add_eq)

lemma padding_grow: "take_padding (get_padding n) (d mod 4) = get_padding (n + d)"
  unfolding take_padding_def get_padding_def using mod4_add [of n d]
  by (cases n rule: mod4_cases; cases d rule: mod4_cases) simp_all

lemma padding_remove: "(get_padding (n + d) + d mod 4) mod 4 = get_padding n"
  unfolding get_padding_def using mod4_add [of n d]
  by (cases n rule: mod4_cases; cases d rule: mod4_cases) simp_all

lemma padding_shrink: "nat ((int (get_padding (n + d)) + int d) mod 4) = get_padding n"
proof -
  have "(int (get_padding (n + d)) + int d) mod 4 = int ((get_padding (n + d) + d mod 4) mod 4)"
    by (simp add: zmod_int mod_simps)
  then show ?thesis by (simp add: padding_remove)
qed

text \<open>The length of the block after each kind of change.\<close>

lemma payload_len_set:
  assumes "rh_extension h"
  shows "find (\<lambda>x. ex_id x = i) (rh_extensions h) = None \<Longrightarrow>
      get_extension_payload_len (h\<lparr>rh_extensions := rh_extensions h @ [\<lparr>ex_id = i, ex_payload = d\<rparr>],
        rh_extensions_padding := p\<rparr>) =
      get_extension_payload_len h + (length d + profile_len (rh_extension_profile h))"
    and "find (\<lambda>x. ex_id x = i) (rh_extensions h) = Some x \<Longrightarrow>
      get_extension_payload_len (h\<lparr>rh_extensions := replace_first i d (rh_extensions h),
        rh_extensions_padding := p\<rparr>) + length (ex_payload x) = get_extension_payload_len h + length d"
  using sum_replace_first [of i "rh_extensions h" x d] by (auto simp: get_extension_payload_len_def)

lemma update_extension_padding:
  assumes "rh_extension h" and padding: "rh_extensions_padding h = get_padding (get_extension_payload_len h)"
  shows "rh_extensions_padding (update_extension i d h) = get_padding (get_extension_payload_len (update_extension i d h))"
proof (cases "find (\<lambda>x. ex_id x = i) (rh_extensions h)")
  case None
  then show ?thesis using payload_len_set(1) [OF assms(1) None] padding
    by (auto simp: update_extension_def Let_def padding_grow)
next
  case (Some x)
  let ?l = "length (ex_payload x)" and ?xs = "replace_first i d (rh_extensions h)" and ?L = "get_extension_payload_len h"
  define n where "n = get_extension_payload_len (update_extension i d h)"
  have n: "n + ?l = ?L + length d"
    using payload_len_set(2) [OF assms(1) Some] by (simp add: n_def update_extension_def Some Let_def)
  consider (less) k where "?l = length d + k" "0 < k" | (greater) k where "length d = ?l + k" "0 < k" | (eq) "length d = ?l"
    by (metis less_imp_add_positive linorder_neqE_nat)
  then have "rh_extensions_padding (update_extension i d h) = get_padding n"
  proof cases
    case less
    then have "?L = n + k" using n by simp
    then show ?thesis using less padding_shrink [of n k] padding by (simp add: update_extension_def Some Let_def)
  next
    case greater
    then have "n = ?L + k" using n by simp
    moreover have "nat (int k mod 4) = k mod 4" by (simp add: nat_mod_distrib)
    ultimately show ?thesis using greater padding by (simp add: update_extension_def Some Let_def padding_grow)
  next
    case eq
    then show ?thesis using n padding by (simp add: update_extension_def Some Let_def)
  qed
  then show ?thesis by (simp add: n_def)
qed

lemma update_extension_sel:
  "rh_version (update_extension i d h) = rh_version h" "rh_payload_type (update_extension i d h) = rh_payload_type h"
  "rh_csrc (update_extension i d h) = rh_csrc h" "rh_extension (update_extension i d h) = rh_extension h"
  "rh_extension_profile (update_extension i d h) = rh_extension_profile h"
  by (simp_all add: update_extension_def Let_def split: option.splits)

lemma update_extension_set:
  "set (rh_extensions (update_extension i d h)) \<subseteq>
     set (rh_extensions h) \<union> {\<lparr>ex_id = i, ex_payload = d\<rparr>}"
proof -
  have "x\<lparr>ex_payload := d\<rparr> = \<lparr>ex_id = ex_id x, ex_payload = d\<rparr>" for x :: extension
    by (cases x) simp
  then show ?thesis
    using set_replace_first [of i d "rh_extensions h"]
    by (auto simp: update_extension_def Let_def split: option.splits)
qed

lemma update_extension_get:
  assumes "rh_extension h"
  shows "get_extension i (update_extension i d h) = Some d"
    and "j \<noteq> i \<Longrightarrow> get_extension j (update_extension i d h) = get_extension j h"
  using assms
  by (auto simp: get_extension_def update_extension_sel update_extension_def Let_def find_append find_replace_first
    split: option.splits)

lemma wf_update_extension:
  assumes "wf_rtp_header h" "rh_extension h" "get_extension_payload_len (update_extension i d h) < 65536"
    and "rh_extension_profile h = EXTENSION_PROFILE_ONE_BYTE \<and> wf_one_byte \<lparr>ex_id = i, ex_payload = d\<rparr> \<or>
      rh_extension_profile h = EXTENSION_PROFILE_TWO_BYTE \<and> wf_two_byte \<lparr>ex_id = i, ex_payload = d\<rparr>"
  shows "wf_rtp_header (update_extension i d h)"
  using assms update_extension_padding [of h i d] update_extension_set [of i d h] one_two_distinct
  by (auto simp: wf_rtp_header_def wf_extensions_def update_extension_sel)


text \<open>The first extension, which also chooses the profile.\<close>

lemma set_extension_first:
  assumes wf: "wf_rtp_header h" and no: "\<not> rh_extension h" and d: "d \<noteq> []" "length d \<le> 255" and i: "1 \<le> i" "i \<le> 14"
  shows "\<exists>h'. set_extension i d h = (Ok (), h') \<and> wf_rtp_header h' \<and> get_extension i h' = Some d \<and>
    (\<forall>j. j \<noteq> i \<longrightarrow> get_extension j h' = get_extension j h)"
proof -
  define h' where "h' = snd (set_extension i d h)"
  have h: "rh_extensions h = []" "rh_extensions_padding h = get_padding 0" using wf no by (simp_all add: wf_rtp_header_def get_padding_def)
  have "take_padding (get_padding 0) (k mod 4) = get_padding k" for k using padding_grow [of 0 k] by simp
  then have "wf_extensions h'"
    using d i h no one_two_distinct
    by (auto simp: h'_def set_extension_def Let_def wf_extensions_def get_extension_payload_len_def profile_len_def
      wf_one_byte_def wf_two_byte_def Suc_le_eq)
  then have "wf_rtp_header h'" "get_extension i h' = Some d" "\<forall>j. j \<noteq> i \<longrightarrow> get_extension j h' = get_extension j h"
    using wf no h by (auto simp: h'_def set_extension_def Let_def wf_rtp_header_def get_extension_def)
  moreover have "set_extension i d h = (Ok (), h')" using no by (simp add: h'_def set_extension_def Let_def)
  ultimately show ?thesis by blast
qed

lemma del_extension_wf:
  assumes wf: "wf_rtp_header h" and prof: "rh_extension_profile h \<in> {EXTENSION_PROFILE_ONE_BYTE, EXTENSION_PROFILE_TWO_BYTE}"
    and del: "del_extension i h = (Ok (), h')"
  shows "wf_rtp_header h'"
proof -
  have ext: "rh_extension h" using del by (auto simp: del_extension_def split: if_splits)
  obtain x where x: "find (\<lambda>x. ex_id x = i) (rh_extensions h) = Some x"
    using del ext by (auto simp: del_extension_def split: option.splits)
  let ?k = "length (ex_payload x) + profile_len (rh_extension_profile h)"
  have h': "h' = h\<lparr>rh_extensions := remove_first i (rh_extensions h),
      rh_extensions_padding := (rh_extensions_padding h + ?k mod 4) mod 4\<rparr>"
    using del ext x by (simp add: del_extension_def)
  have len: "get_extension_payload_len h = get_extension_payload_len h' + ?k"
    using sum_remove_first [OF x] by (simp add: h' get_extension_payload_len_def)
  have "rh_extensions_padding h' = get_padding (get_extension_payload_len h')"
    using wf ext padding_remove [of "get_extension_payload_len h'" ?k] len
    by (simp add: h' wf_rtp_header_def wf_extensions_def)
  then show ?thesis
    using wf ext prof len sum_remove_first [OF x] one_two_distinct
    by (auto simp: wf_rtp_header_def wf_extensions_def h')
qed

text \<open>C19. Header extensions keep a header well formed. Setting an extension (non-empty, at most 255
bytes, in a header without extensions or with one-byte or two-byte elements) or deleting one
gives a header whose recorded padding again completes the last 32-bit word, which is what the
size computation and the serialiser rely on; the extension set is the one read back and the
others are untouched. The id has to be valid when the header has no extension yet, because
\<open>set_extension\<close> checks it only afterwards.\<close>

theorem extension_ops_keep_wf:
  assumes "wf_rtp_header h" "rh_extension h \<longrightarrow> rh_extension_profile h \<in> {EXTENSION_PROFILE_ONE_BYTE, EXTENSION_PROFILE_TWO_BYTE}"
    and "d \<noteq> []" "length d \<le> 255" "rh_extension h \<or> 1 \<le> i \<and> i \<le> 14"
    and "set_extension i d h = (Ok (), h')" "get_extension_payload_len h' < 65536"
  shows "wf_rtp_header h' \<and> get_extension i h' = Some d \<and> (\<forall>j. j \<noteq> i \<longrightarrow> get_extension j h' = get_extension j h) \<and>
    (\<forall>h''. del_extension i h = (Ok (), h'') \<longrightarrow> wf_rtp_header h'')"
proof -
  have del: "\<forall>h''. del_extension i h = (Ok (), h'') \<longrightarrow> wf_rtp_header h''"
    using assms(1,2) del_extension_wf by (auto simp: del_extension_def)
  show ?thesis
  proof (cases "rh_extension h")
    case False
    then show ?thesis using set_extension_first [of h d i] assms del by auto
  next
    case True
    then have h': "h' = update_extension i d h"
      using assms(6) by (auto simp: set_extension_def Let_def split: if_splits)
    have "rh_extension_profile h = EXTENSION_PROFILE_ONE_BYTE \<and> wf_one_byte \<lparr>ex_id = i, ex_payload = d\<rparr> \<or>
        rh_extension_profile h = EXTENSION_PROFILE_TWO_BYTE \<and> wf_two_byte \<lparr>ex_id = i, ex_payload = d\<rparr>"
      using True assms(2,3,6) one_two_distinct
      by (auto simp: set_extension_def Let_def wf_one_byte_def wf_two_byte_def Suc_le_eq split: if_splits)
    then show ?thesis using wf_update_extension [OF assms(1) True] assms(7) update_extension_get [OF True] del
      unfolding h' by blast
  qed
qed

theorem extension_ops_keep_wf_witness:
  "wf_rtp_header (snd (set_extension 4 [1, 2, 3, 4] (rp_header rtp_sample))) \<and>
   get_extension 4 (snd (set_extension 4 [1, 2, 3, 4] (rp_header rtp_sample))) = Some [1, 2, 3, 4]"
proof -
  let ?h = "rp_header rtp_sample"
  have wf: "wf_rtp_header ?h"
    by (simp add: rtp_sample_def wf_rtp_header_def wf_extensions_def get_extension_payload_len_def
      profile_len_def get_padding_def wf_one_byte_def)
  have set: "set_extension 4 [1, 2, 3, 4] ?h = (Ok (), snd (set_extension 4 [1, 2, 3, 4] ?h))"
    by (simp add: rtp_sample_def set_extension_def Let_def)
  have "get_extension_payload_len (snd (set_extension 4 [1, 2, 3, 4] ?h)) < 65536"
    by (simp add: rtp_sample_def set_extension_def update_extension_def Let_def get_extension_payload_len_def profile_len_def)
  from extension_ops_keep_wf [OF wf _ _ _ _ set this] show ?thesis by (simp add: rtp_sample_def)
qed

section \<open>Arbitrary input\<close>

lemma one_byte_loop_no_panic: "e \<le> c + length r \<Longrightarrow> no_panic (one_byte_loop c e r p xs)"
proof (induction c e r p xs rule: one_byte_loop.induct)
  case (1 c e r p xs)
  show ?case
  proof (cases r)
    case Nil
    then show ?thesis using "1.prems" by (subst one_byte_loop.simps) simp
  next
    case (Cons b r')
    have IH0: "no_panic (one_byte_loop (c + 1) e r' (p + 1) xs)" if "\<not> e \<le> c" "b = 0"
      using "1.IH"(1) [of "(b, r')"] "1.prems" that Cons by simp
    have IH1: "no_panic (one_byte_loop (c + 1 + n) e (drop n r') p ys)"
      if "\<not> e \<le> c" "b \<noteq> 0" "drop_bit 4 b \<noteq> EXTENSION_ID_RESERVED" "n = unat ((b AND (0xFF XOR 0xF0)) + 1)"
        "n \<le> length r'" "ys = xs @ [\<lparr>ex_id = drop_bit 4 b, ex_payload = take n r'\<rparr>]" for n ys
      using "1.IH"(2) [of "(b, r')"] "1.prems" that Cons by (simp add: copy_to_bytes_ok)
    show ?thesis
      by (subst one_byte_loop.simps) (use IH0 IH1 Cons in \<open>auto simp: Let_def guard_def copy_to_bytes_ok\<close>)
  qed
qed

lemma two_byte_loop_no_panic: "e \<le> c + length r \<Longrightarrow> no_panic (two_byte_loop c e r p xs)"
proof (induction c e r p xs rule: two_byte_loop.induct)
  case (1 c e r p xs)
  show ?case
  proof (cases "e \<le> c \<or> e \<le> c + 1 \<and> hd r \<noteq> 0")
    case True
    then show ?thesis using "1.prems" by (cases r; subst two_byte_loop.simps) (auto simp: guard_def)
  next
    case False
    then obtain b r' where r: "r = b # r'" using "1.prems" by (cases r) auto
    have IH0: "no_panic (two_byte_loop (c + 1) e r' (p + 1) xs)" if "b = 0"
      using "1.IH"(1) [of "(b, r')"] "1.prems" that r False by simp
    show ?thesis
    proof (cases "b = 0")
      case True
      then show ?thesis using IH0 r by (subst two_byte_loop.simps) auto
    next
      case b: False
      then obtain l r2 where r': "r' = l # r2" using "1.prems" False r by (cases r') auto
      have "no_panic (two_byte_loop (c + 2 + unat l) e (drop (unat l) r2) p
          (xs @ [\<lparr>ex_id = b, ex_payload = take (unat l) r2\<rparr>]))" if "unat l \<le> length r2"
        using "1.IH"(2) [of "(b, r')"] "1.prems" that r r' b False by (simp add: copy_to_bytes_ok)
      then show ?thesis using r r' b by (subst two_byte_loop.simps) (auto simp: Let_def guard_def copy_to_bytes_ok)
    qed
  qed
qed

lemma extensions_unmarshal_no_panic:
  assumes len: "raw_len = c + length r"
  shows "no_panic (extensions_unmarshal raw_len c r)"
proof (cases "raw_len < c + 4")
  case True
  then show ?thesis by (simp add: extensions_unmarshal_def guard_def)
next
  case False
  obtain profile where p: "get_u16 r = Ok (profile, drop 2 r)" using get_u16_ok [of r] False len by auto
  have "2 \<le> length (drop 2 r)" using False len by simp
  from get_u16_ok [OF this] obtain words where w: "get_u16 (drop 2 r) = Ok (words, drop 4 r)" by auto
  have "no_panic (and_then (one_byte_loop (c + 4) (c + 4 + unat words * 4) (drop 4 r) 0 [])
        (\<lambda>(xs, p, r). Ok (profile, xs, p, r)))"
      "no_panic (and_then (two_byte_loop (c + 4) (c + 4 + unat words * 4) (drop 4 r) 0 [])
        (\<lambda>(xs, p, r). Ok (profile, xs, p, r)))" if "\<not> raw_len < c + 4 + unat words * 4"
    using that len one_byte_loop_no_panic [of "c + 4 + unat words * 4" "c + 4" "drop 4 r"]
      two_byte_loop_no_panic [of "c + 4 + unat words * 4" "c + 4" "drop 4 r"]
    by (auto intro!: no_panic_and_then)
  then show ?thesis using p w len by (auto simp: extensions_unmarshal_def guard_def Let_def copy_to_bytes_ok)
qed

lemma rtp_header_unmarshal_no_panic: "no_panic (rtp_header_unmarshal raw)"
proof (cases "length raw < 12 + unat (hd raw AND CC_MASK) * 4 \<or> length raw < 4")
  case True
  then show ?thesis by (cases raw) (auto simp: rtp_header_unmarshal_def guard_def Let_def rtp_consts)
next
  case False
  then obtain b0 b1 r where raw: "raw = b0 # b1 # r" by (cases raw; cases "tl raw") auto
  define n where "n = unat (b0 AND CC_MASK)"
  have len: "10 + n * 4 \<le> length r" using False raw by (simp add: n_def)
  obtain seq where q: "get_u16 r = Ok (seq, drop 2 r)" using get_u16_ok [of r] len by auto
  have lens: "4 \<le> length (drop 2 r)" "4 \<le> length (drop 6 r)" "4 * n \<le> length (drop 10 r)" using len by simp_all
  obtain ts where t: "get_u32 (drop 2 r) = Ok (ts, drop 6 r)" using get_u32_ok [OF lens(1)] by auto
  obtain ssrc where ss: "get_u32 (drop 6 r) = Ok (ssrc, drop 10 r)" using get_u32_ok [OF lens(2)] by auto
  obtain cs where cs: "get_u32s n (drop 10 r) = Ok (cs, drop (4 * n) (drop 10 r))"
    using get_u32s_ok [OF lens(3)] by blast
  have "no_panic (extensions_unmarshal (length raw) (12 + n * 4) (drop (4 * n) (drop 10 r)))"
    by (rule extensions_unmarshal_no_panic) (use len raw in simp)
  moreover have "unat (b0 AND 15) = n" by (simp add: n_def CC_MASK_def)
  ultimately show ?thesis
    using q t ss cs len unfolding rtp_header_unmarshal_def raw
    by (auto simp: guard_def Let_def rtp_consts intro!: no_panic_and_then)
qed

text \<open>C35. No datagram makes the RTP parser panic: every byte string is parsed or rejected with an
error, whatever its lengths, counts and extension elements say.\<close>

theorem rtp_parsing_never_panics: "no_panic (rtp_header_unmarshal raw) \<and> no_panic (rtp_packet_unmarshal raw)"
  unfolding rtp_packet_unmarshal_def using rtp_header_unmarshal_no_panic
  by (auto simp: guard_def Let_def copy_to_bytes_ok byte_at_def slice_def intro!: no_panic_and_then)

text \<open>C38. Take an RTP packet without contributing sources and padding whose one-byte extension block
begins with an element of the reserved id 15, whatever the size of the block, the length nibble of
the element, the rest of the block and the other header fields. The parser stops after this byte:
the rest of the block becomes the beginning of the payload, and the size that the header reports
(the offset at which decryption starts) is 16 instead of the \<open>16 + 4 * words\<close> bytes on the wire.
RFC 8285, which the code cites, ends the processing of elements there, not the block.\<close>

theorem reserved_id_corrupts_payload:
  assumes "drop_bit 4 x = EXTENSION_ID_RESERVED" "1 + length block = 4 * unat words"
  shows "\<exists>h. rtp_packet_unmarshal ([0x90, b1] @ be16 seq @ be32 ts @ be32 ssrc @ [0xBE, 0xDE] @ be16 words @ [x] @ block @ payload) =
      Ok \<lparr>rp_header = h, rp_payload = block @ payload\<rparr> \<and> rtp_header_marshal_size h = 16"
proof -
  have "x \<noteq> 0" using assms(1) by (auto simp: EXTENSION_ID_RESERVED_def)
  then have "one_byte_loop 16 (16 + unat words * 4) (x # block @ payload) 0 [] = Ok ([], 0, block @ payload)"
    using assms by (subst one_byte_loop.simps) (simp add: Let_def)
  moreover have "get_u16 (0xBE # 0xDE # r) = Ok (EXTENSION_PROFILE_ONE_BYTE, r)" for r
    by (simp add: of_be16_def EXTENSION_PROFILE_ONE_BYTE_def)
  ultimately have "extensions_unmarshal (17 + length block + length payload) 12 ([0xBE, 0xDE] @ be16 words @ [x] @ block @ payload) =
      Ok (EXTENSION_PROFILE_ONE_BYTE, [], 0, block @ payload)"
    using assms(2) by (simp add: extensions_unmarshal_def guard_def codec_simps Let_def del: get_u16.simps)
  then have "\<exists>h. rtp_header_unmarshal ([0x90, b1] @ be16 seq @ be32 ts @ be32 ssrc @ [0xBE, 0xDE] @ be16 words @ [x] @ block @ payload) =
      Ok (h, block @ payload) \<and> rtp_header_marshal_size h = 16 \<and> \<not> rh_padding h"
    by (simp add: rtp_header_unmarshal_def guard_def Let_def rtp_consts codec_simps add.assoc rtp_header_marshal_size_def
        marshal_size_for_def get_extension_payload_len_def CSRC_LENGTH_def del: get_u16.simps)
  then show ?thesis by (auto simp: rtp_packet_unmarshal_def copy_to_bytes_ok)
qed

theorem reserved_id_corrupts_payload_witness:
  "\<exists>h. rtp_packet_unmarshal ([0x90, 96] @ be16 1 @ be32 2 @ be32 7 @ [0xBE, 0xDE] @ be16 1 @ [0xF0] @ [1, 2, 3] @ [9]) =
      Ok \<lparr>rp_header = h, rp_payload = [1, 2, 3] @ [9]\<rparr> \<and> rtp_header_marshal_size h = 16"
  by (rule reserved_id_corrupts_payload) (simp_all add: EXTENSION_ID_RESERVED_def)

text \<open>Padding inside the extension block that the parser has counted is part of \<open>marshal_size\<close> but
is not written by \<open>marshal_to\<close>, so a header with a whole word of it cannot be serialised again.\<close>

lemma padded_header_not_serialisable:
  assumes "rh_extension h" "rh_extension_profile h \<in> {EXTENSION_PROFILE_ONE_BYTE, EXTENSION_PROFILE_TWO_BYTE}"
    and "get_extension_payload_len h < 65536" "4 \<le> rh_extensions_padding h"
  shows "rtp_header_marshal h = Fail (Media Other)"
proof -
  let ?L = "get_extension_payload_len h"
  have L: "unat (of_nat ?L :: u16) = ?L" using assms(3) by (simp add: unat_of_nat_u16)
  have pad: "(?L + 3) div 4 * 4 - ?L = get_padding ?L" using round_up_words [of ?L] by simp
  have body: "rh_extension_profile h = EXTENSION_PROFILE_ONE_BYTE \<Longrightarrow>
        length (concat (map one_byte_element (rh_extensions h))) = ?L"
      "rh_extension_profile h = EXTENSION_PROFILE_TWO_BYTE \<Longrightarrow>
        length (concat (map two_byte_element (rh_extensions h))) = ?L"
    using one_two_distinct by (simp_all add: length_elements get_extension_payload_len_def profile_len_def)
  obtain ext where ext: "extensions_marshal h ?L = Ok ext" "length ext = 4 + ?L + get_padding ?L"
    using assms(2) pad body one_two_distinct by (auto simp: extensions_marshal_def Let_def L)
  have "?L + rh_extensions_padding h \<le> (?L + rh_extensions_padding h + 3) div 4 * 4"
    unfolding round_up_words by simp
  then have "4 + ?L + get_padding ?L < 4 + (?L + rh_extensions_padding h + 3) div 4 * 4"
    using assms(4) get_padding_less [of ?L] by linarith
  then show ?thesis using assms(1) ext
    by (simp add: rtp_header_marshal_def marshal_exact_def rtp_header_marshal_to_def rtp_header_marshal_size_def
      marshal_size_for_def Let_def guard_def CSRC_LENGTH_def)
qed


end
