(* ===== verification/Rtcp_Header.thy ===== *)
theory Rtcp_Header
  imports Rtp_Header
begin

text \<open>The common header of RTCP packets (\<open>rtc-rtcp/src/header.rs\<close>): parsing, serialisation and
their round trip.\<close>

datatype packet_type =
  Unsupported | SenderReport | ReceiverReport | SourceDescription | Goodbye | ApplicationDefined
| TransportSpecificFeedback | PayloadSpecificFeedback | ExtendedReport

definition packet_type_of :: "u8 \<Rightarrow> packet_type" where
  "packet_type_of b =
    (if b = 200 then SenderReport else if b = 201 then ReceiverReport else if b = 202 then SourceDescription
     else if b = 203 then Goodbye else if b = 204 then ApplicationDefined
     else if b = 205 then TransportSpecificFeedback else if b = 206 then PayloadSpecificFeedback
     else if b = 207 then ExtendedReport else Unsupported)"

fun packet_type_code :: "packet_type \<Rightarrow> u8" where
  "packet_type_code Unsupported = 0"
| "packet_type_code SenderReport = 200"
| "packet_type_code ReceiverReport = 201"
| "packet_type_code SourceDescription = 202"
| "packet_type_code Goodbye = 203"
| "packet_type_code ApplicationDefined = 204"
| "packet_type_code TransportSpecificFeedback = 205"
| "packet_type_code PayloadSpecificFeedback = 206"
| "packet_type_code ExtendedReport = 207"

definition RTP_VERSION :: u8 where "RTP_VERSION = 2"
definition COUNT_MASK :: u8 where "COUNT_MASK = 0x1f"
definition RTCP_HEADER_LENGTH :: nat where "RTCP_HEADER_LENGTH = 4"
definition SSRC_LENGTH :: nat where "SSRC_LENGTH = 4"

record rtcp_header =
  rc_padding :: bool
  rc_count :: u8
  rc_packet_type :: packet_type
  rc_length :: u16

definition rtcp_header_marshal_to :: "nat \<Rightarrow> rtcp_header \<Rightarrow> bytes result" where
  "rtcp_header_marshal_to cap h =
     guard (rc_count h > 31) (Media InvalidHeader)
    (guard (cap < RTCP_HEADER_LENGTH) (Media BufferTooShort)
    (Ok ([push_bit VERSION_SHIFT RTP_VERSION OR push_bit PADDING_SHIFT (if rc_padding h then 1 else 0) OR
            push_bit 0 (rc_count h),
          packet_type_code (rc_packet_type h)] @ be16 (rc_length h))))"

definition rtcp_header_unmarshal :: "bytes \<Rightarrow> (rtcp_header \<times> bytes) result" where
  "rtcp_header_unmarshal raw =
     guard (length raw < RTCP_HEADER_LENGTH) (Media PacketTooShort)
    (and_then (get_u8 raw) (\<lambda>(b0, r).
     guard (drop_bit VERSION_SHIFT b0 AND VERSION_MASK \<noteq> RTP_VERSION) (Media BadVersion)
    (and_then (get_u8 r) (\<lambda>(t, r).
     and_then (get_u16 r) (\<lambda>(len, r).
     Ok (\<lparr>rc_padding = drop_bit PADDING_SHIFT b0 AND PADDING_MASK > 0, rc_count = drop_bit 0 b0 AND COUNT_MASK,
          rc_packet_type = packet_type_of t, rc_length = len\<rparr>, r))))))"

lemma packet_type_of_code [simp]: "packet_type_of (packet_type_code t) = t"
  by (cases t) (simp_all add: packet_type_of_def)

lemma rtcp_first_byte:
  fixes n v :: u8
  assumes "n \<le> 31" "v < 4"
  shows "drop_bit 6 (push_bit 6 v OR flag 5 p OR n) AND 3 = v" "bit (push_bit 6 v OR flag 5 p OR n) 5 = p"
    "(push_bit 6 v OR flag 5 p OR n) AND 31 = n"
proof -
  have n: "bit n i \<Longrightarrow> i < 5" and v: "bit v i \<Longrightarrow> i < 2" for i
    using assms small_bits [of n 5] small_bits [of v 2] by (simp_all add: word_le_nat_alt word_less_nat_alt)
  have m: "(3 :: u8) = mask 2" "(31 :: u8) = mask 5" by (simp_all add: mask_eq_exp_minus_1)
  show "drop_bit 6 (push_bit 6 v OR flag 5 p OR n) AND 3 = v"
    unfolding m by (rule bit_word_eqI) (auto simp: bit_simps bit_flag_iff dest: n v)
  show "(push_bit 6 v OR flag 5 p OR n) AND 31 = n"
    unfolding m by (rule bit_word_eqI) (auto simp: bit_simps bit_flag_iff dest: n v)
  show "bit (push_bit 6 v OR flag 5 p OR n) 5 = p" using n [of 5] by (auto simp: bit_simps bit_flag_iff)
qed

lemma rtcp_header_roundtrip:
  assumes "rc_count h \<le> 31" "4 \<le> cap"
  shows "\<exists>bs. rtcp_header_marshal_to cap h = Ok bs \<and> rtcp_header_unmarshal (bs @ rest) = Ok (h, rest)"
proof -
  define b0 where "b0 = push_bit 6 RTP_VERSION OR flag 5 (rc_padding h) OR rc_count h"
  have b0: "drop_bit 6 b0 AND 3 = RTP_VERSION" "bit b0 5 = rc_padding h" "b0 AND 31 = rc_count h"
    using rtcp_first_byte [OF assms(1), of RTP_VERSION "rc_padding h"] unfolding b0_def by (simp_all add: RTP_VERSION_def)
  have "push_bit 5 (if rc_padding h then 1 else 0) = flag 5 (rc_padding h)" by (simp add: flag_def)
  then have "rtcp_header_marshal_to cap h = Ok ([b0, packet_type_code (rc_packet_type h)] @ be16 (rc_length h))"
    using assms by (simp add: rtcp_header_marshal_to_def guard_def rtp_consts RTCP_HEADER_LENGTH_def b0_def or.assoc not_less)
  moreover have "rtcp_header_unmarshal (([b0, packet_type_code (rc_packet_type h)] @ be16 (rc_length h)) @ rest) = Ok (h, rest)"
    using b0 unfolding rtcp_header_unmarshal_def rtp_consts bit_flag
    by (simp add: guard_def COUNT_MASK_def RTCP_HEADER_LENGTH_def codec_simps)
  ultimately show ?thesis by blast
qed

lemma rtcp_header_unmarshal_no_panic: "no_panic (rtcp_header_unmarshal raw)"
proof (cases "length raw < 4")
  case False
  then obtain a b c d r where "raw = a # b # c # d # r"
    by (cases raw; cases "tl raw"; cases "tl (tl raw)"; cases "tl (tl (tl raw))") auto
  then show ?thesis by (simp add: rtcp_header_unmarshal_def guard_def RTCP_HEADER_LENGTH_def)
qed (simp add: rtcp_header_unmarshal_def guard_def RTCP_HEADER_LENGTH_def)

end
