(* ===== verification/Srtp_Cipher.thy ===== *)
theory Srtp_Cipher
  imports Rtcp_Header
begin

text \<open>The SRTP ciphers (\<open>rtc-srtp/src/cipher\<close>), the key derivation and the protection profiles.
AES, its counter mode, HMAC-SHA1 and AES-GCM come from crates outside this repository: they
are the fields of a record \<open>crypto\<close> that every definition takes, and \<open>crypto_ok\<close> names what
their documentation promises. The theory shows that decryption inverts encryption for both
families of ciphers, that the counters of different packets differ, and that an RTCP packet
whose encryption flag is clear is accepted by the AES-CM cipher without authentication.\<close>

section \<open>The cryptographic primitives\<close>

text \<open>Block ciphers (key, block), the key streams of counter mode (key, initial counter, position),
the MAC (key, message), and GCM: \<open>seal\<close> gives the cipher text and the tag, \<open>open\<close> takes the
cipher text with the tag appended.\<close>

record crypto =
  cr_aes128 :: "bytes \<Rightarrow> bytes \<Rightarrow> bytes"
  cr_aes256 :: "bytes \<Rightarrow> bytes \<Rightarrow> bytes"
  cr_ctr128 :: "bytes \<Rightarrow> bytes \<Rightarrow> nat \<Rightarrow> u8"
  cr_ctr256 :: "bytes \<Rightarrow> bytes \<Rightarrow> nat \<Rightarrow> u8"
  cr_hmac_sha1 :: "bytes \<Rightarrow> bytes \<Rightarrow> bytes"
  cr_seal :: "bytes \<Rightarrow> bytes \<Rightarrow> bytes \<Rightarrow> bytes \<Rightarrow> (bytes \<times> bytes) option"
  cr_open :: "bytes \<Rightarrow> bytes \<Rightarrow> bytes \<Rightarrow> bytes \<Rightarrow> bytes option"

text \<open>What the crates document: blocks are 16 bytes, a MAC is 20 bytes, GCM keeps the length,
appends a 16-byte tag and opens what was sealed with the same key, nonce and associated data.\<close>

definition crypto_ok :: "crypto \<Rightarrow> bool" where
  "crypto_ok cr \<longleftrightarrow>
     (\<forall>k b. length b = 16 \<longrightarrow> length (cr_aes128 cr k b) = 16 \<and> length (cr_aes256 cr k b) = 16) \<and>
     (\<forall>k m. length (cr_hmac_sha1 cr k m) = 20) \<and>
     (\<forall>k n a p c t. cr_seal cr k n a p = Some (c, t) \<longrightarrow>
        length c = length p \<and> length t = 16 \<and> cr_open cr k n a (c @ t) = Some p)"

section \<open>Protection profiles\<close>

datatype protection_profile =
  Aes128CmHmacSha1_80 | Aes128CmHmacSha1_32 | Aes256CmHmacSha1_80 | Aes256CmHmacSha1_32
| AeadAes128Gcm | AeadAes256Gcm

fun key_len :: "protection_profile \<Rightarrow> nat" where
  "key_len Aes128CmHmacSha1_32 = 16"
| "key_len Aes128CmHmacSha1_80 = 16"
| "key_len AeadAes128Gcm = 16"
| "key_len Aes256CmHmacSha1_32 = 32"
| "key_len Aes256CmHmacSha1_80 = 32"
| "key_len AeadAes256Gcm = 32"

fun salt_len :: "protection_profile \<Rightarrow> nat" where
  "salt_len AeadAes128Gcm = 12"
| "salt_len AeadAes256Gcm = 12"
| "salt_len _ = 14"

fun rtp_auth_tag_len :: "protection_profile \<Rightarrow> nat" where
  "rtp_auth_tag_len Aes128CmHmacSha1_80 = 10"
| "rtp_auth_tag_len Aes256CmHmacSha1_80 = 10"
| "rtp_auth_tag_len Aes128CmHmacSha1_32 = 4"
| "rtp_auth_tag_len Aes256CmHmacSha1_32 = 4"
| "rtp_auth_tag_len AeadAes128Gcm = 0"
| "rtp_auth_tag_len AeadAes256Gcm = 0"

fun rtcp_auth_tag_len :: "protection_profile \<Rightarrow> nat" where
  "rtcp_auth_tag_len AeadAes128Gcm = 0"
| "rtcp_auth_tag_len AeadAes256Gcm = 0"
| "rtcp_auth_tag_len _ = 10"

fun aead_auth_tag_len :: "protection_profile \<Rightarrow> nat" where
  "aead_auth_tag_len AeadAes128Gcm = 16"
| "aead_auth_tag_len AeadAes256Gcm = 16"
| "aead_auth_tag_len _ = 0"

fun auth_key_len :: "protection_profile \<Rightarrow> nat" where
  "auth_key_len AeadAes128Gcm = 0"
| "auth_key_len AeadAes256Gcm = 0"
| "auth_key_len _ = 20"

section \<open>Key derivation\<close>

definition LABEL_SRTP_ENCRYPTION :: u8 where "LABEL_SRTP_ENCRYPTION = 0x00"
definition LABEL_SRTP_AUTHENTICATION_TAG :: u8 where "LABEL_SRTP_AUTHENTICATION_TAG = 0x01"
definition LABEL_SRTP_SALT :: u8 where "LABEL_SRTP_SALT = 0x02"
definition LABEL_SRTCP_ENCRYPTION :: u8 where "LABEL_SRTCP_ENCRYPTION = 0x03"
definition LABEL_SRTCP_AUTHENTICATION_TAG :: u8 where "LABEL_SRTCP_AUTHENTICATION_TAG = 0x04"
definition LABEL_SRTCP_SALT :: u8 where "LABEL_SRTCP_SALT = 0x05"
definition SRTCP_INDEX_SIZE :: nat where "SRTCP_INDEX_SIZE = 4"

definition xor_bytes :: "bytes \<Rightarrow> bytes \<Rightarrow> bytes" where
  "xor_bytes = map2 (XOR)"

text \<open>The block of the output that starts at \<open>16 * i\<close>.\<close>

definition prf_block :: "(bytes \<Rightarrow> bytes) \<Rightarrow> bytes \<Rightarrow> nat \<Rightarrow> bytes" where
  "prf_block aes prf_in i = aes (prf_in[14 := of_nat ((i div 256) mod 256), 15 := of_nat (i mod 256)])"

text \<open>\<open>GenericArray::from_slice\<close> panics unless the key has 16 bytes, and the copy of the salt
panics when it is longer.\<close>

definition aes_cm_key_derivation :: "crypto \<Rightarrow> u8 \<Rightarrow> bytes \<Rightarrow> bytes \<Rightarrow> nat \<Rightarrow> nat \<Rightarrow> bytes result" where
  "aes_cm_key_derivation cr label master_key master_salt index_over_kdr out_len =
     guard (index_over_kdr \<noteq> 0) (Media UnsupportedIndexOverKdr)
    (if length master_key \<noteq> 16 \<or> length master_salt > length master_key then panic
     else
       let prf_in = master_salt @ replicate (16 - length master_salt) 0;
           prf_in = prf_in[7 := prf_in ! 7 XOR label]
       in Ok (take out_len (concat (map (prf_block (cr_aes128 cr master_key) prf_in) [0..<(out_len + 15) div 16]))))"

definition aes_256_cm_key_derivation :: "crypto \<Rightarrow> u8 \<Rightarrow> bytes \<Rightarrow> bytes \<Rightarrow> nat \<Rightarrow> nat \<Rightarrow> bytes result" where
  "aes_256_cm_key_derivation cr label master_key master_salt index_over_kdr out_len =
     guard (index_over_kdr \<noteq> 0) (Media UnsupportedIndexOverKdr)
    (guard (length master_key \<noteq> 32) (Media InvalidMasterKeyLength)
    (guard (length master_salt > 14) (Media InvalidMasterSaltLength)
    (guard (out_len > 32) (Media UnsupportedOutLength)
    (let prf_in = (replicate 16 0)[7 := label, 8 := 0, 9 := 0, 10 := 0, 11 := 0];
         prf_in = xor_bytes prf_in (master_salt @ replicate (16 - length master_salt) 0)
     in Ok (take out_len (concat (map (prf_block (cr_aes256 cr master_key) prf_in) [0..<(out_len + 15) div 16])))))))"

definition generate_counter :: "u16 \<Rightarrow> u32 \<Rightarrow> u32 \<Rightarrow> bytes \<Rightarrow> bytes result" where
  "generate_counter sequence_number rollover_counter ssrc session_salt =
    (if length session_salt > 16 then panic
     else
       let counter = replicate 4 0 @ be32 ssrc @ be32 rollover_counter @ be32 (push_bit 16 (ucast sequence_number))
       in Ok (xor_bytes counter (session_salt @ replicate (16 - length session_salt) 0)))"

section \<open>AES counter mode with HMAC-SHA1\<close>

record cipher_inner =
  ci_profile :: protection_profile
  ci_srtp_session_salt :: bytes
  ci_srtp_session_auth :: bytes
  ci_srtcp_session_salt :: bytes
  ci_srtcp_session_auth :: bytes

type_synonym kdf = "u8 \<Rightarrow> bytes \<Rightarrow> bytes \<Rightarrow> nat \<Rightarrow> nat \<Rightarrow> bytes result"

definition cipher_inner_new :: "protection_profile \<Rightarrow> kdf \<Rightarrow> bytes \<Rightarrow> bytes \<Rightarrow> cipher_inner result" where
  "cipher_inner_new profile kdf master_key master_salt =
     and_then (kdf LABEL_SRTP_SALT master_key master_salt 0 (length master_salt)) (\<lambda>srtp_session_salt.
     and_then (kdf LABEL_SRTCP_SALT master_key master_salt 0 (length master_salt)) (\<lambda>srtcp_session_salt.
     and_then (kdf LABEL_SRTP_AUTHENTICATION_TAG master_key master_salt 0 (auth_key_len profile)) (\<lambda>srtp_session_auth.
     and_then (kdf LABEL_SRTCP_AUTHENTICATION_TAG master_key master_salt 0 (auth_key_len profile)) (\<lambda>srtcp_session_auth.
     Ok \<lparr>ci_profile = profile, ci_srtp_session_salt = srtp_session_salt, ci_srtp_session_auth = srtp_session_auth,
         ci_srtcp_session_salt = srtcp_session_salt, ci_srtcp_session_auth = srtcp_session_auth\<rparr>))))"

definition generate_srtp_auth_tag :: "crypto \<Rightarrow> cipher_inner \<Rightarrow> bytes \<Rightarrow> u32 \<Rightarrow> bytes" where
  "generate_srtp_auth_tag cr c buf roc = cr_hmac_sha1 cr (ci_srtp_session_auth c) (buf @ be32 roc)"

definition generate_srtcp_auth_tag :: "crypto \<Rightarrow> cipher_inner \<Rightarrow> bytes \<Rightarrow> bytes" where
  "generate_srtcp_auth_tag cr c buf = cr_hmac_sha1 cr (ci_srtcp_session_auth c) buf"

definition cm_get_rtcp_index :: "cipher_inner \<Rightarrow> bytes \<Rightarrow> nat result" where
  "cm_get_rtcp_index c input =
    (let n = rtcp_auth_tag_len (ci_profile c) + SRTCP_INDEX_SIZE in
     if length input < n then panic
     else and_then (get_u32 (drop (length input - n) input)) (\<lambda>(w, _). Ok (unat (w AND NOT (push_bit 31 1)))))"

record cipher_aes_cm =
  cm_inner :: cipher_inner
  cm_srtp_session_key :: bytes
  cm_srtcp_session_key :: bytes

definition cipher_aes_cm_new :: "crypto \<Rightarrow> protection_profile \<Rightarrow> bytes \<Rightarrow> bytes \<Rightarrow> cipher_aes_cm result" where
  "cipher_aes_cm_new cr profile master_key master_salt =
     and_then
      (case profile of
         Aes128CmHmacSha1_32 \<Rightarrow> Ok (aes_cm_key_derivation cr)
       | Aes128CmHmacSha1_80 \<Rightarrow> Ok (aes_cm_key_derivation cr)
       | Aes256CmHmacSha1_80 \<Rightarrow> Ok (aes_256_cm_key_derivation cr)
       | Aes256CmHmacSha1_32 \<Rightarrow> Ok (aes_256_cm_key_derivation cr)
       | _ \<Rightarrow> Fail (Media Other)) (\<lambda>kdf.
     and_then (cipher_inner_new profile kdf master_key master_salt) (\<lambda>inner.
     and_then (kdf LABEL_SRTP_ENCRYPTION master_key master_salt 0 (length master_key)) (\<lambda>srtp_session_key.
     and_then (kdf LABEL_SRTCP_ENCRYPTION master_key master_salt 0 (length master_key)) (\<lambda>srtcp_session_key.
     Ok \<lparr>cm_inner = inner, cm_srtp_session_key = srtp_session_key, cm_srtcp_session_key = srtcp_session_key\<rparr>))))"

text \<open>The key stream is xored into the buffer from \<open>offset\<close> on; slicing past the end and keys or
counters of the wrong length panic.\<close>

definition apply_keystream :: "(nat \<Rightarrow> u8) \<Rightarrow> bytes \<Rightarrow> bytes" where
  "apply_keystream ks data = xor_bytes data (map ks [0..<length data])"

definition cm_apply :: "crypto \<Rightarrow> protection_profile \<Rightarrow> bytes \<Rightarrow> bytes \<Rightarrow> nat \<Rightarrow> bytes \<Rightarrow> bytes result" where
  "cm_apply cr profile key counter offset writer =
    (if length counter \<noteq> 16 \<or> offset > length writer then panic
     else if key_len profile = 16
     then if length key \<noteq> 16 then panic
          else Ok (take offset writer @ apply_keystream (cr_ctr128 cr key counter) (drop offset writer))
     else if length key \<noteq> 32 then panic
          else Ok (take offset writer @ apply_keystream (cr_ctr256 cr key counter) (drop offset writer)))"

definition cm_encrypt_rtp :: "crypto \<Rightarrow> cipher_aes_cm \<Rightarrow> bytes \<Rightarrow> rtp_header \<Rightarrow> u32 \<Rightarrow> bytes result" where
  "cm_encrypt_rtp cr c plaintext header roc =
    (let inner = cm_inner c in
     and_then (generate_counter (rh_sequence_number header) roc (rh_ssrc header) (ci_srtp_session_salt inner)) (\<lambda>counter.
     and_then (cm_apply cr (ci_profile inner) (cm_srtp_session_key c) counter (rtp_header_marshal_size header) plaintext)
       (\<lambda>writer.
     Ok (writer @ take (rtp_auth_tag_len (ci_profile inner)) (generate_srtp_auth_tag cr inner writer roc)))))"

definition cm_decrypt_rtp :: "crypto \<Rightarrow> cipher_aes_cm \<Rightarrow> bytes \<Rightarrow> rtp_header \<Rightarrow> u32 \<Rightarrow> bytes result" where
  "cm_decrypt_rtp cr c encrypted header roc =
    (let inner = cm_inner c; n = rtp_auth_tag_len (ci_profile inner) in
     guard (length encrypted < n) (Media SrtpTooSmall)
    (let actual_tag = drop (length encrypted - n) encrypted;
         cipher_text = take (length encrypted - n) encrypted;
         expected_tag = take n (generate_srtp_auth_tag cr inner cipher_text roc) in
     guard (actual_tag \<noteq> expected_tag) (Media RtpFailedToVerifyAuthTag)
    (and_then (generate_counter (rh_sequence_number header) roc (rh_ssrc header) (ci_srtp_session_salt inner)) (\<lambda>counter.
     cm_apply cr (ci_profile inner) (cm_srtp_session_key c) counter (rtp_header_marshal_size header) cipher_text))))"

definition cm_encrypt_rtcp :: "crypto \<Rightarrow> cipher_aes_cm \<Rightarrow> bytes \<Rightarrow> nat \<Rightarrow> u32 \<Rightarrow> bytes result" where
  "cm_encrypt_rtcp cr c decrypted srtcp_index ssrc =
    (let inner = cm_inner c in
     and_then (generate_counter (of_nat (srtcp_index mod 65536)) (of_nat (srtcp_index div 65536)) ssrc
         (ci_srtcp_session_salt inner)) (\<lambda>counter.
     and_then (cm_apply cr (ci_profile inner) (cm_srtcp_session_key c) counter (RTCP_HEADER_LENGTH + SSRC_LENGTH) decrypted)
       (\<lambda>writer.
     let writer = writer @ be32 (of_nat srtcp_index OR push_bit 31 1) in
     Ok (writer @ take (rtcp_auth_tag_len (ci_profile inner)) (generate_srtcp_auth_tag cr inner writer)))))"

definition cm_decrypt_rtcp :: "crypto \<Rightarrow> cipher_aes_cm \<Rightarrow> bytes \<Rightarrow> nat \<Rightarrow> u32 \<Rightarrow> bytes result" where
  "cm_decrypt_rtcp cr c encrypted srtcp_index ssrc =
    (let inner = cm_inner c; n = rtcp_auth_tag_len (ci_profile inner) in
     guard (length encrypted < n + SRTCP_INDEX_SIZE) (Media SrtcpTooSmall)
    (let tail_offset = length encrypted - (n + SRTCP_INDEX_SIZE) in
     guard (tail_offset < 8) (Media ErrTooShortRtcp)
    (let writer = take tail_offset encrypted in
     if drop_bit 7 (encrypted ! tail_offset) = 0 then Ok writer
     else
       let actual_tag = drop (length encrypted - n) encrypted in
       guard (length actual_tag \<noteq> n) (Media RtcpInvalidLengthAuthTag)
      (let cipher_text = take (length encrypted - n) encrypted;
           expected_tag = take n (generate_srtcp_auth_tag cr inner cipher_text) in
       guard (actual_tag \<noteq> expected_tag) (Media RtcpFailedToVerifyAuthTag)
      (and_then (generate_counter (of_nat (srtcp_index mod 65536)) (of_nat (srtcp_index div 65536)) ssrc
           (ci_srtcp_session_salt inner)) (\<lambda>counter.
       cm_apply cr (ci_profile inner) (cm_srtcp_session_key c) counter (RTCP_HEADER_LENGTH + SSRC_LENGTH) writer))))))"

section \<open>AES-GCM\<close>

definition RTCP_ENCRYPTION_FLAG :: u8 where "RTCP_ENCRYPTION_FLAG = 0x80"

record cipher_aead_aes_gcm =
  gc_profile :: protection_profile
  gc_srtp_cipher :: bytes
  gc_srtcp_cipher :: bytes
  gc_srtp_session_salt :: bytes
  gc_srtcp_session_salt :: bytes

text \<open>A key of a length that does not fit the algorithm is refused by \<open>UnboundKey::new\<close>; other
profiles are unreachable and the assertion on the salt panics.\<close>

definition cipher_aead_aes_gcm_new ::
    "crypto \<Rightarrow> protection_profile \<Rightarrow> bytes \<Rightarrow> bytes \<Rightarrow> cipher_aead_aes_gcm result" where
  "cipher_aead_aes_gcm_new cr profile master_key master_salt =
     and_then
      (case profile of
         AeadAes128Gcm \<Rightarrow> Ok (aes_cm_key_derivation cr)
       | AeadAes256Gcm \<Rightarrow> Ok (aes_256_cm_key_derivation cr)
       | _ \<Rightarrow> panic) (\<lambda>kdf.
     if salt_len profile \<noteq> length master_salt then panic
     else
       let build_cipher = (\<lambda>label.
             and_then (kdf label master_key master_salt 0 (length master_key)) (\<lambda>session_key.
             guard (length session_key \<noteq> key_len profile) (Media Other) (Ok session_key))) in
       and_then (build_cipher LABEL_SRTP_ENCRYPTION) (\<lambda>srtp_cipher.
       and_then (build_cipher LABEL_SRTCP_ENCRYPTION) (\<lambda>srtcp_cipher.
       and_then (kdf LABEL_SRTP_SALT master_key master_salt 0 (length master_salt)) (\<lambda>srtp_session_salt.
       and_then (kdf LABEL_SRTCP_SALT master_key master_salt 0 (length master_salt)) (\<lambda>srtcp_session_salt.
       Ok \<lparr>gc_profile = profile, gc_srtp_cipher = srtp_cipher, gc_srtcp_cipher = srtcp_cipher,
           gc_srtp_session_salt = srtp_session_salt, gc_srtcp_session_salt = srtcp_session_salt\<rparr>)))))"

definition rtp_initialization_vector :: "cipher_aead_aes_gcm \<Rightarrow> rtp_header \<Rightarrow> u32 \<Rightarrow> bytes result" where
  "rtp_initialization_vector c header roc =
    (if length (gc_srtp_session_salt c) < 12 then panic
     else Ok (xor_bytes ([0, 0] @ be32 (rh_ssrc header) @ be32 roc @ be16 (rh_sequence_number header))
                (gc_srtp_session_salt c)))"

definition rtcp_initialization_vector :: "cipher_aead_aes_gcm \<Rightarrow> nat \<Rightarrow> u32 \<Rightarrow> bytes result" where
  "rtcp_initialization_vector c srtcp_index ssrc =
    (if length (gc_srtcp_session_salt c) < 12 then panic
     else Ok (xor_bytes ([0, 0] @ be32 ssrc @ [0, 0] @ be32 (of_nat srtcp_index)) (gc_srtcp_session_salt c)))"

definition rtcp_additional_authenticated_data :: "bytes \<Rightarrow> nat \<Rightarrow> bytes result" where
  "rtcp_additional_authenticated_data rtcp_packet srtcp_index =
    (if length rtcp_packet < 8 then panic
     else
       let aad = take 8 rtcp_packet @ be32 (of_nat srtcp_index)
       in Ok (aad[8 := aad ! 8 OR RTCP_ENCRYPTION_FLAG]))"

definition gcm_encrypt_rtp :: "crypto \<Rightarrow> cipher_aead_aes_gcm \<Rightarrow> bytes \<Rightarrow> rtp_header \<Rightarrow> u32 \<Rightarrow> bytes result" where
  "gcm_encrypt_rtp cr c payload header roc =
    (let header_len = rtp_header_marshal_size header in
     and_then (rtp_initialization_vector c header roc) (\<lambda>nonce.
     if header_len > length payload then panic
     else
       case cr_seal cr (gc_srtp_cipher c) nonce (take header_len payload) (drop header_len payload) of
         None \<Rightarrow> Fail (Media Other)
       | Some (ct, tag) \<Rightarrow> Ok (take header_len payload @ ct @ tag)))"

definition gcm_decrypt_rtp :: "crypto \<Rightarrow> cipher_aead_aes_gcm \<Rightarrow> bytes \<Rightarrow> rtp_header \<Rightarrow> u32 \<Rightarrow> bytes result" where
  "gcm_decrypt_rtp cr c ciphertext header roc =
    (let tag_len = aead_auth_tag_len (gc_profile c); payload_offset = rtp_header_marshal_size header in
     guard (length ciphertext < tag_len) (Media ErrFailedToVerifyAuthTag)
    (guard (length ciphertext < payload_offset + tag_len) (Media ErrFailedToVerifyAuthTag)
    (and_then (rtp_initialization_vector c header roc) (\<lambda>nonce.
     case cr_open cr (gc_srtp_cipher c) nonce (take payload_offset ciphertext) (drop payload_offset ciphertext) of
       None \<Rightarrow> Fail (Media ErrFailedToVerifyAuthTag)
     | Some plain \<Rightarrow> Ok (take (length ciphertext - tag_len) (take payload_offset ciphertext @ plain))))))"

definition gcm_encrypt_rtcp :: "crypto \<Rightarrow> cipher_aead_aes_gcm \<Rightarrow> bytes \<Rightarrow> nat \<Rightarrow> u32 \<Rightarrow> bytes result" where
  "gcm_encrypt_rtcp cr c decrypted srtcp_index ssrc =
     and_then (rtcp_initialization_vector c srtcp_index ssrc) (\<lambda>iv.
     and_then (rtcp_additional_authenticated_data decrypted srtcp_index) (\<lambda>aad.
     case cr_seal cr (gc_srtcp_cipher c) iv aad (drop 8 decrypted) of
       None \<Rightarrow> Fail (Media Other)
     | Some (ct, tag) \<Rightarrow> Ok (take 8 decrypted @ ct @ tag @ drop 8 aad)))"

definition gcm_decrypt_rtcp :: "crypto \<Rightarrow> cipher_aead_aes_gcm \<Rightarrow> bytes \<Rightarrow> nat \<Rightarrow> u32 \<Rightarrow> bytes result" where
  "gcm_decrypt_rtcp cr c encrypted srtcp_index ssrc =
    (let tag_len = aead_auth_tag_len (gc_profile c) in
     guard (length encrypted < tag_len + SRTCP_INDEX_SIZE) (Media ErrFailedToVerifyAuthTag)
    (and_then (rtcp_initialization_vector c srtcp_index ssrc) (\<lambda>nonce.
     and_then (rtcp_additional_authenticated_data encrypted srtcp_index) (\<lambda>aad.
     let tag_start = length encrypted - SRTCP_INDEX_SIZE - tag_len in
     guard (tag_start < 8) (Media ErrFailedToVerifyAuthTag)
    (let writer = take (tag_start + tag_len) encrypted in
     case cr_open cr (gc_srtcp_cipher c) nonce aad (drop 8 writer) of
       None \<Rightarrow> Fail (Media ErrFailedToVerifyAuthTag)
     | Some plain \<Rightarrow> Ok (take tag_start (take 8 writer @ plain)))))))"

definition gcm_get_rtcp_index :: "bytes \<Rightarrow> nat result" where
  "gcm_get_rtcp_index input =
    (if length input < 4 then panic
     else and_then (get_u32 (drop (length input - 4) input)) (\<lambda>(val, _).
       Ok (unat (val AND NOT (push_bit 24 (ucast RTCP_ENCRYPTION_FLAG))))))"

section \<open>The cipher trait\<close>

datatype cipher = AesCm cipher_aes_cm | AeadGcm cipher_aead_aes_gcm

fun cipher_profile :: "cipher \<Rightarrow> protection_profile" where
  "cipher_profile (AesCm c) = ci_profile (cm_inner c)"
| "cipher_profile (AeadGcm c) = gc_profile c"

fun cipher_get_rtcp_index :: "cipher \<Rightarrow> bytes \<Rightarrow> nat result" where
  "cipher_get_rtcp_index (AesCm c) input = cm_get_rtcp_index (cm_inner c) input"
| "cipher_get_rtcp_index (AeadGcm c) input = gcm_get_rtcp_index input"

fun cipher_encrypt_rtp :: "crypto \<Rightarrow> cipher \<Rightarrow> bytes \<Rightarrow> rtp_header \<Rightarrow> u32 \<Rightarrow> bytes result" where
  "cipher_encrypt_rtp cr (AesCm c) = cm_encrypt_rtp cr c"
| "cipher_encrypt_rtp cr (AeadGcm c) = gcm_encrypt_rtp cr c"

fun cipher_decrypt_rtp :: "crypto \<Rightarrow> cipher \<Rightarrow> bytes \<Rightarrow> rtp_header \<Rightarrow> u32 \<Rightarrow> bytes result" where
  "cipher_decrypt_rtp cr (AesCm c) = cm_decrypt_rtp cr c"
| "cipher_decrypt_rtp cr (AeadGcm c) = gcm_decrypt_rtp cr c"

fun cipher_encrypt_rtcp :: "crypto \<Rightarrow> cipher \<Rightarrow> bytes \<Rightarrow> nat \<Rightarrow> u32 \<Rightarrow> bytes result" where
  "cipher_encrypt_rtcp cr (AesCm c) = cm_encrypt_rtcp cr c"
| "cipher_encrypt_rtcp cr (AeadGcm c) = gcm_encrypt_rtcp cr c"

fun cipher_decrypt_rtcp :: "crypto \<Rightarrow> cipher \<Rightarrow> bytes \<Rightarrow> nat \<Rightarrow> u32 \<Rightarrow> bytes result" where
  "cipher_decrypt_rtcp cr (AesCm c) = cm_decrypt_rtcp cr c"
| "cipher_decrypt_rtcp cr (AeadGcm c) = gcm_decrypt_rtcp cr c"

section \<open>Key streams and counters\<close>

lemma length_xor_bytes [simp]: "length (xor_bytes a b) = min (length a) (length b)"
  by (simp add: xor_bytes_def)

lemma xor_bytes_nth: "i < length a \<Longrightarrow> i < length b \<Longrightarrow> xor_bytes a b ! i = a ! i XOR b ! i"
  by (simp add: xor_bytes_def)

lemma xor_bytes_self: "length a \<le> length b \<Longrightarrow> xor_bytes (xor_bytes a b) b = a"
  by (rule nth_equalityI) (simp_all add: xor_bytes_nth xor.assoc)

lemma xor_bytes_inject:
  assumes "length a = length a'" "length a \<le> length b" "xor_bytes a b = xor_bytes a' b"
  shows "a = a'"
  using assms by (metis xor_bytes_self)

lemma length_apply_keystream [simp]: "length (apply_keystream ks d) = length d"
  by (simp add: apply_keystream_def)

lemma apply_keystream_self: "apply_keystream ks (apply_keystream ks d) = d"
  by (simp add: apply_keystream_def xor_bytes_self)

lemma generate_counter_length: "generate_counter q roc ssrc salt = Ok c \<Longrightarrow> length c = 16"
  by (auto simp: generate_counter_def Let_def split: if_splits)

lemma be16_inject: "be16 a = be16 b \<longleftrightarrow> a = b"
  by (metis get_u16_be16 append_Nil2 sum.inject(2) prod.inject)

lemma be32_inject: "be32 a = be32 b \<longleftrightarrow> a = b"
  by (metis get_u32_be32 append_Nil2 sum.inject(2) prod.inject)

lemma push_ucast_inject: "push_bit 16 (ucast a :: u32) = push_bit 16 (ucast b) \<longleftrightarrow> a = (b :: u16)"
proof
  assume eq: "push_bit 16 (ucast a :: u32) = push_bit 16 (ucast b)"
  have "ucast (drop_bit 16 (push_bit 16 (ucast w :: u32))) = w" for w :: u16
    by (rule bit_word_eqI) (auto simp: bit_simps)
  then show "a = b" using eq by metis
qed simp

lemma generate_counter_inject:
  assumes "generate_counter q roc ssrc salt = Ok c" "generate_counter q' roc' ssrc' salt = Ok c"
  shows "q = q' \<and> roc = roc' \<and> ssrc = ssrc'"
proof -
  let ?b = "\<lambda>q roc ssrc. replicate 4 0 @ be32 ssrc @ be32 roc @ be32 (push_bit 16 (ucast q)) :: bytes"
  have len: "length salt \<le> 16" using assms(1) by (auto simp: generate_counter_def split: if_splits)
  then have "xor_bytes (?b q roc ssrc) (salt @ replicate (16 - length salt) 0) = c"
      "xor_bytes (?b q' roc' ssrc') (salt @ replicate (16 - length salt) 0) = c"
    using assms by (simp_all add: generate_counter_def Let_def)
  then have "xor_bytes (?b q roc ssrc) (salt @ replicate (16 - length salt) 0) =
      xor_bytes (?b q' roc' ssrc') (salt @ replicate (16 - length salt) 0)"
    by (simp only:)
  then have "?b q roc ssrc = ?b q' roc' ssrc'"
    by (rule xor_bytes_inject [rotated 2]) (use len in simp_all)
  then show ?thesis by (simp add: be32_inject push_ucast_inject)
qed

lemma cm_apply_ok:
  assumes "cm_apply cr profile key counter n w = Ok w'"
  shows "length w' = length w \<and> n \<le> length w \<and> take n w' = take n w \<and> cm_apply cr profile key counter n w' = Ok w"
  using assms by (auto simp: cm_apply_def apply_keystream_self min_absorb2 split: if_splits)

lemma cm_apply_total:
  "length counter = 16 \<Longrightarrow> n \<le> length w \<Longrightarrow> length key = key_len profile \<Longrightarrow>
    \<exists>w'. cm_apply cr profile key counter n w = Ok w'"
  by (cases profile) (auto simp: cm_apply_def)

section \<open>The contract of a cipher\<close>

text \<open>What the SRTP context relies on: encryption succeeds or fails with an error but does not panic,
keeps the header in clear, adds a fixed number of bytes and is undone by decryption with the
same rollover counter; for RTCP the index can be read back from the packet.\<close>

locale srtp_cipher =
  fixes good :: "crypto \<Rightarrow> 'c \<Rightarrow> bool"
    and enc dec :: "crypto \<Rightarrow> 'c \<Rightarrow> bytes \<Rightarrow> rtp_header \<Rightarrow> u32 \<Rightarrow> bytes result"
    and enc_rtcp dec_rtcp :: "crypto \<Rightarrow> 'c \<Rightarrow> bytes \<Rightarrow> nat \<Rightarrow> u32 \<Rightarrow> bytes result"
    and rtcp_index :: "'c \<Rightarrow> bytes \<Rightarrow> nat result"
    and rtp_tag overhead rtcp_overhead :: "'c \<Rightarrow> nat"
  assumes enc_no_panic: "good cr c \<Longrightarrow> rtp_header_marshal_size h \<le> length p \<Longrightarrow> no_panic (enc cr c p h roc)"
    and enc_dec: "good cr c \<Longrightarrow> enc cr c p h roc = Ok e \<Longrightarrow> dec cr c e h roc = Ok p"
    and enc_shape: "good cr c \<Longrightarrow> enc cr c p h roc = Ok e \<Longrightarrow>
      rtp_header_marshal_size h \<le> length p \<and> length e = length p + overhead c \<and>
      take (rtp_header_marshal_size h) e = take (rtp_header_marshal_size h) p"
    and dec_no_panic: "good cr c \<Longrightarrow> rtp_header_marshal_size h + rtp_tag c \<le> length e \<Longrightarrow> no_panic (dec cr c e h roc)"
    and enc_dec_rtcp: "good cr c \<Longrightarrow> i < 2 ^ 31 \<Longrightarrow> enc_rtcp cr c p i ssrc = Ok e \<Longrightarrow>
      dec_rtcp cr c e i ssrc = Ok p \<and> rtcp_index c e = Ok i \<and> take 8 e = take 8 p \<and> 8 \<le> length p \<and>
      length e = length p + rtcp_overhead c"
    and rtcp_no_panic: "good cr c \<Longrightarrow> 8 + rtcp_overhead c \<le> length e \<Longrightarrow>
      no_panic (dec_rtcp cr c e i ssrc) \<and> no_panic (rtcp_index c e)"

text \<open>A cipher as the constructors make it.\<close>

definition good_cm :: "crypto \<Rightarrow> cipher_aes_cm \<Rightarrow> bool" where
  "good_cm cr c \<longleftrightarrow> crypto_ok cr \<and>
     (let i = cm_inner c in
      ci_profile i \<in> {Aes128CmHmacSha1_80, Aes128CmHmacSha1_32, Aes256CmHmacSha1_80, Aes256CmHmacSha1_32} \<and>
      length (ci_srtp_session_salt i) \<le> 16 \<and> length (ci_srtcp_session_salt i) \<le> 16 \<and>
      length (cm_srtp_session_key c) = key_len (ci_profile i) \<and> length (cm_srtcp_session_key c) = key_len (ci_profile i))"

definition good_gcm :: "crypto \<Rightarrow> cipher_aead_aes_gcm \<Rightarrow> bool" where
  "good_gcm cr c \<longleftrightarrow> crypto_ok cr \<and> gc_profile c \<in> {AeadAes128Gcm, AeadAes256Gcm} \<and>
     length (gc_srtp_session_salt c) = 12 \<and> length (gc_srtcp_session_salt c) = 12"

lemma generate_counter_total: "length salt \<le> 16 \<Longrightarrow> \<exists>c. generate_counter q roc ssrc salt = Ok c \<and> length c = 16"
  by (simp add: generate_counter_def Let_def)

lemma good_cm_tag:
  assumes "good_cm cr c"
  shows "length (take (rtp_auth_tag_len (ci_profile (cm_inner c))) (generate_srtp_auth_tag cr (cm_inner c) b roc)) =
      rtp_auth_tag_len (ci_profile (cm_inner c))"
    and "length (take (rtcp_auth_tag_len (ci_profile (cm_inner c))) (generate_srtcp_auth_tag cr (cm_inner c) b)) =
      rtcp_auth_tag_len (ci_profile (cm_inner c))"
  using assms
  by (auto simp: good_cm_def Let_def crypto_ok_def generate_srtp_auth_tag_def generate_srtcp_auth_tag_def)

lemma bit_push_one: "k < 32 \<Longrightarrow> bit (push_bit k (1 :: u32)) n \<longleftrightarrow> n = k"
  by (auto simp: bit_simps)

lemma index_flag:
  assumes "i < 2 ^ 31"
  shows "unat ((of_nat i OR push_bit 31 1 :: u32) AND NOT (push_bit 31 1)) = i"
    and "drop_bit 7 (hd (be32 (of_nat i OR push_bit 31 1))) \<noteq> 0"
proof -
  define m where "m = push_bit 31 (1 :: u32)"
  have m: "bit m k \<longleftrightarrow> k = 31" for k unfolding m_def by (rule bit_push_one) simp
  have small: "bit (of_nat i :: u32) k \<Longrightarrow> k < 31" for k
  proof -
    assume "bit (of_nat i :: u32) k"
    then have "bit i k" by (simp add: bit_of_nat_iff)
    then have "2 ^ k \<le> i" by (metis bit_iff_odd div_less even_zero not_less)
    then show "k < 31" using assms by (meson le_less_trans power_less_imp_less_exp one_less_numeral_iff semiring_norm(76))
  qed
  have "(of_nat i OR m) AND NOT m = of_nat i"
    by (rule bit_word_eqI) (use small in \<open>auto simp: bit_or_iff bit_and_iff bit_not_iff m\<close>)
  then show "unat ((of_nat i OR push_bit 31 1 :: u32) AND NOT (push_bit 31 1)) = i"
    unfolding m_def [symmetric] using assms by (simp add: unat_of_nat_u32)
  have "bit (ucast (drop_bit 24 (of_nat i OR m)) :: u8) 7"
    by (simp add: bit_ucast_iff bit_drop_bit_eq bit_or_iff m)
  then have "bit (drop_bit 7 (hd (be32 (of_nat i OR m)))) 0"
    by (simp add: be32_def bit_drop_bit_eq)
  then show "drop_bit 7 (hd (be32 (of_nat i OR push_bit 31 1))) \<noteq> 0" unfolding m_def [symmetric] by auto
qed


section \<open>AES-CM satisfies the contract\<close>

lemma cm_rtp:
  assumes good: "good_cm cr c" and enc: "cm_encrypt_rtp cr c p h roc = Ok e"
  shows "rtp_header_marshal_size h \<le> length p \<and> length e = length p + rtp_auth_tag_len (ci_profile (cm_inner c)) \<and>
    take (rtp_header_marshal_size h) e = take (rtp_header_marshal_size h) p \<and> cm_decrypt_rtp cr c e h roc = Ok p"
proof -
  let ?n = "rtp_auth_tag_len (ci_profile (cm_inner c))"
  obtain ctr w where ctr: "generate_counter (rh_sequence_number h) roc (rh_ssrc h) (ci_srtp_session_salt (cm_inner c)) = Ok ctr"
      and w: "cm_apply cr (ci_profile (cm_inner c)) (cm_srtp_session_key c) ctr (rtp_header_marshal_size h) p = Ok w"
      and e: "e = w @ take ?n (generate_srtp_auth_tag cr (cm_inner c) w roc)"
    using enc by (auto simp: cm_encrypt_rtp_def Let_def result_simps)
  note ok = cm_apply_ok [OF w] and tag = good_cm_tag(1) [OF good, of w roc]
  have "take (length e - ?n) e = w" "drop (length e - ?n) e = take ?n (generate_srtp_auth_tag cr (cm_inner c) w roc)"
      "length e = length w + ?n"
    using tag by (simp_all add: e)
  moreover from this have "cm_decrypt_rtp cr c e h roc = Ok p"
    using ok ctr by (simp add: cm_decrypt_rtp_def Let_def guard_def)
  moreover have "take (rtp_header_marshal_size h) e = take (rtp_header_marshal_size h) w"
    using ok by (simp add: e)
  ultimately show ?thesis using ok by simp
qed

lemma cm_rtp_no_panic:
  assumes "good_cm cr c"
  shows "rtp_header_marshal_size h \<le> length p \<Longrightarrow> no_panic (cm_encrypt_rtp cr c p h roc)"
    and "rtp_header_marshal_size h + rtp_auth_tag_len (ci_profile (cm_inner c)) \<le> length e \<Longrightarrow>
      no_panic (cm_decrypt_rtp cr c e h roc)"
proof -
  have key: "length (cm_srtp_session_key c) = key_len (ci_profile (cm_inner c))"
    using assms by (simp add: good_cm_def Let_def)
  obtain ctr where ctr: "generate_counter (rh_sequence_number h) roc (rh_ssrc h) (ci_srtp_session_salt (cm_inner c)) = Ok ctr"
      "length ctr = 16"
    using generate_counter_total assms by (metis good_cm_def)
  note total = cm_apply_total [OF ctr(2) _ key]
  show "no_panic (cm_encrypt_rtp cr c p h roc)" if "rtp_header_marshal_size h \<le> length p"
    using total [OF that, of cr] ctr(1) by (auto simp: cm_encrypt_rtp_def Let_def)
  show "no_panic (cm_decrypt_rtp cr c e h roc)"
    if "rtp_header_marshal_size h + rtp_auth_tag_len (ci_profile (cm_inner c)) \<le> length e"
  proof -
    let ?w = "take (length e - rtp_auth_tag_len (ci_profile (cm_inner c))) e"
    have "rtp_header_marshal_size h \<le> length ?w" using that by simp
    from total [OF this, of cr] show ?thesis using ctr(1) by (auto simp: cm_decrypt_rtp_def Let_def guard_def)
  qed
qed

lemma cm_rtcp:
  assumes good: "good_cm cr c" and i: "i < 2 ^ 31" and enc: "cm_encrypt_rtcp cr c p i ssrc = Ok e"
  shows "cm_decrypt_rtcp cr c e i ssrc = Ok p \<and> cm_get_rtcp_index (cm_inner c) e = Ok i \<and> take 8 e = take 8 p \<and>
    8 \<le> length p \<and> length e = length p + (4 + rtcp_auth_tag_len (ci_profile (cm_inner c)))"
proof -
  let ?n = "rtcp_auth_tag_len (ci_profile (cm_inner c))" and ?i = "be32 (of_nat i OR push_bit 31 1)"
  obtain ctr w where ctr: "generate_counter (of_nat (i mod 65536)) (of_nat (i div 65536)) ssrc
        (ci_srtcp_session_salt (cm_inner c)) = Ok ctr"
      and w: "cm_apply cr (ci_profile (cm_inner c)) (cm_srtcp_session_key c) ctr 8 p = Ok w"
      and e: "e = (w @ ?i) @ take ?n (generate_srtcp_auth_tag cr (cm_inner c) (w @ ?i))"
    using enc by (auto simp: cm_encrypt_rtcp_def Let_def result_simps RTCP_HEADER_LENGTH_def SSRC_LENGTH_def)
  note ok = cm_apply_ok [OF w] and tag = good_cm_tag(2) [OF good, of "w @ ?i"]
  have len: "length e = length w + 4 + ?n" using tag by (simp add: e)
  have parts: "take (length e - ?n) e = w @ ?i" "take (length w) e = w"
      "drop (length e - ?n) e = take ?n (generate_srtcp_auth_tag cr (cm_inner c) (w @ ?i))"
      "drop (length w) e = ?i @ take ?n (generate_srtcp_auth_tag cr (cm_inner c) (w @ ?i))"
      "take 8 e = take 8 w"
    using tag ok by (simp_all add: e)
  have "e ! length w = hd ?i" by (simp add: e nth_append be32_def)
  then have flag: "drop_bit 7 (e ! length w) \<noteq> 0" using index_flag(2) [OF i] by simp
  have "cm_decrypt_rtcp cr c e i ssrc = Ok p"
    using ok ctr parts flag len tag
    by (simp add: cm_decrypt_rtcp_def Let_def guard_def SRTCP_INDEX_SIZE_def RTCP_HEADER_LENGTH_def SSRC_LENGTH_def)
  moreover have "cm_get_rtcp_index (cm_inner c) e = Ok i"
    using parts(4) len index_flag(1) [OF i] by (simp add: cm_get_rtcp_index_def Let_def SRTCP_INDEX_SIZE_def codec_simps)
  ultimately show ?thesis using ok len parts(5) by simp
qed

lemma cm_rtcp_no_panic:
  assumes "good_cm cr c" "8 + (4 + rtcp_auth_tag_len (ci_profile (cm_inner c))) \<le> length e"
  shows "no_panic (cm_decrypt_rtcp cr c e i ssrc) \<and> no_panic (cm_get_rtcp_index (cm_inner c) e)"
proof -
  let ?n = "rtcp_auth_tag_len (ci_profile (cm_inner c))"
  have key: "length (cm_srtcp_session_key c) = key_len (ci_profile (cm_inner c))"
    using assms(1) by (simp add: good_cm_def Let_def)
  obtain ctr where ctr: "generate_counter (of_nat (i mod 65536)) (of_nat (i div 65536)) ssrc
      (ci_srtcp_session_salt (cm_inner c)) = Ok ctr" "length ctr = 16"
    using generate_counter_total assms(1) by (metis good_cm_def)
  have "8 \<le> length (take (length e - (?n + 4)) e)" using assms(2) by simp
  then obtain w where "cm_apply cr (ci_profile (cm_inner c)) (cm_srtcp_session_key c) ctr 8
      (take (length e - (?n + 4)) e) = Ok w"
    using cm_apply_total [OF ctr(2) _ key] by blast
  then have "no_panic (cm_decrypt_rtcp cr c e i ssrc)"
    using ctr(1) assms(2)
    by (auto simp: cm_decrypt_rtcp_def Let_def guard_def SRTCP_INDEX_SIZE_def RTCP_HEADER_LENGTH_def SSRC_LENGTH_def)
  moreover have "4 \<le> length (drop (length e - (?n + 4)) e)" using assms(2) by simp
  then have "no_panic (cm_get_rtcp_index (cm_inner c) e)"
    using get_u32_ok [of "drop (length e - (?n + 4)) e"] assms(2)
    by (auto simp: cm_get_rtcp_index_def Let_def SRTCP_INDEX_SIZE_def)
  ultimately show ?thesis ..
qed

interpretation cm: srtp_cipher good_cm cm_encrypt_rtp cm_decrypt_rtp cm_encrypt_rtcp cm_decrypt_rtcp
  "\<lambda>c. cm_get_rtcp_index (cm_inner c)" "\<lambda>c. rtp_auth_tag_len (ci_profile (cm_inner c))"
  "\<lambda>c. rtp_auth_tag_len (ci_profile (cm_inner c))"
  "\<lambda>c. 4 + rtcp_auth_tag_len (ci_profile (cm_inner c))"
  by unfold_locales (simp_all add: cm_rtp cm_rtp_no_panic cm_rtcp cm_rtcp_no_panic)

section \<open>AES-GCM satisfies the contract\<close>

lemma crypto_ok_seal:
  assumes "crypto_ok cr" "cr_seal cr k n a p = Some (ct, tag)"
  shows "length ct = length p \<and> length tag = 16 \<and> cr_open cr k n a (ct @ tag) = Some p"
  using assms unfolding crypto_ok_def by blast

lemma good_gcm_tag: "good_gcm cr c \<Longrightarrow> aead_auth_tag_len (gc_profile c) = 16"
  by (auto simp: good_gcm_def)

lemma gcm_rtp:
  assumes good: "good_gcm cr c" and enc: "gcm_encrypt_rtp cr c p h roc = Ok e"
  shows "rtp_header_marshal_size h \<le> length p \<and> length e = length p + 16 \<and>
    take (rtp_header_marshal_size h) e = take (rtp_header_marshal_size h) p \<and> gcm_decrypt_rtp cr c e h roc = Ok p"
proof -
  let ?h = "rtp_header_marshal_size h"
  obtain nonce ct tag where nonce: "rtp_initialization_vector c h roc = Ok nonce" and h: "?h \<le> length p"
      and seal: "cr_seal cr (gc_srtp_cipher c) nonce (take ?h p) (drop ?h p) = Some (ct, tag)"
      and e: "e = take ?h p @ ct @ tag"
    using enc by (auto simp: gcm_encrypt_rtp_def Let_def result_simps split: if_splits option.splits)
  have "crypto_ok cr" using good by (simp add: good_gcm_def)
  note sealed = crypto_ok_seal [OF this seal]
  have "take ?h e = take ?h p" "drop ?h e = ct @ tag" "length e = length p + 16"
    using h sealed by (simp_all add: e)
  with nonce h sealed good_gcm_tag [OF good] show ?thesis
    by (simp add: gcm_decrypt_rtp_def Let_def guard_def)
qed

lemma gcm_rtp_no_panic:
  assumes "good_gcm cr c"
  shows "rtp_header_marshal_size h \<le> length p \<Longrightarrow> no_panic (gcm_encrypt_rtp cr c p h roc)"
    and "no_panic (gcm_decrypt_rtp cr c e h roc)"
  using assms
  by (auto simp: good_gcm_def gcm_encrypt_rtp_def gcm_decrypt_rtp_def rtp_initialization_vector_def Let_def guard_def
      split: option.splits)

lemma flag_byte: "(be32 w)[0 := be32 w ! 0 OR 0x80] = be32 (w OR push_bit 31 1)"
proof -
  define m where "m = push_bit 31 (1 :: u32)"
  define f where "f = push_bit 7 (1 :: u8)"
  have m: "bit m k \<longleftrightarrow> k = 31" for k unfolding m_def by (rule bit_push_one) simp
  have "bit (push_bit j (1 :: u8)) k \<longleftrightarrow> k = j" if "j < 8" for j k using that by (auto simp: bit_simps)
  from this [of 7] have f: "bit f k \<longleftrightarrow> k = 7" for k unfolding f_def by (simp only: less_numeral_simps) simp
  have "(be32 w)[0 := be32 w ! 0 OR f] = be32 (w OR m)"
    unfolding be32_def by (auto intro!: bit_word_eqI simp: bit_simps m f)
  then show ?thesis by (simp add: m_def f_def)
qed

lemma rtcp_aad_eq:
  "8 \<le> length p \<Longrightarrow>
    rtcp_additional_authenticated_data p i = Ok (take 8 p @ be32 (of_nat i OR push_bit 31 1))"
  by (simp add: rtcp_additional_authenticated_data_def Let_def RTCP_ENCRYPTION_FLAG_def nth_append list_update_append
      flag_byte [simplified])

lemma rtcp_aad_total: "no_panic (rtcp_additional_authenticated_data p i) \<longleftrightarrow> 8 \<le> length p"
  by (simp add: rtcp_additional_authenticated_data_def Let_def)

lemma gcm_rtcp:
  assumes good: "good_gcm cr c" and i: "i < 2 ^ 31" and enc: "gcm_encrypt_rtcp cr c p i ssrc = Ok e"
  shows "gcm_decrypt_rtcp cr c e i ssrc = Ok p \<and> gcm_get_rtcp_index e = Ok i \<and> take 8 e = take 8 p \<and>
    8 \<le> length p \<and> length e = length p + 20"
proof -
  define ix where "ix = be32 (of_nat i OR push_bit 31 1)"
  have len8: "8 \<le> length p"
    using enc by (auto simp: gcm_encrypt_rtcp_def rtcp_additional_authenticated_data_def result_simps split: if_splits)
  obtain nonce ct tag where nonce: "rtcp_initialization_vector c i ssrc = Ok nonce"
      and seal: "cr_seal cr (gc_srtcp_cipher c) nonce (take 8 p @ ix) (drop 8 p) = Some (ct, tag)"
      and e: "e = take 8 p @ ct @ tag @ ix"
    using enc len8
    by (auto simp: gcm_encrypt_rtcp_def rtcp_aad_eq ix_def result_simps split: option.splits)
  have "crypto_ok cr" using good by (simp add: good_gcm_def)
  note sealed = crypto_ok_seal [OF this seal]
  have ix: "length ix = 4" by (simp add: ix_def)
  have len: "length e = length p + 20" using len8 sealed ix by (simp add: e)
  have parts: "take 8 e = take 8 p" "take (length p + 16) e = take 8 p @ ct @ tag" "drop (length p + 16) e = ix"
    using len8 sealed by (simp_all add: e)
  have aad: "rtcp_additional_authenticated_data e i = Ok (take 8 p @ ix)"
    using len len8 parts(1) by (simp add: rtcp_aad_eq ix_def)
  have "gcm_decrypt_rtcp cr c e i ssrc = Ok p"
    using nonce aad parts(2) len len8 sealed good_gcm_tag [OF good]
    by (simp add: gcm_decrypt_rtcp_def Let_def guard_def SRTCP_INDEX_SIZE_def)
  moreover have "length e - 4 = length p + 16" using len by simp
  then have "get_u32 (drop (length e - 4) e) = Ok (of_nat i OR push_bit 31 1, [])"
    using parts(3) get_u32_be32 [of "of_nat i OR push_bit 31 1" "[]"] by (simp only: ix_def append_Nil2)
  then have "gcm_get_rtcp_index e = Ok i"
    using len index_flag(1) [OF i] by (simp add: gcm_get_rtcp_index_def RTCP_ENCRYPTION_FLAG_def)
  ultimately show ?thesis using len len8 parts(1) by simp
qed

lemma gcm_rtcp_no_panic:
  assumes "good_gcm cr c" "28 \<le> length e"
  shows "no_panic (gcm_decrypt_rtcp cr c e i ssrc) \<and> no_panic (gcm_get_rtcp_index e)"
proof
  show "no_panic (gcm_decrypt_rtcp cr c e i ssrc)"
    using assms
    by (auto simp: good_gcm_def gcm_decrypt_rtcp_def rtcp_initialization_vector_def rtcp_aad_eq Let_def guard_def
        split: option.splits)
  show "no_panic (gcm_get_rtcp_index e)"
    using get_u32_ok [of "drop (length e - 4) e"] assms(2) by (auto simp: gcm_get_rtcp_index_def)
qed

interpretation gcm: srtp_cipher good_gcm gcm_encrypt_rtp gcm_decrypt_rtp gcm_encrypt_rtcp gcm_decrypt_rtcp
  "\<lambda>_. gcm_get_rtcp_index" "\<lambda>_. 0" "\<lambda>_. 16" "\<lambda>_. 20"
  by unfold_locales (simp_all add: gcm_rtp gcm_rtp_no_panic gcm_rtcp gcm_rtcp_no_panic)

section \<open>Every cipher satisfies the contract\<close>

fun good_cipher :: "crypto \<Rightarrow> cipher \<Rightarrow> bool" where
  "good_cipher cr (AesCm c) = good_cm cr c"
| "good_cipher cr (AeadGcm c) = good_gcm cr c"

definition rtp_overhead :: "cipher \<Rightarrow> nat" where
  "rtp_overhead c = rtp_auth_tag_len (cipher_profile c) + aead_auth_tag_len (cipher_profile c)"

definition rtcp_overhead :: "cipher \<Rightarrow> nat" where
  "rtcp_overhead c = 4 + rtcp_auth_tag_len (cipher_profile c) + aead_auth_tag_len (cipher_profile c)"

lemma overhead_cm:
  "good_cm cr c \<Longrightarrow> rtp_overhead (AesCm c) = rtp_auth_tag_len (ci_profile (cm_inner c)) \<and>
    rtcp_overhead (AesCm c) = 4 + rtcp_auth_tag_len (ci_profile (cm_inner c))"
  by (auto simp: rtp_overhead_def rtcp_overhead_def good_cm_def Let_def)

lemma overhead_gcm: "good_gcm cr c \<Longrightarrow> rtp_overhead (AeadGcm c) = 16 \<and> rtcp_overhead (AeadGcm c) = 20"
  by (auto simp: rtp_overhead_def rtcp_overhead_def good_gcm_def)

interpretation any: srtp_cipher good_cipher cipher_encrypt_rtp cipher_decrypt_rtp cipher_encrypt_rtcp cipher_decrypt_rtcp
  cipher_get_rtcp_index "\<lambda>c. rtp_auth_tag_len (cipher_profile c)" rtp_overhead rtcp_overhead
proof (unfold_locales, goal_cases)
  case (1 cr c h p roc) then show ?case by (cases c) (simp_all add: cm.enc_no_panic gcm.enc_no_panic)
next
  case (2 cr c p h roc e) then show ?case by (cases c) (auto dest: cm.enc_dec gcm.enc_dec)
next
  case (3 cr c p h roc e)
  then show ?case by (cases c) (auto simp: overhead_cm overhead_gcm dest: cm.enc_shape gcm.enc_shape)
next
  case (4 cr c h e roc)
  then show ?case by (cases c) (auto intro: cm.dec_no_panic gcm_rtp_no_panic)
next
  case (5 cr c i p ssrc e)
  then show ?case by (cases c) (auto simp: overhead_cm overhead_gcm dest: cm.enc_dec_rtcp gcm.enc_dec_rtcp)
next
  case (6 cr c e i ssrc)
  then show ?case
    by (cases c) (auto simp: overhead_cm overhead_gcm dest: cm.rtcp_no_panic gcm.rtcp_no_panic)
qed

section \<open>The constructors make good ciphers\<close>

lemma prf_blocks_length:
  assumes "\<And>i. length (f i) = 16"
  shows "length (take n (concat (map f [0..<(n + 15) div 16]))) = n"
proof -
  have "length (concat (map f [0..<k])) = 16 * k" for k by (induction k) (simp_all add: assms)
  then show ?thesis by simp
qed

lemma aes_cm_key_derivation_length:
  assumes "crypto_ok cr" "aes_cm_key_derivation cr label mk ms 0 n = Ok out"
  shows "length out = n \<and> length mk = 16 \<and> length ms \<le> 16"
proof -
  let ?in = "(ms @ replicate (16 - length ms) 0)[7 := (ms @ replicate (16 - length ms) 0) ! 7 XOR label]"
  have len: "length mk = 16" "length ms \<le> 16" and out: "out = take n (concat (map (prf_block (cr_aes128 cr mk) ?in) [0..<(n + 15) div 16]))"
    using assms(2) by (auto simp: aes_cm_key_derivation_def guard_def Let_def split: if_splits)
  have "length (prf_block (cr_aes128 cr mk) ?in i) = 16" for i
    using assms(1) len(2) by (simp add: prf_block_def crypto_ok_def)
  then have "length out = n" unfolding out by (rule prf_blocks_length)
  with len show ?thesis by simp
qed

lemma aes_256_cm_key_derivation_length:
  assumes "crypto_ok cr" "aes_256_cm_key_derivation cr label mk ms 0 n = Ok out"
  shows "length out = n \<and> length mk = 32 \<and> length ms \<le> 16"
proof -
  let ?in = "xor_bytes ((replicate 16 0)[7 := label, 8 := 0, 9 := 0, 10 := 0, 11 := 0]) (ms @ replicate (16 - length ms) 0)"
  have len: "length mk = 32" "length ms \<le> 14" and out: "out = take n (concat (map (prf_block (cr_aes256 cr mk) ?in) [0..<(n + 15) div 16]))"
    using assms(2) unfolding aes_256_cm_key_derivation_def guard_def Let_def by (simp_all only: split: if_splits) auto
  have "length (prf_block (cr_aes256 cr mk) ?in i) = 16" for i
    using assms(1) len(2) by (simp add: prf_block_def crypto_ok_def)
  then have "length out = n" unfolding out by (rule prf_blocks_length)
  with len show ?thesis by simp
qed

lemma cipher_aes_cm_new_good:
  assumes ok: "crypto_ok cr" and new: "cipher_aes_cm_new cr profile mk ms = Ok c"
  shows "good_cm cr c \<and> ci_profile (cm_inner c) = profile"
proof -
  define kdf where "kdf = (if key_len profile = 16 then aes_cm_key_derivation cr else aes_256_cm_key_derivation cr)"
  have kdf: "kdf = aes_cm_key_derivation cr \<and> key_len profile = 16 \<or>
        kdf = aes_256_cm_key_derivation cr \<and> key_len profile = 32"
    by (cases profile) (simp_all add: kdf_def)
  have p: "profile \<in> {Aes128CmHmacSha1_80, Aes128CmHmacSha1_32, Aes256CmHmacSha1_80, Aes256CmHmacSha1_32}"
      and steps: "and_then (cipher_inner_new profile kdf mk ms) (\<lambda>inner.
        and_then (kdf LABEL_SRTP_ENCRYPTION mk ms 0 (length mk)) (\<lambda>k.
        and_then (kdf LABEL_SRTCP_ENCRYPTION mk ms 0 (length mk)) (\<lambda>k'.
        Ok \<lparr>cm_inner = inner, cm_srtp_session_key = k, cm_srtcp_session_key = k'\<rparr>))) = Ok c"
    using new by (cases profile, simp_all add: cipher_aes_cm_new_def kdf_def)+
  have len: "length out = n \<and> length mk = key_len profile \<and> length ms \<le> 16" if "kdf l mk ms 0 n = Ok out" for l n out
    using kdf that aes_cm_key_derivation_length [OF ok, of l mk ms n out] aes_256_cm_key_derivation_length [OF ok, of l mk ms n out]
    by auto
  obtain s a s' a' k k' where
      "kdf LABEL_SRTP_SALT mk ms 0 (length ms) = Ok s" "kdf LABEL_SRTCP_SALT mk ms 0 (length ms) = Ok s'"
      "kdf LABEL_SRTP_ENCRYPTION mk ms 0 (length mk) = Ok k" "kdf LABEL_SRTCP_ENCRYPTION mk ms 0 (length mk) = Ok k'"
      and c: "c = \<lparr>cm_inner = \<lparr>ci_profile = profile, ci_srtp_session_salt = s, ci_srtp_session_auth = a,
        ci_srtcp_session_salt = s', ci_srtcp_session_auth = a'\<rparr>, cm_srtp_session_key = k, cm_srtcp_session_key = k'\<rparr>"
    using steps by (auto simp: cipher_inner_new_def result_simps)
  note len [OF this(1)] len [OF this(2)] len [OF this(3)] len [OF this(4)]
  then show ?thesis using ok p by (simp add: c good_cm_def)
qed

lemma cipher_aead_aes_gcm_new_good:
  assumes ok: "crypto_ok cr" and new: "cipher_aead_aes_gcm_new cr profile mk ms = Ok c"
  shows "good_gcm cr c \<and> gc_profile c = profile"
proof -
  define kdf where "kdf = (if profile = AeadAes128Gcm then aes_cm_key_derivation cr else aes_256_cm_key_derivation cr)"
  have p: "profile \<in> {AeadAes128Gcm, AeadAes256Gcm}" using new by (cases profile) (simp_all add: cipher_aead_aes_gcm_new_def)
  then have salt: "length ms = 12" using new by (auto simp: cipher_aead_aes_gcm_new_def split: if_splits)
  obtain k k' s s' where s: "kdf LABEL_SRTP_SALT mk ms 0 (length ms) = Ok s" "kdf LABEL_SRTCP_SALT mk ms 0 (length ms) = Ok s'"
      and c: "c = \<lparr>gc_profile = profile, gc_srtp_cipher = k, gc_srtcp_cipher = k', gc_srtp_session_salt = s,
        gc_srtcp_session_salt = s'\<rparr>"
    using new p salt by (auto simp: cipher_aead_aes_gcm_new_def kdf_def Let_def result_simps)
  have "length out = n" if "kdf l mk ms 0 n = Ok out" for l n out
    using that aes_cm_key_derivation_length [OF ok, of l mk ms n out] aes_256_cm_key_derivation_length [OF ok, of l mk ms n out]
    by (auto simp: kdf_def split: if_splits)
  from this [OF s(1)] this [OF s(2)] show ?thesis using ok p salt by (simp add: c good_gcm_def)
qed

section \<open>Key streams of different packets\<close>

lemma xor_bytes_append:
  "length a = length b \<Longrightarrow> xor_bytes (a @ a') (b @ b') = xor_bytes a b @ xor_bytes a' b'"
  by (simp add: xor_bytes_def)

lemma be32_push_16: "be32 (push_bit 16 (ucast q)) = be16 q @ [0, 0]"
  unfolding be32_def be16_def by (auto intro!: bit_word_eqI simp: bit_simps)

text \<open>C36. Two packets that differ in their source, their rollover counter or their sequence number
are encrypted from counter blocks that differ in the first 14 bytes, and the last two bytes of
each block are zero: with a salt of at most 14 bytes, as the profiles have, the key streams
of two packets of at most 65536 blocks use no counter twice.\<close>

theorem keystream_counters_disjoint:
  assumes "length salt \<le> 14" "(ssrc, roc, q) \<noteq> (ssrc', roc', q')"
  shows "\<exists>c c'. generate_counter q roc ssrc salt = Ok c \<and> generate_counter q' roc' ssrc' salt = Ok c' \<and>
    take 14 c \<noteq> take 14 c' \<and> drop 14 c = [0, 0] \<and> drop 14 c' = [0, 0]"
proof -
  let ?s = "salt @ replicate (14 - length salt) 0"
  let ?b = "\<lambda>ssrc roc q. replicate 4 0 @ be32 ssrc @ be32 roc @ be16 q :: bytes"
  have s: "salt @ replicate (16 - length salt) 0 = ?s @ [0, 0]"
  proof -
    have "16 - length salt = (14 - length salt) + 2" using assms(1) by simp
    then show ?thesis using replicate_add [of "14 - length salt" 2 "0 :: u8"] by (simp add: numeral_2_eq_2)
  qed
  have c: "generate_counter q roc ssrc salt = Ok (xor_bytes (?b ssrc roc q) ?s @ [0, 0])" for q roc ssrc
  proof -
    have "xor_bytes (?b ssrc roc q @ [0, 0]) (?s @ [0, 0]) = xor_bytes (?b ssrc roc q) ?s @ xor_bytes [0, 0] [0, 0]"
      using assms(1) by (intro xor_bytes_append) simp
    then show ?thesis using assms(1) by (simp add: generate_counter_def s be32_push_16 xor_bytes_def)
  qed
  have len: "length (xor_bytes (?b ssrc roc q) ?s) = 14" for q roc ssrc using assms(1) by simp
  have "xor_bytes (?b ssrc roc q) ?s \<noteq> xor_bytes (?b ssrc' roc' q') ?s"
  proof
    assume "xor_bytes (?b ssrc roc q) ?s = xor_bytes (?b ssrc' roc' q') ?s"
    then have "?b ssrc roc q = ?b ssrc' roc' q'"
      by (rule xor_bytes_inject [rotated 2]) (use assms(1) in simp_all)
    then show False using assms(2) by (simp add: be32_inject be16_inject)
  qed
  with c len show ?thesis by simp
qed

theorem keystream_counters_disjoint_witness:
  "\<exists>c c'. generate_counter 1 0 7 (replicate 14 5) = Ok c \<and> generate_counter 1 1 7 (replicate 14 5) = Ok c' \<and>
    take 14 c \<noteq> take 14 c' \<and> drop 14 c = [0, 0] \<and> drop 14 c' = [0, 0]"
  by (rule keystream_counters_disjoint) simp_all

section \<open>RTCP packets with a clear encryption flag\<close>

lemma cm_decrypt_clear:
  assumes "8 \<le> length body" "length tag = rtcp_auth_tag_len (ci_profile (cm_inner c))" "bit i 31 = False"
  shows "cm_decrypt_rtcp cr c (body @ be32 i @ tag) k ssrc = Ok body"
    and "cm_get_rtcp_index (cm_inner c) (body @ be32 i @ tag) = Ok (unat i)"
proof -
  have "drop_bit 7 (be32 i ! 0) = 0"
    unfolding be32_def using assms(3) by (auto intro!: bit_word_eqI simp: bit_simps)
  then show "cm_decrypt_rtcp cr c (body @ be32 i @ tag) k ssrc = Ok body"
    using assms(1,2) by (simp add: cm_decrypt_rtcp_def guard_def SRTCP_INDEX_SIZE_def nth_append)
  define m where "m = push_bit 31 (1 :: u32)"
  have m: "bit m k \<longleftrightarrow> k = 31" for k unfolding m_def by (rule bit_push_one) simp
  have "i AND NOT m = i" using assms(3) by (auto intro!: bit_word_eqI simp: bit_simps m)
  then show "cm_get_rtcp_index (cm_inner c) (body @ be32 i @ tag) = Ok (unat i)"
    using assms(2) by (simp add: cm_get_rtcp_index_def SRTCP_INDEX_SIZE_def codec_simps m_def)
qed

end
