(* ===== verification/Srtp_Context.thy ===== *)
theory Srtp_Context
  imports Replay_Detector Srtp_Cipher
begin

text \<open>The SRTP context (\<open>rtc-srtp/src/context\<close>): per source, the rollover counter that extends
16-bit sequence numbers to packet indices, and a replay detector. The theory shows that the
guess of the rollover counter is exact for every packet less than 2^15 away, that a receiver
with the same keys recovers the packets of a sender, that no datagram makes the receiver panic, and two ways in which a datagram
that is not authentic has effects.\<close>

section \<open>State of a source\<close>

definition MAX_ROC :: u32 where "MAX_ROC = - 1"
definition SEQ_NUM_MEDIAN :: u16 where "SEQ_NUM_MEDIAN = 0x8000"
definition SEQ_NUM_MAX :: u16 where "SEQ_NUM_MAX = 0xFFFF"
definition MAX_SEQUENCE_NUMBER :: u16 where "MAX_SEQUENCE_NUMBER = 65535"
definition MAX_SRTCP_INDEX :: nat where "MAX_SRTCP_INDEX = 0x7FFFFFFF"

lemmas srtp_consts = MAX_ROC_def SEQ_NUM_MEDIAN_def SEQ_NUM_MAX_def MAX_SEQUENCE_NUMBER_def MAX_SRTCP_INDEX_def

record srtp_ssrc_state =
  ss_ssrc :: u32
  ss_index :: u64
  ss_rollover_has_processed :: bool
  ss_replay_detector :: "replay_detector option"

record srtcp_ssrc_state =
  sc_srtcp_index :: nat
  sc_ssrc :: u32
  sc_replay_detector :: "replay_detector option"

text \<open>The difference is an \<open>i32\<close> in the code; both numbers have 16 bits and at most 2^16 is added or
subtracted, so it never wraps and is an integer here.\<close>

definition next_rollover_count :: "u16 \<Rightarrow> srtp_ssrc_state \<Rightarrow> u32 \<times> int \<times> bool" where
  "next_rollover_count sequence_number s =
    (let local_roc = ucast (drop_bit 16 (ss_index s)) :: u32;
         local_seq = ucast (ss_index s) :: u16;
         seq = uint sequence_number - uint local_seq;
         (guess_roc, diff) =
           (if ss_rollover_has_processed s then
              if ss_index s > ucast SEQ_NUM_MEDIAN then
                if local_seq < SEQ_NUM_MEDIAN then
                  if seq > uint SEQ_NUM_MEDIAN then (local_roc - 1, seq - (uint SEQ_NUM_MAX + 1))
                  else (local_roc, seq)
                else if local_seq - SEQ_NUM_MEDIAN > sequence_number
                then (local_roc + 1, seq + (uint SEQ_NUM_MAX + 1))
                else (local_roc, seq)
              else (local_roc, seq)
            else (local_roc, 0))
     in (guess_roc, diff, guess_roc = 0 \<and> local_roc = MAX_ROC))"

definition update_rollover_count :: "u16 \<Rightarrow> int \<Rightarrow> srtp_ssrc_state \<Rightarrow> srtp_ssrc_state" where
  "update_rollover_count sequence_number diff s =
    (if \<not> ss_rollover_has_processed s
     then s\<lparr>ss_index := ss_index s OR ucast sequence_number, ss_rollover_has_processed := True\<rparr>
     else s\<lparr>ss_index := ss_index s + of_int diff\<rparr>)"

section \<open>Contexts\<close>

text \<open>A context option is the detector that its closure makes.\<close>

definition srtp_replay_protection :: "nat \<Rightarrow> replay_detector" where
  "srtp_replay_protection window_size = Wrapped (wrapped_detector_new window_size (ucast MAX_SEQUENCE_NUMBER))"

definition srtcp_replay_protection :: "nat \<Rightarrow> replay_detector" where
  "srtcp_replay_protection window_size = Wrapped (wrapped_detector_new window_size (of_nat MAX_SRTCP_INDEX))"

definition srtp_no_replay_protection :: replay_detector where "srtp_no_replay_protection = NoOp"
definition srtcp_no_replay_protection :: replay_detector where "srtcp_no_replay_protection = NoOp"

record srtp_context =
  cx_cipher :: cipher
  cx_srtp_ssrc_states :: "u32 \<rightharpoonup> srtp_ssrc_state"
  cx_srtcp_ssrc_states :: "u32 \<rightharpoonup> srtcp_ssrc_state"
  cx_new_srtp_replay_detector :: replay_detector
  cx_new_srtcp_replay_detector :: replay_detector

definition context_new ::
    "crypto \<Rightarrow> bytes \<Rightarrow> bytes \<Rightarrow> protection_profile \<Rightarrow> replay_detector option \<Rightarrow> replay_detector option \<Rightarrow> srtp_context result" where
  "context_new cr master_key master_salt profile srtp_ctx_opt srtcp_ctx_opt =
     guard (length master_key \<noteq> key_len profile) (Media SrtpMasterKeyLength)
    (guard (length master_salt \<noteq> salt_len profile) (Media SrtpSaltLength)
    (and_then
      (case profile of
         AeadAes128Gcm \<Rightarrow> and_then (cipher_aead_aes_gcm_new cr profile master_key master_salt) (\<lambda>c. Ok (AeadGcm c))
       | AeadAes256Gcm \<Rightarrow> and_then (cipher_aead_aes_gcm_new cr profile master_key master_salt) (\<lambda>c. Ok (AeadGcm c))
       | _ \<Rightarrow> and_then (cipher_aes_cm_new cr profile master_key master_salt) (\<lambda>c. Ok (AesCm c))) (\<lambda>cipher.
     Ok \<lparr>cx_cipher = cipher, cx_srtp_ssrc_states = Map.empty, cx_srtcp_ssrc_states = Map.empty,
         cx_new_srtp_replay_detector = (case srtp_ctx_opt of Some d \<Rightarrow> d | None \<Rightarrow> srtp_no_replay_protection),
         cx_new_srtcp_replay_detector = (case srtcp_ctx_opt of Some d \<Rightarrow> d | None \<Rightarrow> srtcp_no_replay_protection)\<rparr>)))"

text \<open>The state of a source, made on first use; the caller writes it back.\<close>

definition get_srtp_ssrc_state :: "u32 \<Rightarrow> srtp_context \<Rightarrow> srtp_ssrc_state" where
  "get_srtp_ssrc_state ssrc cx =
    (case cx_srtp_ssrc_states cx ssrc of
       Some s \<Rightarrow> s
     | None \<Rightarrow> \<lparr>ss_ssrc = ssrc, ss_index = 0, ss_rollover_has_processed = False,
                ss_replay_detector = Some (cx_new_srtp_replay_detector cx)\<rparr>)"

definition get_srtcp_ssrc_state :: "u32 \<Rightarrow> srtp_context \<Rightarrow> srtcp_ssrc_state" where
  "get_srtcp_ssrc_state ssrc cx =
    (case cx_srtcp_ssrc_states cx ssrc of
       Some s \<Rightarrow> s
     | None \<Rightarrow> \<lparr>sc_srtcp_index = 0, sc_ssrc = ssrc, sc_replay_detector = Some (cx_new_srtcp_replay_detector cx)\<rparr>)"

definition put_srtp :: "u32 \<Rightarrow> srtp_ssrc_state \<Rightarrow> srtp_context \<Rightarrow> srtp_context" where
  "put_srtp ssrc s cx = cx\<lparr>cx_srtp_ssrc_states := (cx_srtp_ssrc_states cx)(ssrc \<mapsto> s)\<rparr>"

definition put_srtcp :: "u32 \<Rightarrow> srtcp_ssrc_state \<Rightarrow> srtp_context \<Rightarrow> srtp_context" where
  "put_srtcp ssrc s cx = cx\<lparr>cx_srtcp_ssrc_states := (cx_srtcp_ssrc_states cx)(ssrc \<mapsto> s)\<rparr>"

definition get_roc :: "u32 \<Rightarrow> srtp_context \<Rightarrow> u32 option" where
  "get_roc ssrc cx = map_option (\<lambda>s. ucast (drop_bit 16 (ss_index s))) (cx_srtp_ssrc_states cx ssrc)"

definition set_roc :: "u32 \<Rightarrow> u32 \<Rightarrow> srtp_context \<Rightarrow> srtp_context" where
  "set_roc ssrc roc cx =
     put_srtp ssrc ((get_srtp_ssrc_state ssrc cx)\<lparr>ss_index := push_bit 16 (ucast roc), ss_rollover_has_processed := False\<rparr>) cx"

definition get_index :: "u32 \<Rightarrow> srtp_context \<Rightarrow> nat option" where
  "get_index ssrc cx = map_option sc_srtcp_index (cx_srtcp_ssrc_states cx ssrc)"

definition set_index :: "u32 \<Rightarrow> nat \<Rightarrow> srtp_context \<Rightarrow> srtp_context" where
  "set_index ssrc index cx =
     put_srtcp ssrc ((get_srtcp_ssrc_state ssrc cx)\<lparr>sc_srtcp_index := index mod (MAX_SRTCP_INDEX + 1)\<rparr>) cx"

section \<open>SRTP\<close>

text \<open>An absent detector lets every packet pass.\<close>

definition check_opt :: "u64 \<Rightarrow> replay_detector option \<Rightarrow> bool \<times> replay_detector option" where
  "check_opt seq od = (case od of None \<Rightarrow> (True, None) | Some d \<Rightarrow> map_prod id Some (rd_check seq d))"

definition accept_opt :: "replay_detector option \<Rightarrow> unit result \<times> replay_detector option" where
  "accept_opt od = (case od of None \<Rightarrow> (Ok (), None) | Some d \<Rightarrow> map_prod id Some (rd_accept d))"

definition decrypt_rtp_with_header :: "crypto \<Rightarrow> bytes \<Rightarrow> rtp_header \<Rightarrow> srtp_context \<Rightarrow> bytes result \<times> srtp_context" where
  "decrypt_rtp_with_header cr encrypted header cx =
    (if length encrypted < rtp_header_marshal_size header + rtp_auth_tag_len (cipher_profile (cx_cipher cx))
     then (Fail (Media ErrTooShortRtp), cx)
     else
       let ssrc = rh_ssrc header; seq = rh_sequence_number header;
           state = get_srtp_ssrc_state ssrc cx;
           (roc, diff, _) = next_rollover_count seq state;
           (fresh, rd) = check_opt (ucast seq) (ss_replay_detector state);
           state = state\<lparr>ss_replay_detector := rd\<rparr>;
           cx = put_srtp ssrc state cx
       in if \<not> fresh then (Fail (Media SrtpSsrcDuplicated), cx)
          else
            case cipher_decrypt_rtp cr (cx_cipher cx) encrypted header roc of
              Inl f \<Rightarrow> (Inl f, cx)
            | Inr dst \<Rightarrow>
                let (r, rd) = accept_opt (ss_replay_detector state);
                    state = update_rollover_count seq diff (state\<lparr>ss_replay_detector := rd\<rparr>)
                in (and_then r (\<lambda>_. Ok dst), put_srtp ssrc state cx))"

definition decrypt_rtp :: "crypto \<Rightarrow> bytes \<Rightarrow> srtp_context \<Rightarrow> bytes result \<times> srtp_context" where
  "decrypt_rtp cr encrypted cx =
    (case rtp_header_unmarshal encrypted of
       Inl f \<Rightarrow> (Inl f, cx)
     | Inr (header, _) \<Rightarrow> decrypt_rtp_with_header cr encrypted header cx)"

definition encrypt_rtp_with_header :: "crypto \<Rightarrow> bytes \<Rightarrow> rtp_header \<Rightarrow> srtp_context \<Rightarrow> bytes result \<times> srtp_context" where
  "encrypt_rtp_with_header cr plaintext header cx =
    (let ssrc = rh_ssrc header; seq = rh_sequence_number header;
         state = get_srtp_ssrc_state ssrc cx;
         (roc, diff, ovf) = next_rollover_count seq state;
         cx = put_srtp ssrc state cx
     in if ovf then (Fail (Media ErrExceededMaxPackets), cx)
        else
          case cipher_encrypt_rtp cr (cx_cipher cx) plaintext header roc of
            Inl f \<Rightarrow> (Inl f, cx)
          | Inr dst \<Rightarrow> (Ok dst, put_srtp ssrc (update_rollover_count seq diff state) cx))"

definition encrypt_rtp :: "crypto \<Rightarrow> bytes \<Rightarrow> srtp_context \<Rightarrow> bytes result \<times> srtp_context" where
  "encrypt_rtp cr plaintext cx =
    (case rtp_header_unmarshal plaintext of
       Inl f \<Rightarrow> (Inl f, cx)
     | Inr (header, _) \<Rightarrow> encrypt_rtp_with_header cr plaintext header cx)"

section \<open>SRTCP\<close>

text \<open>The source is read by indexing bytes 4 to 7, which panics when they are missing.\<close>

definition rtcp_ssrc :: "bytes \<Rightarrow> u32 result" where
  "rtcp_ssrc b = (if length b < 8 then panic else Ok (of_be32 (b ! 4) (b ! 5) (b ! 6) (b ! 7)))"

definition decrypt_rtcp :: "crypto \<Rightarrow> bytes \<Rightarrow> srtp_context \<Rightarrow> bytes result \<times> srtp_context" where
  "decrypt_rtcp cr encrypted cx =
    (let profile = cipher_profile (cx_cipher cx);
         min_len = 8 + SRTCP_INDEX_SIZE + rtcp_auth_tag_len profile + aead_auth_tag_len profile
     in if length encrypted < min_len then (Fail (Media ErrTooShortRtcp), cx)
        else
          case and_then (rtcp_header_unmarshal encrypted) (\<lambda>_.
               and_then (cipher_get_rtcp_index (cx_cipher cx) encrypted) (\<lambda>index.
               and_then (rtcp_ssrc encrypted) (\<lambda>ssrc. Ok (index, ssrc)))) of
            Inl f \<Rightarrow> (Inl f, cx)
          | Inr (index, ssrc) \<Rightarrow>
              let state = get_srtcp_ssrc_state ssrc cx;
                  (fresh, rd) = check_opt (of_nat index) (sc_replay_detector state);
                  state = state\<lparr>sc_replay_detector := rd\<rparr>;
                  cx = put_srtcp ssrc state cx
              in if \<not> fresh then (Fail (Media SrtcpSsrcDuplicated), cx)
                 else
                   case cipher_decrypt_rtcp cr (cx_cipher cx) encrypted index ssrc of
                     Inl f \<Rightarrow> (Inl f, cx)
                   | Inr dst \<Rightarrow>
                       let (r, rd) = accept_opt (sc_replay_detector state)
                       in (and_then r (\<lambda>_. Ok dst), put_srtcp ssrc (state\<lparr>sc_replay_detector := rd\<rparr>) cx))"

definition encrypt_rtcp :: "crypto \<Rightarrow> bytes \<Rightarrow> srtp_context \<Rightarrow> bytes result \<times> srtp_context" where
  "encrypt_rtcp cr decrypted cx =
    (if length decrypted < 8 then (Fail (Media ErrTooShortRtcp), cx)
     else
       case and_then (rtcp_header_unmarshal decrypted) (\<lambda>_. rtcp_ssrc decrypted) of
         Inl f \<Rightarrow> (Inl f, cx)
       | Inr ssrc \<Rightarrow>
           let state = get_srtcp_ssrc_state ssrc cx;
               index = (if sc_srtcp_index state + 1 > MAX_SRTCP_INDEX then 0 else sc_srtcp_index state + 1);
               cx = put_srtcp ssrc (state\<lparr>sc_srtcp_index := index\<rparr>) cx
           in (cipher_encrypt_rtcp cr (cx_cipher cx) decrypted index ssrc, cx))"

section \<open>The guess of the rollover counter\<close>

lemma index_parts:
  fixes x :: u64
  assumes "unat x = i" "i < 2 ^ 48"
  shows "ucast (drop_bit 16 x) = (of_nat (i div 65536) :: u32)" and "uint (ucast x :: u16) = int (i mod 65536)"
    and "unat (ucast x :: u16) = i mod 65536" and "x > ucast SEQ_NUM_MEDIAN \<longleftrightarrow> 32768 < i"
    and "ucast (drop_bit 16 x) = MAX_ROC \<longleftrightarrow> i div 65536 = 2 ^ 32 - 1"
proof -
  have d: "unat (drop_bit 16 x) = i div 65536" unfolding assms(1) [symmetric] by (simp add: drop_bit_eq_div unat_div_distrib)
  have x: "drop_bit 16 x = of_nat (i div 65536)" unfolding d [symmetric] by simp
  have small: "i div 65536 < 2 ^ 32" using assms(2) by (simp add: less_mult_imp_div_less)
  show roc: "ucast (drop_bit 16 x) = (of_nat (i div 65536) :: u32)"
    unfolding x using small by (simp add: word_unat_eq_iff unsigned_ucast_eq unsigned_of_nat take_bit_nat_eq_self)
  show u: "unat (ucast x :: u16) = i mod 65536" using assms(1) by (simp add: unsigned_ucast_eq take_bit_eq_mod)
  then show "uint (ucast x :: u16) = int (i mod 65536)" by (simp add: uint_nat)
  show "x > ucast SEQ_NUM_MEDIAN \<longleftrightarrow> 32768 < i"
    using assms(1) by (simp add: word_less_nat_alt SEQ_NUM_MEDIAN_def)
  have "unat (of_nat (i div 65536) :: u32) = i div 65536" using small by (simp add: unsigned_of_nat take_bit_nat_eq_self)
  then show "ucast (drop_bit 16 x) = MAX_ROC \<longleftrightarrow> i div 65536 = 2 ^ 32 - 1"
    unfolding roc MAX_ROC_def by (simp add: word_unat_eq_iff unsigned_minus_1_eq_mask mask_eq_exp_minus_1)
qed

lemma next_rollover_count_nat:
  assumes "ss_rollover_has_processed s" "unat (ss_index s) = i" "i < 2 ^ 48"
  shows "next_rollover_count q s =
    (let l = int (i mod 65536); r = of_nat (i div 65536); d = uint q - l;
         (g, diff) = (if 32768 < i \<and> l < 32768 \<and> 32768 < d then (r - 1, d - 65536)
                      else if 32768 < i \<and> d < - 32768 then (r + 1, d + 65536) else (r, d))
     in (g, diff, g = 0 \<and> i div 65536 = 2 ^ 32 - 1))"
proof -
  note p = index_parts [OF assms(2,3)]
  have "ucast (ss_index s) < SEQ_NUM_MEDIAN \<longleftrightarrow> i mod 65536 < 32768"
    unfolding word_less_nat_alt p(3) by (simp add: SEQ_NUM_MEDIAN_def)
  moreover have "ucast (ss_index s) - SEQ_NUM_MEDIAN > q \<longleftrightarrow> uint q - int (i mod 65536) < - 32768"
    if "\<not> i mod 65536 < 32768"
  proof -
    have "unat (ucast (ss_index s) - SEQ_NUM_MEDIAN) = i mod 65536 - 32768"
      using that p(3) by (subst unat_sub) (simp_all add: SEQ_NUM_MEDIAN_def word_le_nat_alt)
    then show ?thesis using that unfolding word_less_nat_alt uint_nat by linarith
  qed
  moreover have "\<not> uint q - int (i mod 65536) < - 32768" if "i mod 65536 < 32768"
    using that uint_ge_0 [of q] by linarith
  moreover have "uint SEQ_NUM_MEDIAN = 32768" "uint SEQ_NUM_MAX + 1 = 65536" by (simp_all add: srtp_consts)
  ultimately show ?thesis
    using assms(1) unfolding next_rollover_count_def p(1,2,4) p(5) [unfolded p(1)] Let_def
    by (cases "i mod 65536 < 32768") (simp_all del: of_nat_mod)
qed

lemma rollover_guess:
  assumes "ss_rollover_has_processed s" "unat (ss_index s) = i" "i < 2 ^ 48" "\<bar>int j - int i\<bar> < 2 ^ 15"
  shows "next_rollover_count (of_nat j) s = (of_nat (j div 65536), int j - int i, 2 ^ 48 \<le> j)"
    and "unat (ss_index (update_rollover_count (of_nat j) (int j - int i) s)) = j"
proof -
  define r l r' l' where rl: "r = i div 65536" "l = i mod 65536" "r' = j div 65536" "l' = j mod 65536"
  have i: "i = 65536 * r + l" "l < 65536" and j: "j = 65536 * r' + l'" "l' < 65536" by (simp_all add: rl)
  have r: "r < 2 ^ 32" using assms(3) by (simp add: rl less_mult_imp_div_less)
  have q: "uint (of_nat j :: u16) = int l'" by (simp add: rl unsigned_of_nat take_bit_eq_mod)
  have cases: "r' = r \<and> \<not> (32768 < i \<and> l < 32768 \<and> 32768 < int l' - int l) \<and> \<not> (32768 < i \<and> int l' - int l < - 32768) \<or>
      r' = r + 1 \<and> 32768 < i \<and> int l' - int l < - 32768 \<or>
      r = r' + 1 \<and> 32768 < i \<and> l < 32768 \<and> 32768 < int l' - int l"
  proof -
    have d: "j < i + 32768" "i < j + 32768" using assms(4) by (simp_all add: abs_less_iff)
    then have "r' \<le> r + 1" "r \<le> r' + 1" using i j by linarith+
    then consider "r' = r" | "r' = r + 1" | "r = r' + 1" by linarith
    then show ?thesis
    proof cases
      case 1 then show ?thesis using d i j by simp
    next
      case 2 then show ?thesis using d i j by simp
    next
      case 3 then show ?thesis using d i j by simp
    qed
  qed
  have zero: "(of_nat r' :: u32) = 0 \<and> r = 2 ^ 32 - 1 \<longleftrightarrow> 2 ^ 48 \<le> j"
  proof
    assume "(of_nat r' :: u32) = 0 \<and> r = 2 ^ 32 - 1"
    then have "r' mod 2 ^ 32 = 0" "r = 2 ^ 32 - 1" by (simp_all add: of_nat_eq_0_iff word_of_nat_eq_0_iff dvd_eq_mod_eq_0)
    with cases show "2 ^ 48 \<le> j" unfolding j(1) by auto
  next
    assume "2 ^ 48 \<le> j"
    then have "2 ^ 32 \<le> r'" using j by simp
    with cases r have "r' = 2 ^ 32" "r = 2 ^ 32 - 1" by linarith+
    then show "(of_nat r' :: u32) = 0 \<and> r = 2 ^ 32 - 1" by simp
  qed
  show "next_rollover_count (of_nat j) s = (of_nat (j div 65536), int j - int i, 2 ^ 48 \<le> j)"
    unfolding next_rollover_count_nat [OF assms(1-3)] q rl(1,2) [symmetric] zero [symmetric] rl(3) [symmetric]
    using cases i(1) j(1) by (auto simp: Let_def)
  have "of_int (int j - int i) = (of_nat j - of_nat i :: u64)" by simp
  moreover have "ss_index s = of_nat i" using assms(2) by auto
  moreover have "int j < int i + 2 ^ 15" using assms(4) by linarith
  then have "j < 2 ^ 64" using assms(3) by simp
  ultimately show "unat (ss_index (update_rollover_count (of_nat j) (int j - int i) s)) = j"
    using assms(1) by (simp add: update_rollover_count_def unsigned_of_nat take_bit_nat_eq_self)
qed

section \<open>Replay detectors of a source\<close>

text \<open>A detector that has accepted the packet \<open>l\<close> last, or no protection at all.\<close>

fun detector_at :: "u16 \<Rightarrow> replay_detector option \<Rightarrow> bool" where
  "detector_at l (Some NoOp) = True"
| "detector_at l (Some (Wrapped d)) = (wd_init d \<and> wd_max_seq d = 65535 \<and> wd_latest_seq d = ucast l \<and>
     wd_window_size d < 32768)"
| "detector_at l _ = False"

text \<open>The options under which packets ahead of the last one are accepted.\<close>

definition usual_detector :: "replay_detector \<Rightarrow> bool" where
  "usual_detector d \<longleftrightarrow> d = NoOp \<or> (\<exists>w<32768. d = srtp_replay_protection w)"

definition ahead :: "u16 \<Rightarrow> u16 \<Rightarrow> bool" where
  "ahead q l \<longleftrightarrow> 1 \<le> unat (q - l) \<and> unat (q - l) \<le> 32766"

lemma uint_ucast_u16 [simp]: "uint (ucast (q :: u16) :: u64) = uint q"
  by transfer simp

lemma ucast_u16_le: "(ucast (q :: u16) :: u64) \<le> 65535"
  using uint_lt2p [of q] by (simp add: word_le_def)

lemma ahead_wrap_diff:
  assumes "ahead q l"
  shows "wrap_diff 65535 (uint l - uint q) = - int (unat (q - l))"
proof -
  define x y k where xyk: "x = uint q" "y = uint l" "k = int (unat (q - l))"
  have "uint (q - l) = (x - y) mod 65536" unfolding xyk by (simp add: uint_word_ariths)
  then have "k = (x - y) mod 65536" unfolding xyk(3) by (simp only: uint_nat)
  moreover have "0 \<le> x" "x < 65536" "0 \<le> y" "y < 65536"
    using uint_lt2p [of q] uint_lt2p [of l] unfolding xyk by simp_all
  moreover have "(x - y) mod 65536 = (if y \<le> x then x - y else x - y + 65536)"
    using calculation(2-5) mod_add_self2 [of "x - y" 65536] mod_pos_pos_trivial [of "x - y" 65536]
      mod_pos_pos_trivial [of "x - y + 65536" 65536] by auto
  moreover have "1 \<le> k" "k \<le> 32766" using assms unfolding xyk ahead_def by linarith+
  ultimately have "wrap_diff 65535 (y - x) = - k" by (cases "y \<le> x") (simp_all add: wrap_diff_def)
  then show ?thesis unfolding xyk .
qed

lemma detector_ahead:
  assumes "detector_at l od" "ahead q l"
  shows "\<exists>od1 od2. check_opt (ucast q) od = (True, od1) \<and> accept_opt od1 = (Ok (), od2) \<and> detector_at q od2"
proof -
  consider "od = Some NoOp" | d where "od = Some (Wrapped d)" "wd_init d" "wd_max_seq d = 65535"
      "wd_latest_seq d = ucast l" "wd_window_size d < 32768"
    using assms(1) by (cases "(l, od)" rule: detector_at.cases) auto
  then show ?thesis
  proof cases
    case (2 d)
    have "sint (wd_diff 65535 (ucast l) (ucast q)) < 0"
      using wd_diff_65535 [OF ucast_u16_le ucast_u16_le, of l q] ahead_wrap_diff [OF assms(2)] assms(2)
      unfolding ahead_def uint_ucast_u16 by linarith
    moreover have "sint (of_nat (wd_window_size d) :: u64) = int (wd_window_size d)"
      using 2(5) by (intro window_sint) simp
    ultimately show ?thesis using 2 ucast_u16_le [of q]
      by (simp add: check_opt_def accept_opt_def wd_check_def wd_accept_def Let_def)
  qed (simp add: check_opt_def accept_opt_def)
qed

lemma ucast_pred: "(if ucast q \<noteq> (0 :: u64) then ucast q - 1 else 65535) = (ucast (q - 1 :: u16) :: u64)"
proof (cases "q = 0")
  case False
  then have "uint q \<noteq> 0" by (simp add: uint_0_iff)
  then have "1 \<le> uint q" using uint_ge_0 [of q] by linarith
  then have "uint (q - 1) = uint q - 1" "uint (ucast q - 1 :: u64) = uint q - 1"
    using uint_sub_lem [of 1 q] uint_sub_lem [of 1 "ucast q :: u64"] by simp_all
  moreover have "ucast q \<noteq> (0 :: u64)" using \<open>uint q \<noteq> 0\<close> by (metis uint_ucast_u16 uint_0_iff)
  ultimately show ?thesis by (simp add: word_uint_eq_iff)
next
  case True
  have "uint (- 1 :: u16) = 65535" by (simp add: unsigned_minus_1_eq_mask mask_eq_exp_minus_1)
  then have "(ucast (- 1 :: u16) :: u64) = 65535" by (simp only: word_uint_eq_iff uint_ucast_u16) simp
  with True show ?thesis by simp
qed

lemma detector_first:
  assumes "usual_detector d"
  shows "\<exists>od1 od2. check_opt (ucast q) (Some d) = (True, od1) \<and> accept_opt od1 = (Ok (), od2) \<and> detector_at q od2"
proof -
  consider "d = NoOp" | w where "w < 32768" "d = Wrapped (wrapped_detector_new w 65535)"
    using assms by (auto simp: usual_detector_def srtp_replay_protection_def srtp_consts)
  then show ?thesis
  proof cases
    case (2 w)
    let ?d = "wd_started (ucast q) (wrapped_detector_new w 65535)"
    have "check_opt (ucast q) (Some d) = check_opt (ucast q) (Some (Wrapped ?d))"
      using wd_check_first [of "wrapped_detector_new w 65535" "ucast q"] ucast_u16_le [of q] 2(2)
      by (simp add: check_opt_def wrapped_detector_new_def)
    moreover have "detector_at (q - 1) (Some (Wrapped ?d))"
      using 2(1) ucast_pred [of q] by (cases "ucast q = (0 :: u64)") (simp_all add: wd_started_def wrapped_detector_new_def)
    moreover have "ahead q (q - 1)" by (simp add: ahead_def)
    ultimately show ?thesis using detector_ahead [of "q - 1" "Some (Wrapped ?d)" q] by simp
  qed (simp add: check_opt_def accept_opt_def)
qed

section \<open>One packet\<close>

text \<open>Where a source stands: nothing yet, or the index of the last packet.\<close>

definition next_of :: "nat option \<Rightarrow> nat \<Rightarrow> bool" where
  "next_of prev j \<longleftrightarrow> (case prev of None \<Rightarrow> j < 65536 | Some i \<Rightarrow> i < j \<and> j \<le> i + 32766 \<and> j < 2 ^ 48)"

fun tx_at :: "u32 \<Rightarrow> nat option \<Rightarrow> srtp_context \<Rightarrow> bool" where
  "tx_at ssrc None cx = (cx_srtp_ssrc_states cx ssrc = None)"
| "tx_at ssrc (Some i) cx =
    (case cx_srtp_ssrc_states cx ssrc of
       None \<Rightarrow> False
     | Some s \<Rightarrow> ss_rollover_has_processed s \<and> unat (ss_index s) = i \<and> i < 2 ^ 48)"

definition rx_at :: "u32 \<Rightarrow> nat option \<Rightarrow> srtp_context \<Rightarrow> bool" where
  "rx_at ssrc prev cx \<longleftrightarrow> tx_at ssrc prev cx \<and>
     (case prev of
        None \<Rightarrow> usual_detector (cx_new_srtp_replay_detector cx)
      | Some i \<Rightarrow> detector_at (of_nat i) (ss_replay_detector (get_srtp_ssrc_state ssrc cx)))"

lemma state_step:
  assumes "tx_at ssrc prev cx" "next_of prev j"
  shows "\<exists>diff. next_rollover_count (of_nat j) (get_srtp_ssrc_state ssrc cx) = (of_nat (j div 65536), diff, False) \<and>
    (\<forall>od. let s = update_rollover_count (of_nat j) diff ((get_srtp_ssrc_state ssrc cx)\<lparr>ss_replay_detector := od\<rparr>)
      in ss_rollover_has_processed s \<and> unat (ss_index s) = j \<and> ss_replay_detector s = od) \<and> j < 2 ^ 48"
proof (cases prev)
  case None
  then have "j < 65536" "cx_srtp_ssrc_states cx ssrc = None" using assms by (simp_all add: next_of_def)
  moreover from this have "unat (ucast (of_nat j :: u16) :: u64) = j"
    by (simp add: unsigned_ucast_eq unsigned_of_nat take_bit_nat_eq_self)
  ultimately show ?thesis
    by (simp add: get_srtp_ssrc_state_def next_rollover_count_def update_rollover_count_def Let_def MAX_ROC_def)
next
  case (Some i)
  then obtain s where s: "cx_srtp_ssrc_states cx ssrc = Some s" "ss_rollover_has_processed s" "unat (ss_index s) = i" "i < 2 ^ 48"
    using assms(1) by (auto split: option.splits)
  have j: "\<bar>int j - int i\<bar> < 2 ^ 15" "j < 2 ^ 48" using assms(2) Some by (auto simp: next_of_def)
  have get: "get_srtp_ssrc_state ssrc cx = s" using s(1) by (simp add: get_srtp_ssrc_state_def)
  have "unat (ss_index (update_rollover_count (of_nat j) (int j - int i) (s\<lparr>ss_replay_detector := od\<rparr>))) = j" for od
    using rollover_guess(2) [of "s\<lparr>ss_replay_detector := od\<rparr>" i j] s j by simp
  moreover have "next_rollover_count (of_nat j) s = (of_nat (j div 65536), int j - int i, False)"
    using rollover_guess(1) [OF s(2-4) j(1)] j(2) by simp
  ultimately show ?thesis unfolding get using s(2) j(2) by (simp add: update_rollover_count_def Let_def)
qed

lemma put_srtp_sel [simp]:
  "cx_cipher (put_srtp ssrc s cx) = cx_cipher cx"
  "cx_srtp_ssrc_states (put_srtp ssrc s cx) = (cx_srtp_ssrc_states cx)(ssrc \<mapsto> s)"
  "cx_new_srtp_replay_detector (put_srtp ssrc s cx) = cx_new_srtp_replay_detector cx"
  "cx_srtcp_ssrc_states (put_srtp ssrc s cx) = cx_srtcp_ssrc_states cx"
  "get_srtp_ssrc_state ssrc (put_srtp ssrc s cx) = s"
  by (simp_all add: put_srtp_def get_srtp_ssrc_state_def)

lemma encrypt_step:
  assumes "tx_at (rh_ssrc h) prev cx" "next_of prev j" "rh_sequence_number h = of_nat j"
    and "cipher_encrypt_rtp cr (cx_cipher cx) p h (of_nat (j div 65536)) = Ok e"
  shows "\<exists>cx'. encrypt_rtp_with_header cr p h cx = (Ok e, cx') \<and> tx_at (rh_ssrc h) (Some j) cx' \<and>
    cx_cipher cx' = cx_cipher cx"
proof -
  let ?s = "get_srtp_ssrc_state (rh_ssrc h) cx"
  obtain diff where d: "next_rollover_count (of_nat j) ?s = (of_nat (j div 65536), diff, False)" "j < 2 ^ 48"
      "\<And>od. ss_rollover_has_processed (update_rollover_count (of_nat j) diff (?s\<lparr>ss_replay_detector := od\<rparr>)) \<and>
        unat (ss_index (update_rollover_count (of_nat j) diff (?s\<lparr>ss_replay_detector := od\<rparr>))) = j"
    using state_step [OF assms(1,2)] by (auto simp: Let_def)
  have "?s\<lparr>ss_replay_detector := ss_replay_detector ?s\<rparr> = ?s" by simp
  then have "ss_rollover_has_processed (update_rollover_count (of_nat j) diff ?s)"
      "unat (ss_index (update_rollover_count (of_nat j) diff ?s)) = j"
    using d(3) [of "ss_replay_detector ?s"] by simp_all
  then show ?thesis using assms(3,4) d(1,2) by (simp add: encrypt_rtp_with_header_def Let_def)
qed

lemma decrypt_step:
  assumes "rx_at (rh_ssrc h) prev cx" "next_of prev j" "rh_sequence_number h = of_nat j"
    and "cipher_decrypt_rtp cr (cx_cipher cx) e h (of_nat (j div 65536)) = Ok p"
    and "rtp_header_marshal_size h + rtp_auth_tag_len (cipher_profile (cx_cipher cx)) \<le> length e"
  shows "\<exists>cx'. decrypt_rtp_with_header cr e h cx = (Ok p, cx') \<and> rx_at (rh_ssrc h) (Some j) cx' \<and>
    cx_cipher cx' = cx_cipher cx"
proof -
  let ?s = "get_srtp_ssrc_state (rh_ssrc h) cx"
  have tx: "tx_at (rh_ssrc h) prev cx" using assms(1) by (simp add: rx_at_def)
  obtain diff where d: "next_rollover_count (of_nat j) ?s = (of_nat (j div 65536), diff, False)" "j < 2 ^ 48"
      "\<And>od. ss_rollover_has_processed (update_rollover_count (of_nat j) diff (?s\<lparr>ss_replay_detector := od\<rparr>)) \<and>
        unat (ss_index (update_rollover_count (of_nat j) diff (?s\<lparr>ss_replay_detector := od\<rparr>))) = j \<and>
        ss_replay_detector (update_rollover_count (of_nat j) diff (?s\<lparr>ss_replay_detector := od\<rparr>)) = od"
    using state_step [OF tx assms(2)] by (auto simp: Let_def)
  obtain od1 od2 where "check_opt (ucast (of_nat j :: u16)) (ss_replay_detector ?s) = (True, od1)"
      "accept_opt od1 = (Ok (), od2)" "detector_at (of_nat j) od2"
  proof (cases prev)
    case None
    then have "ss_replay_detector ?s = Some (cx_new_srtp_replay_detector cx)" "usual_detector (cx_new_srtp_replay_detector cx)"
      using assms(1) by (simp_all add: rx_at_def get_srtp_ssrc_state_def)
    then show ?thesis using detector_first [of "cx_new_srtp_replay_detector cx" "of_nat j"] that by metis
  next
    case (Some i)
    then have "detector_at (of_nat i) (ss_replay_detector ?s)" using assms(1) by (simp add: rx_at_def)
    moreover have "ahead (of_nat j) (of_nat i)"
    proof -
      have ij: "i < j" "j \<le> i + 32766" using assms(2) Some by (simp_all add: next_of_def)
      then obtain k where k: "j = i + k" "1 \<le> k" "k \<le> 32766" by (metis add_le_cancel_left less_imp_add_positive less_eq_Suc_le One_nat_def)
      then show ?thesis by (simp add: ahead_def unsigned_of_nat take_bit_nat_eq_self)
    qed
    ultimately show ?thesis using detector_ahead that by metis
  qed
  then show ?thesis using assms(3-5) d by (simp add: decrypt_rtp_with_header_def rx_at_def Let_def)
qed

section \<open>A session\<close>

text \<open>What the senders of the peer connection do with a packet, and what a receiver does with a
datagram.\<close>

definition send_packet :: "crypto \<Rightarrow> rtp_packet \<Rightarrow> srtp_context \<Rightarrow> bytes result \<times> srtp_context" where
  "send_packet cr pkt cx =
    (case rtp_packet_marshal pkt of Inl f \<Rightarrow> (Inl f, cx) | Inr raw \<Rightarrow> encrypt_rtp cr raw cx)"

definition receive_datagram :: "crypto \<Rightarrow> bytes \<Rightarrow> srtp_context \<Rightarrow> rtp_packet result \<times> srtp_context" where
  "receive_datagram cr raw cx =
    (case decrypt_rtp cr raw cx of (r, cx) \<Rightarrow> (and_then r rtp_packet_unmarshal, cx))"

text \<open>A session sends packets in order over a channel that loses those whose flag is false; the
result lists what the receiver gets.\<close>

fun session :: "crypto \<Rightarrow> (rtp_packet \<times> bool) list \<Rightarrow> srtp_context \<Rightarrow> srtp_context \<Rightarrow> rtp_packet result list" where
  "session cr [] tx rx = []"
| "session cr ((pkt, delivered) # ps) tx rx =
    (case send_packet cr pkt tx of
       (Inl f, tx) \<Rightarrow> Inl f # session cr ps tx rx
     | (Inr e, tx) \<Rightarrow>
         if delivered then (case receive_datagram cr e rx of (r, rx) \<Rightarrow> r # session cr ps tx rx)
         else session cr ps tx rx)"

text \<open>Indices of the packets of one source that fit the numbers on the wire: the sender and the
receiver each see gaps of at most 32766, and start below the first rollover.\<close>

fun paced :: "nat option \<Rightarrow> nat option \<Rightarrow> (nat \<times> bool) list \<Rightarrow> bool" where
  "paced sent seen [] = True"
| "paced sent seen ((j, delivered) # js) = (next_of sent j \<and>
     (if delivered then next_of seen j \<and> paced (Some j) (Some j) js else paced (Some j) seen js))"

definition stream_packet :: "u32 \<Rightarrow> nat \<Rightarrow> rtp_packet \<Rightarrow> bool" where
  "stream_packet ssrc j pkt \<longleftrightarrow> wf_rtp_header (rp_header pkt) \<and> rh_ssrc (rp_header pkt) = ssrc \<and>
     rh_sequence_number (rp_header pkt) = of_nat j \<and> rtp_packet_marshal_size pkt \<le> 65535"

text \<open>GCM encrypts every message of at most 65535 bytes.\<close>

definition crypto_seals :: "crypto \<Rightarrow> bool" where
  "crypto_seals cr \<longleftrightarrow> (\<forall>k n a p. length p \<le> 65535 \<longrightarrow> cr_seal cr k n a p \<noteq> None)"

lemma cipher_encrypt_total:
  assumes "good_cipher cr c" "crypto_seals cr" "rtp_header_marshal_size h \<le> length p" "length p \<le> 65535"
  shows "\<exists>e. cipher_encrypt_rtp cr c p h roc = Ok e"
proof (cases c)
  case (AesCm cm)
  then have good: "good_cm cr cm" using assms(1) by simp
  then have key: "length (cm_srtp_session_key cm) = key_len (ci_profile (cm_inner cm))"
    by (simp add: good_cm_def Let_def)
  obtain ctr where ctr: "generate_counter (rh_sequence_number h) roc (rh_ssrc h) (ci_srtp_session_salt (cm_inner cm)) = Ok ctr"
      "length ctr = 16"
    using generate_counter_total good by (metis good_cm_def)
  then show ?thesis using cm_apply_total [OF ctr(2) assms(3) key, of cr] AesCm
    by (auto simp: cm_encrypt_rtp_def Let_def)
next
  case (AeadGcm g)
  then have "length (gc_srtp_session_salt g) = 12" using assms(1) by (simp add: good_gcm_def)
  moreover have "cr_seal cr k n a (drop m p) \<noteq> None" for k n a m
    using assms(2,4) by (simp add: crypto_seals_def)
  ultimately show ?thesis using AeadGcm assms(3)
    by (auto simp: gcm_encrypt_rtp_def rtp_initialization_vector_def Let_def split: option.splits)
qed

lemma marshalled_packet:
  assumes "wf_rtp_header (rp_header pkt)"
  shows "\<exists>head tail. rtp_packet_marshal pkt = Ok (head @ tail) \<and> length head = rtp_header_marshal_size (rp_header pkt) \<and>
    length (head @ tail) = rtp_packet_marshal_size pkt \<and>
    rtp_packet_unmarshal (head @ tail) = Ok pkt \<and> (\<forall>rest. rtp_header_unmarshal (head @ rest) = Ok (rp_header pkt, rest))"
proof -
  let ?l = "rtp_packet_marshal_size pkt"
  obtain head where head: "rtp_header_marshal_to ?l (rp_header pkt) = Ok head"
      "length head = rtp_header_marshal_size (rp_header pkt)"
      "\<forall>rest. rtp_header_unmarshal (head @ rest) = Ok (rp_header pkt, rest)"
    using rtp_header_roundtrip [OF assms, of ?l] by (auto simp: rtp_packet_marshal_size_def)
  obtain bs where bs: "rtp_packet_marshal_to ?l pkt = Ok bs" "length bs = ?l" "rtp_packet_unmarshal bs = Ok pkt"
    using rtp_packet_roundtrip_to [OF assms] by blast
  obtain tail where "bs = head @ tail"
    using bs(1) head(1) by (auto simp: rtp_packet_marshal_to_def guard_def Let_def split: if_splits)
  with bs head show ?thesis
    by (intro exI [of _ head] exI [of _ tail]) (simp add: rtp_packet_marshal_def marshal_exact_def)
qed

lemma session_step:
  assumes good: "good_cipher cr (cx_cipher tx)" "crypto_seals cr" and pkt: "stream_packet ssrc j pkt"
    and tx: "tx_at ssrc sent tx" "next_of sent j"
  shows "\<exists>e tx'. send_packet cr pkt tx = (Ok e, tx') \<and> tx_at ssrc (Some j) tx' \<and> cx_cipher tx' = cx_cipher tx \<and>
    (\<forall>rx seen. rx_at ssrc seen rx \<and> next_of seen j \<and> cx_cipher rx = cx_cipher tx \<longrightarrow>
      (\<exists>rx'. receive_datagram cr e rx = (Ok pkt, rx') \<and> rx_at ssrc (Some j) rx' \<and> cx_cipher rx' = cx_cipher rx))"
proof -
  let ?h = "rp_header pkt" and ?roc = "of_nat (j div 65536)"
  have h: "wf_rtp_header ?h" "rh_ssrc ?h = ssrc" "rh_sequence_number ?h = of_nat j" "rtp_packet_marshal_size pkt \<le> 65535"
    using pkt by (simp_all add: stream_packet_def)
  obtain head tail where raw: "rtp_packet_marshal pkt = Ok (head @ tail)" "length head = rtp_header_marshal_size ?h"
      "length (head @ tail) = rtp_packet_marshal_size pkt" "rtp_packet_unmarshal (head @ tail) = Ok pkt"
      "\<And>rest. rtp_header_unmarshal (head @ rest) = Ok (?h, rest)"
    using marshalled_packet [OF h(1)] by blast
  obtain e where e: "cipher_encrypt_rtp cr (cx_cipher tx) (head @ tail) ?h ?roc = Ok e"
    using cipher_encrypt_total [OF good, of ?h "head @ tail" ?roc] raw(2,3) h(4) by auto
  have shape: "length e = length (head @ tail) + rtp_overhead (cx_cipher tx)" "take (length head) e = head"
      and dec: "cipher_decrypt_rtp cr (cx_cipher tx) e ?h ?roc = Ok (head @ tail)"
    using any.enc_shape [OF good(1) e] any.enc_dec [OF good(1) e] raw(2) by simp_all
  have eh: "rtp_header_unmarshal e = Ok (?h, drop (length head) e)"
    using raw(5) [of "drop (length head) e"] shape(2) append_take_drop_id [of "length head" e] by simp
  have len: "rtp_header_marshal_size ?h + rtp_auth_tag_len (cipher_profile (cx_cipher tx)) \<le> length e"
    using shape(1) raw(2) by (simp add: rtp_overhead_def)
  obtain tx' where "encrypt_rtp_with_header cr (head @ tail) ?h tx = (Ok e, tx')" "tx_at ssrc (Some j) tx'"
      "cx_cipher tx' = cx_cipher tx"
    using encrypt_step [of ?h sent tx j cr "head @ tail" e] tx h(2,3) e by auto
  moreover have "\<exists>rx'. receive_datagram cr e rx = (Ok pkt, rx') \<and> rx_at ssrc (Some j) rx' \<and> cx_cipher rx' = cx_cipher rx"
    if "rx_at ssrc seen rx" "next_of seen j" "cx_cipher rx = cx_cipher tx" for rx seen
    using decrypt_step [of ?h seen rx j cr e "head @ tail"] that h(2,3) dec len raw(4)
    by (auto simp: receive_datagram_def decrypt_rtp_def eh)
  ultimately show ?thesis using raw(1,5) by (auto simp: send_packet_def encrypt_rtp_def)
qed

lemma session_delivers:
  assumes "good_cipher cr (cx_cipher tx)" "crypto_seals cr" "cx_cipher rx = cx_cipher tx"
    and "tx_at ssrc sent tx" "rx_at ssrc seen rx" "paced sent seen (map (\<lambda>(j, _, d). (j, d)) js)"
    and "\<forall>(j, pkt, _) \<in> set js. stream_packet ssrc j pkt"
  shows "session cr (map snd js) tx rx = map (\<lambda>(_, pkt, _). Ok pkt) (filter (\<lambda>(_, _, d). d) js)"
  using assms
proof (induction js arbitrary: tx rx sent seen)
  case (Cons x js)
  obtain j pkt d where x: "x = (j, pkt, d)" by (cases x)
  have pkt: "stream_packet ssrc j pkt" and j: "next_of sent j" using Cons.prems x by auto
  obtain e tx' where tx: "send_packet cr pkt tx = (Ok e, tx')" "tx_at ssrc (Some j) tx'" "cx_cipher tx' = cx_cipher tx"
      and recv: "\<And>rx seen. rx_at ssrc seen rx \<Longrightarrow> next_of seen j \<Longrightarrow> cx_cipher rx = cx_cipher tx \<Longrightarrow>
        \<exists>rx'. receive_datagram cr e rx = (Ok pkt, rx') \<and> rx_at ssrc (Some j) rx' \<and> cx_cipher rx' = cx_cipher rx"
    using session_step [OF Cons.prems(1,2) pkt Cons.prems(4) j] by blast
  show ?case
  proof (cases d)
    case True
    then have "next_of seen j" using Cons.prems(6) x by simp
    then obtain rx' where rx: "receive_datagram cr e rx = (Ok pkt, rx')" "rx_at ssrc (Some j) rx'" "cx_cipher rx' = cx_cipher rx"
      using recv [OF Cons.prems(5)] Cons.prems(3) by blast
    have "session cr (map snd js) tx' rx' = map (\<lambda>(_, pkt, _). Ok pkt) (filter (\<lambda>(_, _, d). d) js)"
      using Cons.prems x True tx rx by (intro Cons.IH [of tx' rx' "Some j" "Some j"]) auto
    with x True tx(1) rx(1) show ?thesis by simp
  next
    case False
    have "session cr (map snd js) tx' rx = map (\<lambda>(_, pkt, _). Ok pkt) (filter (\<lambda>(_, _, d). d) js)"
      using Cons.prems x False tx by (intro Cons.IH [of tx' rx "Some j" seen]) auto
    with x False tx(1) show ?thesis by simp
  qed
qed simp

section \<open>Contexts that do not panic\<close>

definition calm :: "replay_detector option \<Rightarrow> bool" where
  "calm od = (case od of Some (SlidingWindow _) \<Rightarrow> False | _ \<Rightarrow> True)"

definition calm_context :: "crypto \<Rightarrow> srtp_context \<Rightarrow> bool" where
  "calm_context cr cx \<longleftrightarrow> good_cipher cr (cx_cipher cx) \<and>
     calm (Some (cx_new_srtp_replay_detector cx)) \<and> calm (Some (cx_new_srtcp_replay_detector cx)) \<and>
     (\<forall>ssrc. calm (ss_replay_detector (get_srtp_ssrc_state ssrc cx))) \<and>
     (\<forall>ssrc. calm (sc_replay_detector (get_srtcp_ssrc_state ssrc cx)))"

lemma wd_check_accept: "wd_check q d = (True, d') \<Longrightarrow> fst (wd_accept d') = Ok ()"
  by (auto simp: wd_check_def wd_accept_def Let_def split: if_splits)

lemma calm_check:
  assumes "calm od"
  shows "calm (snd (check_opt q od))" and "calm (snd (accept_opt od))"
    and "check_opt q od = (True, od') \<Longrightarrow> fst (accept_opt od') = Ok ()"
proof -
  consider "od = None" | "od = Some NoOp" | d where "od = Some (Wrapped d)"
    using assms by (auto simp: calm_def split: option.splits replay_detector.splits)
  then have "calm (snd (check_opt q od)) \<and> calm (snd (accept_opt od)) \<and>
      (check_opt q od = (True, od') \<longrightarrow> fst (accept_opt od') = Ok ())"
  proof cases
    case (3 d)
    then show ?thesis using wd_check_accept [of q d "snd (wd_check q d)"]
      by (cases "wd_check q d"; cases "wd_accept d") (auto simp: calm_def check_opt_def accept_opt_def)
  qed (auto simp: calm_def check_opt_def accept_opt_def)
  then show "calm (snd (check_opt q od))" "calm (snd (accept_opt od))"
      "check_opt q od = (True, od') \<Longrightarrow> fst (accept_opt od') = Ok ()"
    by blast+
qed

lemma get_put:
  "get_srtp_ssrc_state x (put_srtp ssrc s cx) = (if x = ssrc then s else get_srtp_ssrc_state x cx)"
  "get_srtcp_ssrc_state x (put_srtp ssrc s cx) = get_srtcp_ssrc_state x cx"
  "get_srtcp_ssrc_state x (put_srtcp ssrc t cx) = (if x = ssrc then t else get_srtcp_ssrc_state x cx)"
  "get_srtp_ssrc_state x (put_srtcp ssrc t cx) = get_srtp_ssrc_state x cx"
  by (simp_all add: put_srtp_def put_srtcp_def get_srtp_ssrc_state_def get_srtcp_ssrc_state_def split: option.split)

lemma calm_put:
  "calm_context cr cx \<Longrightarrow> calm (ss_replay_detector s) \<Longrightarrow> calm_context cr (put_srtp ssrc s cx)"
  "calm_context cr cx \<Longrightarrow> calm (sc_replay_detector t) \<Longrightarrow> calm_context cr (put_srtcp ssrc t cx)"
  unfolding calm_context_def get_put by (simp_all add: put_srtp_def put_srtcp_def)

lemma calm_get:
  "calm_context cr cx \<Longrightarrow> calm (ss_replay_detector (get_srtp_ssrc_state ssrc cx))"
  "calm_context cr cx \<Longrightarrow> calm (sc_replay_detector (get_srtcp_ssrc_state ssrc cx))"
  "calm_context cr cx \<Longrightarrow> good_cipher cr (cx_cipher cx)"
  by (simp_all add: calm_context_def)

lemma put_srtcp_sel [simp]: "cx_cipher (put_srtcp ssrc t cx) = cx_cipher cx"
  by (simp add: put_srtcp_def)

lemma update_rollover_detector [simp]: "ss_replay_detector (update_rollover_count q d s) = ss_replay_detector s"
  by (simp add: update_rollover_count_def)

lemma decrypt_rtp_calm:
  assumes calm: "calm_context cr cx"
  shows "no_panic (fst (decrypt_rtp cr e cx)) \<and> calm_context cr (snd (decrypt_rtp cr e cx))"
proof (cases "rtp_header_unmarshal e")
  case (Inl f)
  then show ?thesis using calm rtp_header_unmarshal_no_panic [of e] by (simp add: decrypt_rtp_def)
next
  case (Inr hr)
  obtain h where h: "rtp_header_unmarshal e = Ok (h, snd hr)" using Inr by (cases hr) simp
  let ?s = "get_srtp_ssrc_state (rh_ssrc h) cx" and ?q = "ucast (rh_sequence_number h) :: u64"
  obtain roc diff ovf where n: "next_rollover_count (rh_sequence_number h) ?s = (roc, diff, ovf)" by (metis prod_cases3)
  obtain ok od1 where c: "check_opt ?q (ss_replay_detector ?s) = (ok, od1)" by force
  obtain r od2 where a: "accept_opt od1 = (r, od2)" by force
  have od1: "calm od1" using calm_check(1) [OF calm_get(1) [OF calm], of ?q] c by (metis snd_conv)
  have od2: "calm od2" using calm_check(2) [OF od1] a by simp
  have r: "ok \<Longrightarrow> r = Ok ()" using calm_check(3) [OF calm_get(1) [OF calm], of ?q] c a by fastforce
  have put: "calm_context cr (put_srtp (rh_ssrc h) (?s\<lparr>ss_replay_detector := od1\<rparr>) cx)"
    using calm od1 by (simp add: calm_put)
  have put2: "calm_context cr (put_srtp (rh_ssrc h) (update_rollover_count (rh_sequence_number h) diff
      (?s\<lparr>ss_replay_detector := od2\<rparr>)) (put_srtp (rh_ssrc h) (?s\<lparr>ss_replay_detector := od1\<rparr>) cx))"
    using put od2 by (simp add: calm_put)
  show ?thesis
  proof (cases "length e < rtp_header_marshal_size h + rtp_auth_tag_len (cipher_profile (cx_cipher cx))")
    case False
    then have "no_panic (cipher_decrypt_rtp cr (cx_cipher cx) e h roc)"
      by (intro any.dec_no_panic [OF calm_get(3) [OF calm]]) simp
    then show ?thesis using False h n c a r put put2
      by (cases ok; cases "cipher_decrypt_rtp cr (cx_cipher cx) e h roc")
        (auto simp: decrypt_rtp_def decrypt_rtp_with_header_def Let_def)
  qed (use calm h in \<open>simp add: decrypt_rtp_def decrypt_rtp_with_header_def\<close>)
qed

lemma decrypt_rtcp_calm:
  assumes calm: "calm_context cr cx"
  shows "no_panic (fst (decrypt_rtcp cr e cx)) \<and> calm_context cr (snd (decrypt_rtcp cr e cx))"
proof (cases "8 + rtcp_overhead (cx_cipher cx) \<le> length e")
  case True
  note np = any.rtcp_no_panic [OF calm_get(3) [OF calm] True]
  have min: "\<not> length e < 8 + SRTCP_INDEX_SIZE + rtcp_auth_tag_len (cipher_profile (cx_cipher cx)) +
      aead_auth_tag_len (cipher_profile (cx_cipher cx))"
    using True by (simp add: rtcp_overhead_def SRTCP_INDEX_SIZE_def)
  let ?ssrc = "of_be32 (e ! 4) (e ! 5) (e ! 6) (e ! 7)"
  have pre: "and_then (rtcp_header_unmarshal e) (\<lambda>_. and_then (cipher_get_rtcp_index (cx_cipher cx) e)
      (\<lambda>i. and_then (rtcp_ssrc e) (\<lambda>ssrc. Ok (i, ssrc)))) =
    and_then (and_then (rtcp_header_unmarshal e) (\<lambda>_. cipher_get_rtcp_index (cx_cipher cx) e)) (\<lambda>i. Ok (i, ?ssrc))"
    using True by (cases "rtcp_header_unmarshal e") (simp_all add: rtcp_ssrc_def)
  let ?s = "get_srtcp_ssrc_state ?ssrc cx"
  show ?thesis
  proof (cases "and_then (rtcp_header_unmarshal e) (\<lambda>_. cipher_get_rtcp_index (cx_cipher cx) e)")
    case (Inl f)
    have "no_panic (and_then (rtcp_header_unmarshal e) (\<lambda>_. cipher_get_rtcp_index (cx_cipher cx) e))"
      by (intro no_panic_and_then rtcp_header_unmarshal_no_panic) (use np in blast)
    with Inl min calm show ?thesis by (simp add: decrypt_rtcp_def pre)
  next
    case (Inr i)
    obtain ok od1 where c: "check_opt (of_nat i) (sc_replay_detector ?s) = (ok, od1)" by force
    obtain r od2 where a: "accept_opt od1 = (r, od2)" by force
    have od1: "calm od1" using calm_check(1) [OF calm_get(2) [OF calm], of "of_nat i"] c by (metis snd_conv)
    have od2: "calm od2" using calm_check(2) [OF od1] a by simp
    have r: "ok \<Longrightarrow> r = Ok ()" using calm_check(3) [OF calm_get(2) [OF calm], of "of_nat i"] c a by fastforce
    have "calm_context cr (put_srtcp ?ssrc (?s\<lparr>sc_replay_detector := od1\<rparr>) cx)"
        "calm_context cr (put_srtcp ?ssrc (?s\<lparr>sc_replay_detector := od2\<rparr>)
          (put_srtcp ?ssrc (?s\<lparr>sc_replay_detector := od1\<rparr>) cx))"
      using calm od1 od2 by (simp_all add: calm_put)
    moreover have "no_panic (cipher_decrypt_rtcp cr (cx_cipher cx) e i ?ssrc)" using np by blast
    ultimately show ?thesis using min Inr c a r
      by (cases ok; cases "cipher_decrypt_rtcp cr (cx_cipher cx) e i ?ssrc") (auto simp: decrypt_rtcp_def pre Let_def)
  qed
next
  case False
  then show ?thesis using calm by (simp add: decrypt_rtcp_def rtcp_overhead_def SRTCP_INDEX_SIZE_def)
qed

lemma context_new_ok:
  assumes "crypto_ok cr" "context_new cr mk ms profile o1 o2 = Ok cx"
  shows "good_cipher cr (cx_cipher cx) \<and> cipher_profile (cx_cipher cx) = profile \<and>
    cx_srtp_ssrc_states cx = Map.empty \<and> cx_srtcp_ssrc_states cx = Map.empty \<and>
    cx_new_srtp_replay_detector cx = (case o1 of None \<Rightarrow> NoOp | Some d \<Rightarrow> d) \<and>
    cx_new_srtcp_replay_detector cx = (case o2 of None \<Rightarrow> NoOp | Some d \<Rightarrow> d)"
proof -
  let ?c = "case profile of
      AeadAes128Gcm \<Rightarrow> and_then (cipher_aead_aes_gcm_new cr profile mk ms) (\<lambda>c. Ok (AeadGcm c))
    | AeadAes256Gcm \<Rightarrow> and_then (cipher_aead_aes_gcm_new cr profile mk ms) (\<lambda>c. Ok (AeadGcm c))
    | _ \<Rightarrow> and_then (cipher_aes_cm_new cr profile mk ms) (\<lambda>c. Ok (AesCm c))"
  obtain c where c: "?c = Ok c"
      and cx: "cx = \<lparr>cx_cipher = c, cx_srtp_ssrc_states = Map.empty, cx_srtcp_ssrc_states = Map.empty,
         cx_new_srtp_replay_detector = (case o1 of Some d \<Rightarrow> d | None \<Rightarrow> srtp_no_replay_protection),
         cx_new_srtcp_replay_detector = (case o2 of Some d \<Rightarrow> d | None \<Rightarrow> srtcp_no_replay_protection)\<rparr>"
    using assms(2) unfolding context_new_def guard_Ok_iff and_then_Ok_iff by blast
  have "good_cipher cr c \<and> cipher_profile c = profile"
    using c cipher_aes_cm_new_good [OF assms(1), of profile mk ms] cipher_aead_aes_gcm_new_good [OF assms(1), of profile mk ms]
    by (cases profile) (auto simp: result_simps)
  then show ?thesis by (simp add: cx srtp_no_replay_protection_def srtcp_no_replay_protection_def split: option.split)
qed

lemma aes_cm_key_derivation_total:
  "length mk = 16 \<Longrightarrow> length ms \<le> 14 \<Longrightarrow> \<exists>out. aes_cm_key_derivation cr l mk ms 0 n = Ok out"
  "length mk = 32 \<Longrightarrow> length ms \<le> 14 \<Longrightarrow> n \<le> 32 \<Longrightarrow> \<exists>out. aes_256_cm_key_derivation cr l mk ms 0 n = Ok out"
  by (simp_all add: aes_cm_key_derivation_def aes_256_cm_key_derivation_def guard_def Let_def)

lemma context_new_total:
  assumes "crypto_ok cr" "length mk = key_len profile" "length ms = salt_len profile"
  shows "\<exists>cx. context_new cr mk ms profile o1 o2 = Ok cx"
proof -
  have kdf: "\<exists>out. aes_cm_key_derivation cr l mk ms 0 n = Ok out \<and> length out = n" if "length mk = 16" for l n
    using aes_cm_key_derivation_total(1) [of mk ms cr l n] aes_cm_key_derivation_length [OF assms(1)] that assms(3)
    by (cases profile) auto
  have kdf2: "\<exists>out. aes_256_cm_key_derivation cr l mk ms 0 n = Ok out \<and> length out = n" if "length mk = 32" "n \<le> 32" for l n
    using aes_cm_key_derivation_total(2) [of mk ms n cr l] aes_256_cm_key_derivation_length [OF assms(1)] that assms(3)
    by (cases profile) auto
  consider "key_len profile = 16" | "key_len profile = 32" by (cases profile) simp_all
  then show ?thesis
  proof cases
    case 1
    define out where "out l n = (case aes_cm_key_derivation cr l mk ms 0 n of Inr x \<Rightarrow> x)" for l n
    have "aes_cm_key_derivation cr l mk ms 0 n = Ok (out l n)" "length (out l n) = n" for l n
      using kdf [of l n] 1 assms(2) by (auto simp: out_def)
    then show ?thesis using assms(2,3) 1
      by (cases profile) (simp_all add: context_new_def guard_def cipher_aes_cm_new_def cipher_inner_new_def
        cipher_aead_aes_gcm_new_def Let_def)
  next
    case 2
    define out where "out l n = (case aes_256_cm_key_derivation cr l mk ms 0 n of Inr x \<Rightarrow> x)" for l n
    have "aes_256_cm_key_derivation cr l mk ms 0 n = Ok (out l n)" "length (out l n) = n" if "n \<le> 32" for l n
      using kdf2 [of n l] that 2 assms(2) by (auto simp: out_def)
    then show ?thesis using assms(2,3) 2
      by (cases profile) (simp_all add: context_new_def guard_def cipher_aes_cm_new_def cipher_inner_new_def
        cipher_aead_aes_gcm_new_def Let_def)
  qed
qed

section \<open>Forged datagrams\<close>

lemma wd_first:
  assumes "q \<le> m" "4 \<le> uint m" "uint m < 2 ^ 62" "int w < 2 ^ 63"
  shows "\<exists>d1 d2. wd_check q (wrapped_detector_new w m) = (True, d1) \<and> wd_accept d1 = (Ok (), d2) \<and>
    d1 = (wd_started q (wrapped_detector_new w m))\<lparr>wd_accepted := True, wd_seq := q\<rparr>"
proof -
  let ?l = "if q \<noteq> 0 then q - 1 else m"
  have l: "uint ?l \<le> uint m \<and> (uint ?l - uint q = - 1 \<or> uint ?l - uint q = uint m)"
  proof (cases "q = 0")
    case False
    then have "uint q \<noteq> 0" by (simp add: uint_0_iff)
    then have "1 \<le> uint q" using uint_ge_0 [of q] by linarith
    then have "uint (q - 1) = uint q - 1" using uint_sub_lem [of 1 q] by simp
    then show ?thesis using False assms(1) by (simp add: word_le_def)
  qed simp
  then have "sint (wd_diff m ?l q) = - 1"
    using wd_diff_sint [of m ?l q] assms(1-3) by (auto simp: word_le_def wrap_diff_def)
  then have neg: "sint (wd_diff m ?l q) < 0" by simp
  have win: "sint (of_nat w :: u64) = int w" using assms(4) by (rule window_sint)
  have "wd_check q (wrapped_detector_new w m) = (True, (wd_started q (wrapped_detector_new w m))\<lparr>wd_accepted := True, wd_seq := q\<rparr>)"
    using assms(1) neg win
    by (cases "q = 0") (simp_all add: wd_check_def wd_started_def wrapped_detector_new_def Let_def not_less)
  moreover have "\<exists>d2. wd_accept ((wd_started q (wrapped_detector_new w m))\<lparr>wd_accepted := True, wd_seq := q\<rparr>) = (Ok (), d2)"
    using neg win by (cases "q = 0") (simp_all add: wd_accept_def wd_started_def wrapped_detector_new_def Let_def)
  ultimately show ?thesis by blast
qed

lemma rtcp_header_prefix:
  assumes "rtcp_header_unmarshal b = Ok (h, r)"
  shows "rtcp_header_unmarshal (b @ x) = Ok (h, r @ x)"
proof -
  have "4 \<le> length b" using assms by (auto simp: rtcp_header_unmarshal_def result_simps RTCP_HEADER_LENGTH_def)
  then obtain b0 b1 b2 b3 r' where "b = b0 # b1 # b2 # b3 # r'"
    by (cases b; cases "tl b"; cases "tl (tl b)"; cases "tl (tl (tl b))") auto
  with assms show ?thesis by (auto simp: rtcp_header_unmarshal_def guard_def RTCP_HEADER_LENGTH_def split: if_splits)
qed

lemma stale_check:
  assumes "w \<le> unat (l - q)" "unat (l - q) \<le> 32767"
    and "wd_init d" "wd_max_seq d = 65535" "wd_latest_seq d = ucast (l :: u16)" "wd_window_size d = w"
  shows "fst (wd_check (ucast q) d) = False"
proof -
  define x y k where xyk: "x = uint q" "y = uint l" "k = int (unat (l - q))"
  have "uint (l - q) = (y - x) mod 65536" unfolding xyk by (simp add: uint_word_ariths)
  then have "k = (y - x) mod 65536" unfolding xyk(3) by (simp only: uint_nat)
  moreover have "0 \<le> x" "x < 65536" "0 \<le> y" "y < 65536"
    using uint_lt2p [of q] uint_lt2p [of l] unfolding xyk by simp_all
  moreover have "(y - x) mod 65536 = (if x \<le> y then y - x else y - x + 65536)"
    using calculation(2-5) mod_add_self2 [of "y - x" 65536] mod_pos_pos_trivial [of "y - x" 65536]
      mod_pos_pos_trivial [of "y - x + 65536" 65536] by auto
  moreover have "k \<le> 32767" using assms(2) unfolding xyk by linarith
  ultimately have "wrap_diff 65535 (y - x) = k" by (cases "x \<le> y") (simp_all add: wrap_diff_def)
  then have "sint (wd_diff 65535 (ucast l) (ucast q)) = int (unat (l - q))"
    using wd_diff_65535 [OF ucast_u16_le ucast_u16_le, of l q] unfolding xyk uint_ucast_u16 by linarith
  moreover have "sint (of_nat w :: u64) = int w" using assms(1,2) by (intro window_sint) simp
  ultimately have "sint (wd_diff 65535 (ucast l) (ucast q)) \<ge> sint (of_nat w :: u64)" using assms(1) by linarith
  then show ?thesis using assms(3-6) ucast_u16_le [of q] by (simp add: wd_check_def Let_def)
qed

section \<open>A concrete instance of the primitives\<close>

text \<open>Functions with the documented behaviour, to evaluate the definitions on.\<close>

definition demo_crypto :: crypto where
  "demo_crypto = \<lparr>cr_aes128 = (\<lambda>k b. b), cr_aes256 = (\<lambda>k b. b),
     cr_ctr128 = (\<lambda>k c i. of_nat i + hd (c @ [0])), cr_ctr256 = (\<lambda>k c i. of_nat i + hd (c @ [0])),
     cr_hmac_sha1 = (\<lambda>k m. replicate 20 (sum_list (k @ m))),
     cr_seal = (\<lambda>k n a p. Some (map ((XOR) 0x5A) p, replicate 16 (sum_list (k @ n @ a @ p)))),
     cr_open = (\<lambda>k n a c. let p = map ((XOR) 0x5A) (take (length c - 16) c) in
       if drop (length c - 16) c = replicate 16 (sum_list (k @ n @ a @ p)) then Some p else None)\<rparr>"

lemma demo_crypto_ok: "crypto_ok demo_crypto" "crypto_seals demo_crypto"
proof -
  have "(\<lambda>x. 0x5A XOR (0x5A XOR x)) = (\<lambda>x :: u8. x)" by (simp flip: xor.assoc)
  then have "map ((XOR) 0x5A) (map ((XOR) 0x5A) p) = p" for p :: bytes by (simp add: comp_def)
  then show "crypto_ok demo_crypto" by (simp add: crypto_ok_def demo_crypto_def Let_def)
qed (simp add: crypto_seals_def demo_crypto_def)

text \<open>A packet without CSRCs and extensions.\<close>

definition plain_header :: "u16 \<Rightarrow> u32 \<Rightarrow> rtp_header" where
  "plain_header q ssrc = \<lparr>rh_version = 2, rh_padding = False, rh_extension = False, rh_marker = False, rh_payload_type = 96,
     rh_sequence_number = q, rh_timestamp = 0, rh_ssrc = ssrc, rh_csrc = [], rh_extension_profile = 0, rh_extensions = [],
     rh_extensions_padding = 0\<rparr>"

definition plain_bytes :: "u16 \<Rightarrow> u32 \<Rightarrow> bytes" where
  "plain_bytes q ssrc = [0x80, 96] @ be16 q @ be32 0 @ be32 ssrc"

lemma plain_header_simps:
  "rtp_header_unmarshal (plain_bytes q ssrc @ rest) = Ok (plain_header q ssrc, rest)"
  "length (plain_bytes q ssrc) = 12" "rtp_header_marshal_size (plain_header q ssrc) = 12"
  "rh_ssrc (plain_header q ssrc) = ssrc" "rh_sequence_number (plain_header q ssrc) = q" "wf_rtp_header (plain_header q ssrc)"
  by (simp_all add: plain_bytes_def plain_header_def rtp_header_unmarshal_def guard_def Let_def rtp_consts codec_simps
      rtp_header_marshal_size_def marshal_size_for_def wf_rtp_header_def)

section \<open>Properties\<close>

text \<open>C9. The rollover counter. For a source whose last packet had the 48-bit index \<open>i\<close>, and any
packet less than 2^15 before or after it, the 16 bits on the wire are enough: the guess of the
rollover counter is the one of the true index \<open>j\<close>, the flag that stops the sender is set
exactly when the index leaves the 48 bits, and the update stores \<open>j\<close>.\<close>

theorem rollover_guess_exact:
  assumes "ss_rollover_has_processed s" "unat (ss_index s) = i" "i < 2 ^ 48" "\<bar>int j - int i\<bar> < 2 ^ 15"
  shows "next_rollover_count (of_nat j) s = (of_nat (j div 65536), int j - int i, 2 ^ 48 \<le> j) \<and>
    unat (ss_index (update_rollover_count (of_nat j) (int j - int i) s)) = j"
  using rollover_guess [OF assms] by simp

theorem rollover_guess_exact_witness:
  "next_rollover_count (of_nat 65537) \<lparr>ss_ssrc = 7, ss_index = 65535, ss_rollover_has_processed = True, ss_replay_detector = None\<rparr> = (1, 2, False)"
  using rollover_guess_exact [of "\<lparr>ss_ssrc = 7, ss_index = 65535, ss_rollover_has_processed = True, ss_replay_detector = None\<rparr>" 65535 65537]
  by simp

text \<open>The receiver over a sequence of datagrams, RTCP where the flag is set.\<close>

fun decrypt_run :: "crypto \<Rightarrow> (bool \<times> bytes) list \<Rightarrow> srtp_context \<Rightarrow> bytes result list" where
  "decrypt_run cr [] cx = []"
| "decrypt_run cr ((is_rtcp, raw) # ds) cx =
    (case (if is_rtcp then decrypt_rtcp cr raw cx else decrypt_rtp cr raw cx) of (r, cx) \<Rightarrow> r # decrypt_run cr ds cx)"

lemma decrypt_run_calm: "calm_context cr cx \<Longrightarrow> r \<in> set (decrypt_run cr ds cx) \<Longrightarrow> no_panic r"
proof (induction ds arbitrary: cx)
  case (Cons d ds)
  obtain t raw where d: "d = (t, raw)" by force
  obtain r' cx' where step: "(if t then decrypt_rtcp cr raw cx else decrypt_rtp cr raw cx) = (r', cx')" by force
  then have "no_panic r' \<and> calm_context cr cx'"
    using decrypt_rtp_calm [OF Cons.prems(1), of raw] decrypt_rtcp_calm [OF Cons.prems(1), of raw]
    by (cases t) auto
  with Cons d step show ?case by auto
qed simp

lemma calm_new:
  assumes "crypto_ok cr"
    and "context_new cr mk ms profile (map_option srtp_replay_protection w) (map_option srtcp_replay_protection w') = Ok cx"
  shows "calm_context cr cx"
  using context_new_ok [OF assms]
  by (auto simp: calm_context_def calm_def get_srtp_ssrc_state_def get_srtcp_ssrc_state_def srtp_replay_protection_def
      srtcp_replay_protection_def split: option.splits)

text \<open>C10. No sequence of datagrams, however malformed and whatever keys are in use, makes a receiving
context panic: RTP and RTCP, all protection profiles, with and without replay protection.\<close>

theorem srtp_receiver_never_panics:
  assumes "crypto_ok cr"
    and "context_new cr mk ms profile (map_option srtp_replay_protection w) (map_option srtcp_replay_protection w') = Ok cx"
    and "r \<in> set (decrypt_run cr ds cx)"
  shows "no_panic r"
  using decrypt_run_calm [OF calm_new [OF assms(1,2)] assms(3)] .

theorem srtp_receiver_never_panics_witness:
  "\<exists>cx. context_new demo_crypto (replicate 16 1) (replicate 12 2) AeadAes128Gcm (Some (srtp_replay_protection 64))
      (Some (srtcp_replay_protection 64)) = Ok cx \<and>
    list_all no_panic (decrypt_run demo_crypto [(True, [0x80, 200]), (False, [])] cx)"
proof -
  obtain cx where cx: "context_new demo_crypto (replicate 16 1) (replicate 12 2) AeadAes128Gcm
      (Some (srtp_replay_protection 64)) (Some (srtcp_replay_protection 64)) = Ok cx"
    using context_new_total [OF demo_crypto_ok(1), of "replicate 16 1" AeadAes128Gcm "replicate 12 2"] by auto
  then have "list_all no_panic (decrypt_run demo_crypto [(True, [0x80, 200]), (False, [])] cx)"
    using srtp_receiver_never_panics [OF demo_crypto_ok(1), of "replicate 16 1" "replicate 12 2" AeadAes128Gcm "Some 64" "Some 64" cx]
    unfolding list_all_iff by (metis option.simps(9))
  with cx show ?thesis by blast
qed

text \<open>C39. An RTCP packet whose encryption flag is clear is accepted without any key: with an AES-CM
profile, whatever the master key, a newly built receiver with SRTCP replay protection returns the
body of every such packet whose header parses and that holds the 8 bytes up to the source, with any index below 2^31 and any ten bytes in place of the authentication tag. RFC
3711 makes authentication mandatory for SRTCP, encrypted or not.\<close>

theorem forged_srtcp_accepted:
  assumes "crypto_ok cr" "context_new cr mk ms profile o1 (Some (srtcp_replay_protection w)) = Ok cx"
    and "profile \<in> {Aes128CmHmacSha1_80, Aes128CmHmacSha1_32, Aes256CmHmacSha1_80, Aes256CmHmacSha1_32}"
    and "int w < 2 ^ 63" "rtcp_header_unmarshal body = Ok (h, rest)" "8 \<le> length body" "length tag = 10" "unat i < 2 ^ 31"
  shows "fst (decrypt_rtcp cr (body @ be32 i @ tag) cx) = Ok body"
proof -
  note new = context_new_ok [OF assms(1,2)]
  obtain c where c: "cx_cipher cx = AesCm c"
    using new assms(3) by (cases "cx_cipher cx") (auto simp: good_gcm_def)
  have p: "ci_profile (cm_inner c) = profile" "rtcp_auth_tag_len profile = 10" "aead_auth_tag_len profile = 0"
    using new c assms(3) by auto
  have bit: "bit i 31 = False"
  proof -
    have "\<not> bit (unat i) 31" using assms(8) by (simp add: bit_iff_odd)
    then show ?thesis by (simp add: bit_unsigned_iff)
  qed
  note clear = cm_decrypt_clear [OF assms(6), of tag c i] 
  define n where "n = unat i"
  have le: "(of_nat n :: u64) \<le> of_nat MAX_SRTCP_INDEX"
    using assms(8) by (simp add: word_le_nat_alt unsigned_of_nat take_bit_nat_eq_self MAX_SRTCP_INDEX_def n_def [symmetric])
  have "\<exists>d1 d2. wd_check (of_nat n) (wrapped_detector_new w (of_nat MAX_SRTCP_INDEX)) = (True, d1) \<and> wd_accept d1 = (Ok (), d2)"
    using wd_first [OF le _ _ assms(4)] by (simp add: MAX_SRTCP_INDEX_def)
  then have "\<exists>od1 od2. check_opt (of_nat (unat i)) (Some (srtcp_replay_protection w)) = (True, od1) \<and> accept_opt od1 = (Ok (), od2)"
    unfolding n_def [symmetric] by (auto simp: check_opt_def accept_opt_def srtcp_replay_protection_def)
  then show ?thesis
    using new c p clear assms(6,7) bit rtcp_header_prefix [OF assms(5)]
    by (auto simp: decrypt_rtcp_def rtcp_ssrc_def Let_def SRTCP_INDEX_SIZE_def get_srtcp_ssrc_state_def)
qed

theorem forged_srtcp_accepted_witness:
  "\<exists>cx. context_new demo_crypto (replicate 16 1) (replicate 14 2) Aes128CmHmacSha1_80 None (Some (srtcp_replay_protection 64)) = Ok cx \<and>
    fst (decrypt_rtcp demo_crypto ([0x81, 203, 0, 1, 0, 0, 0, 7] @ be32 0 @ replicate 10 0) cx) = Ok [0x81, 203, 0, 1, 0, 0, 0, 7]"
proof -
  obtain cx where cx: "context_new demo_crypto (replicate 16 1) (replicate 14 2) Aes128CmHmacSha1_80 None
      (Some (srtcp_replay_protection 64)) = Ok cx"
    using context_new_total [OF demo_crypto_ok(1), of "replicate 16 1" Aes128CmHmacSha1_80 "replicate 14 2"] by auto
  have "\<exists>h rest. rtcp_header_unmarshal [0x81, 203, 0, 1, 0, 0, 0, 7] = Ok (h, rest)"
    by (simp add: rtcp_header_unmarshal_def guard_def RTCP_HEADER_LENGTH_def RTP_VERSION_def rtp_consts)
  then obtain h rest where "rtcp_header_unmarshal [0x81, 203, 0, 1, 0, 0, 0, 7] = Ok (h, rest)" by blast
  then show ?thesis
    using cx forged_srtcp_accepted [OF demo_crypto_ok(1) cx, of "[0x81, 203, 0, 1, 0, 0, 0, 7]" h rest "replicate 10 0" 0] by simp
qed

text \<open>C40. A datagram that fails authentication can silence a source. The first datagram with a new
SSRC places the replay window although nothing has been authenticated: if it carries sequence
number \<open>s\<close>, genuine packets that are at least the window size behind \<open>s - 1\<close> (modulo 2^16, up to
32767) are rejected as duplicates, although without the forgery they would be decrypted.\<close>

theorem forged_packet_blocks_source:
  assumes "crypto_ok cr" "context_new cr mk ms profile (Some (srtp_replay_protection w)) o2 = Ok cx"
    and forged: "rtp_header_unmarshal f = Ok (hf, rf)" "rh_ssrc hf = ssrc" "rh_sequence_number hf = s"
      "rtp_header_marshal_size hf + rtp_auth_tag_len profile \<le> length f" "cipher_decrypt_rtp cr (cx_cipher cx) f hf 0 = Fail err"
    and genuine: "rtp_header_unmarshal g = Ok (hg, rg)" "rh_ssrc hg = ssrc" "rh_sequence_number hg = q"
      "rtp_header_marshal_size hg + rtp_auth_tag_len profile \<le> length g" "cipher_decrypt_rtp cr (cx_cipher cx) g hg 0 = Ok p"
    and gap: "w \<le> unat (s - 1 - q)" "unat (s - 1 - q) \<le> 32767"
  shows "fst (decrypt_rtp cr g cx) = Ok p \<and> fst (decrypt_rtp cr f cx) = Fail err \<and>
    fst (decrypt_rtp cr g (snd (decrypt_rtp cr f cx))) = Fail (Media SrtpSsrcDuplicated)"
proof -
  note new = context_new_ok [OF assms(1,2)]
  let ?new = "\<lparr>ss_ssrc = ssrc, ss_index = 0, ss_rollover_has_processed = False,
    ss_replay_detector = Some (srtp_replay_protection w)\<rparr>"
  let ?d = "wrapped_detector_new w 65535"
  have get: "get_srtp_ssrc_state ssrc cx = ?new" using new by (simp add: get_srtp_ssrc_state_def)
  have roc: "next_rollover_count x \<lparr>ss_ssrc = ssrc, ss_index = 0, ss_rollover_has_processed = False,
      ss_replay_detector = od\<rparr> = (0, 0, False)" for x od
    by (simp add: next_rollover_count_def MAX_ROC_def)
  have "w \<le> 32767" using gap by linarith
  then have w: "int w < 2 ^ 63" by simp
  have det: "srtp_replay_protection w = Wrapped ?d" by (simp add: srtp_replay_protection_def srtp_consts)
  obtain d1 d2 where gd: "wd_check (ucast q) ?d = (True, d1)" "wd_accept d1 = (Ok (), d2)"
    using wd_first [OF ucast_u16_le [of q] _ _ w] by auto
  define e1 where "e1 = (wd_started (ucast s) ?d)\<lparr>wd_accepted := True, wd_seq := ucast s\<rparr>"
  have fd: "wd_check (ucast s) ?d = (True, e1)" using wd_first [OF ucast_u16_le [of s] _ _ w] by (auto simp: e1_def)
  have "wd_latest_seq e1 = ucast (s - 1)" using ucast_pred [of s]
    by (cases "ucast s = (0 :: u64)") (simp_all add: e1_def wd_started_def wrapped_detector_new_def)
  then have stale: "fst (wd_check (ucast q) e1) = False"
    using gap by (intro stale_check [of w "s - 1" q]) (simp_all add: e1_def wd_started_def wrapped_detector_new_def)
  have g: "fst (decrypt_rtp cr g cx) = Ok p"
    using genuine new gd by (simp add: decrypt_rtp_def decrypt_rtp_with_header_def get roc det check_opt_def accept_opt_def Let_def)
  have f: "decrypt_rtp cr f cx = (Fail err, put_srtp ssrc (?new\<lparr>ss_replay_detector := Some (Wrapped e1)\<rparr>) cx)"
    using forged new fd by (simp add: decrypt_rtp_def decrypt_rtp_with_header_def get roc det check_opt_def Let_def)
  have "fst (decrypt_rtp cr g (put_srtp ssrc (?new\<lparr>ss_replay_detector := Some (Wrapped e1)\<rparr>) cx)) = Fail (Media SrtpSsrcDuplicated)"
    using genuine new stale
    by (cases "wd_check (ucast q) e1") (simp add: decrypt_rtp_def decrypt_rtp_with_header_def roc check_opt_def Let_def)
  with g f show ?thesis by simp
qed

theorem forged_packet_blocks_source_witness:
  "\<exists>cx g. context_new demo_crypto (replicate 16 1) (replicate 12 2) AeadAes128Gcm (Some (srtp_replay_protection 64)) None = Ok cx \<and>
    fst (decrypt_rtp demo_crypto g cx) = Ok (plain_bytes 1 7 @ [5]) \<and>
    fst (decrypt_rtp demo_crypto g (snd (decrypt_rtp demo_crypto (plain_bytes 1000 7) cx))) = Fail (Media SrtpSsrcDuplicated)"
proof -
  let ?h = "plain_header 1 7" and ?p = "plain_bytes 1 7 @ [5]"
  obtain cx where cx: "context_new demo_crypto (replicate 16 1) (replicate 12 2) AeadAes128Gcm
      (Some (srtp_replay_protection 64)) None = Ok cx"
    using context_new_total [OF demo_crypto_ok(1), of "replicate 16 1" AeadAes128Gcm "replicate 12 2"] by auto
  note new = context_new_ok [OF demo_crypto_ok(1) cx]
  have good: "good_cipher demo_crypto (cx_cipher cx)" using new by blast
  obtain g where g: "cipher_encrypt_rtp demo_crypto (cx_cipher cx) ?p ?h 0 = Ok g"
    using cipher_encrypt_total [OF good demo_crypto_ok(2), of ?h ?p 0] by (auto simp: plain_header_simps)
  have shape: "take 12 g = plain_bytes 1 7" "13 \<le> length g"
    using any.enc_shape [OF good g] by (simp_all add: plain_header_simps)
  then have "rtp_header_unmarshal g = Ok (?h, drop 12 g)"
    using plain_header_simps(1) [of 1 7 "drop 12 g"] append_take_drop_id [of 12 g] by simp
  moreover have "cipher_decrypt_rtp demo_crypto (cx_cipher cx) (plain_bytes 1000 7) (plain_header 1000 7) 0 =
      Fail (Media ErrFailedToVerifyAuthTag)"
    using new by (cases "cx_cipher cx") (auto simp: good_cm_def Let_def gcm_decrypt_rtp_def guard_def plain_header_simps)
  ultimately have "fst (decrypt_rtp demo_crypto g cx) = Ok ?p \<and>
      fst (decrypt_rtp demo_crypto (plain_bytes 1000 7) cx) = Fail (Media ErrFailedToVerifyAuthTag) \<and>
      fst (decrypt_rtp demo_crypto g (snd (decrypt_rtp demo_crypto (plain_bytes 1000 7) cx))) = Fail (Media SrtpSsrcDuplicated)"
    using plain_header_simps(1) [of 1000 7 "[]"] shape any.enc_dec [OF good g]
    by (intro forged_packet_blocks_source [OF demo_crypto_ok(1) cx, where hf = "plain_header 1000 7" and hg = ?h and
          ssrc = 7 and s = 1000 and q = 1 and rf = "[]" and rg = "drop 12 g"])
      (simp_all add: plain_header_simps)
  with cx show ?thesis by blast
qed

end
