(* ===== verification/Srtp_Keys.thy ===== *)
theory Srtp_Keys
  imports Srtp_Context
begin

text \<open>From the DTLS handshake to SRTP contexts: the TLS pseudo-random function and the exporter
(\<open>rtc-dtls/src/prf\<close>, \<open>rtc-dtls/src/state.rs\<close>), the extraction of the session keys
(\<open>rtc-srtp/src/config.rs\<close>) and the construction of the two contexts of a peer
(\<open>rtc/src/peer_connection/handler/dtls.rs\<close>). HMAC-SHA256 comes from a crate and is a parameter.
The theory shows that the two ends of a handshake end up with matching contexts.\<close>

section \<open>The pseudo-random function\<close>

type_synonym hmac = "bytes \<Rightarrow> bytes \<Rightarrow> bytes"

text \<open>What the crate documents: a MAC has 32 bytes.\<close>

definition hmac_ok :: "hmac \<Rightarrow> bool" where
  "hmac_ok hmac \<longleftrightarrow> (\<forall>k m. length (hmac k m) = 32)"

datatype cipher_suite_hash = Sha256

fun cipher_suite_hash_size :: "cipher_suite_hash \<Rightarrow> nat" where
  "cipher_suite_hash_size Sha256 = 32"

fun p_hash_loop :: "hmac \<Rightarrow> bytes \<Rightarrow> bytes \<Rightarrow> nat \<Rightarrow> bytes \<Rightarrow> bytes" where
  "p_hash_loop hmac secret seed 0 last_round = []"
| "p_hash_loop hmac secret seed (Suc n) last_round =
    (let last_round = hmac secret last_round in
     hmac secret (last_round @ seed) @ p_hash_loop hmac secret seed n last_round)"

text \<open>The number of iterations is computed in floating point, exactly for lengths below 2^53 because
the divisor is a power of two: it is the quotient rounded up. The final slice panics on a
short output.\<close>

definition prf_p_hash :: "hmac \<Rightarrow> bytes \<Rightarrow> bytes \<Rightarrow> nat \<Rightarrow> cipher_suite_hash \<Rightarrow> bytes result" where
  "prf_p_hash hmac secret seed requested_length h =
    (let sz = cipher_suite_hash_size h;
         out = p_hash_loop hmac secret seed ((requested_length + (sz - 1)) div sz) seed
     in if length out < requested_length then panic else Ok (take requested_length out))"

section \<open>The exporter\<close>

definition str_bytes :: "string \<Rightarrow> bytes" where
  "str_bytes = map of_char"

text \<open>The time is in seconds relative to the epoch; earlier times are written as zero.\<close>

record handshake_random =
  hr_gmt_unix_time :: int
  hr_random_bytes :: bytes

definition handshake_random_marshal :: "handshake_random \<Rightarrow> bytes" where
  "handshake_random_marshal r =
     be32 (if hr_gmt_unix_time r < 0 then 0 else of_int (hr_gmt_unix_time r)) @ hr_random_bytes r"

datatype srtp_protection_profile =
  Srtp_Aes128_Cm_Hmac_Sha1_80 | Srtp_Aes128_Cm_Hmac_Sha1_32 | Srtp_Aead_Aes_128_Gcm | Srtp_Aead_Aes_256_Gcm
| Srtp_Unsupported

definition srtp_protection_profile_of :: "u16 \<Rightarrow> srtp_protection_profile" where
  "srtp_protection_profile_of val =
    (if val = 1 then Srtp_Aes128_Cm_Hmac_Sha1_80 else if val = 2 then Srtp_Aes128_Cm_Hmac_Sha1_32
     else if val = 7 then Srtp_Aead_Aes_128_Gcm else if val = 8 then Srtp_Aead_Aes_256_Gcm
     else Srtp_Unsupported)"

text \<open>The part of the DTLS state that the exporter and the SRTP set-up read; of the cipher suite,
its hash function.\<close>

record dtls_state =
  ds_local_epoch :: u16
  ds_local_random :: handshake_random
  ds_remote_random :: handshake_random
  ds_master_secret :: bytes
  ds_cipher_suite :: "cipher_suite_hash option"
  ds_srtp_protection_profile :: srtp_protection_profile
  ds_is_client :: bool

definition INVALID_KEYING_LABELS :: "string list" where
  "INVALID_KEYING_LABELS = [''client finished'', ''server finished'', ''master secret'', ''key expansion'']"

definition export_keying_material :: "hmac \<Rightarrow> dtls_state \<Rightarrow> string \<Rightarrow> bytes \<Rightarrow> nat \<Rightarrow> bytes result" where
  "export_keying_material hmac st label context_bytes len =
     guard (ds_local_epoch st = 0) (Media HandshakeInProgress)
    (guard (context_bytes \<noteq> []) (Media ContextUnsupported)
    (guard (label \<in> set INVALID_KEYING_LABELS) (Media ReservedExportKeyingMaterial)
    (let local_random = handshake_random_marshal (ds_local_random st);
         remote_random = handshake_random_marshal (ds_remote_random st);
         seed = str_bytes label @
           (if ds_is_client st then local_random @ remote_random else remote_random @ local_random)
     in case ds_cipher_suite st of
          None \<Rightarrow> Fail (Media CipherSuiteUnset)
        | Some h \<Rightarrow> prf_p_hash hmac (ds_master_secret st) seed len h)))"

section \<open>Session keys\<close>

definition LABEL_EXTRACTOR_DTLS_SRTP :: string where
  "LABEL_EXTRACTOR_DTLS_SRTP = ''EXTRACTOR-dtls_srtp''"

record session_keys =
  sk_local_master_key :: bytes
  sk_local_master_salt :: bytes
  sk_remote_master_key :: bytes
  sk_remote_master_salt :: bytes

record srtp_config =
  sg_keys :: session_keys
  sg_profile :: protection_profile
  sg_local_rtp_options :: "replay_detector option"
  sg_remote_rtp_options :: "replay_detector option"
  sg_local_rtcp_options :: "replay_detector option"
  sg_remote_rtcp_options :: "replay_detector option"

text \<open>The slices panic when the exporter returns fewer bytes than asked for.\<close>

definition extract_session_keys_from_dtls ::
    "(string \<Rightarrow> bytes \<Rightarrow> nat \<Rightarrow> bytes result) \<Rightarrow> bool \<Rightarrow> srtp_config \<Rightarrow> srtp_config result" where
  "extract_session_keys_from_dtls exporter is_client config =
    (let k = key_len (sg_profile config); s = salt_len (sg_profile config) in
     and_then (exporter LABEL_EXTRACTOR_DTLS_SRTP [] (k * 2 + s * 2)) (\<lambda>m.
     if length m < k * 2 + s * 2 then panic
     else
       let client_write_key = take k m; server_write_key = take k (drop k m);
           client_write_salt = take s (drop (2 * k) m); server_write_salt = take s (drop (2 * k + s) m)
       in Ok (config\<lparr>sg_keys :=
            (if is_client
             then \<lparr>sk_local_master_key = client_write_key, sk_local_master_salt = client_write_salt,
                   sk_remote_master_key = server_write_key, sk_remote_master_salt = server_write_salt\<rparr>
             else \<lparr>sk_local_master_key = server_write_key, sk_local_master_salt = server_write_salt,
                   sk_remote_master_key = client_write_key, sk_remote_master_salt = client_write_salt\<rparr>)\<rparr>)))"

section \<open>The contexts of a peer\<close>

record replay_protection =
  rp_dtls :: nat
  rp_srtp :: nat
  rp_srtcp :: nat

definition DEFAULT_SESSION_SRTP_REPLAY_PROTECTION_WINDOW :: nat where
  "DEFAULT_SESSION_SRTP_REPLAY_PROTECTION_WINDOW = 64"

definition DEFAULT_SESSION_SRTCP_REPLAY_PROTECTION_WINDOW :: nat where
  "DEFAULT_SESSION_SRTCP_REPLAY_PROTECTION_WINDOW = 64"

fun srtp_profile_of_dtls :: "srtp_protection_profile \<Rightarrow> protection_profile result" where
  "srtp_profile_of_dtls Srtp_Aead_Aes_128_Gcm = Ok AeadAes128Gcm"
| "srtp_profile_of_dtls Srtp_Aead_Aes_256_Gcm = Ok AeadAes256Gcm"
| "srtp_profile_of_dtls Srtp_Aes128_Cm_Hmac_Sha1_80 = Ok Aes128CmHmacSha1_80"
| "srtp_profile_of_dtls Srtp_Aes128_Cm_Hmac_Sha1_32 = Ok Aes128CmHmacSha1_32"
| "srtp_profile_of_dtls Srtp_Unsupported = Fail (Media ErrNoSuchSrtpProfile)"

definition update_srtp_contexts ::
    "crypto \<Rightarrow> hmac \<Rightarrow> dtls_state \<Rightarrow> replay_protection \<Rightarrow> (srtp_context \<times> srtp_context) result" where
  "update_srtp_contexts cr hmac st rp =
     and_then (srtp_profile_of_dtls (ds_srtp_protection_profile st)) (\<lambda>profile.
     let config = \<lparr>sg_keys = \<lparr>sk_local_master_key = [], sk_local_master_salt = [], sk_remote_master_key = [],
                     sk_remote_master_salt = []\<rparr>,
                   sg_profile = profile, sg_local_rtp_options = None,
                   sg_remote_rtp_options = (if rp_srtp rp \<noteq> 0 then Some (srtp_replay_protection (rp_srtp rp)) else None),
                   sg_local_rtcp_options = None,
                   sg_remote_rtcp_options = (if rp_srtcp rp \<noteq> 0 then Some (srtcp_replay_protection (rp_srtcp rp)) else None)\<rparr>
     in and_then (extract_session_keys_from_dtls (export_keying_material hmac st) (ds_is_client st) config) (\<lambda>config.
        and_then (context_new cr (sk_local_master_key (sg_keys config)) (sk_local_master_salt (sg_keys config))
            (sg_profile config) (sg_local_rtp_options config) (sg_local_rtcp_options config)) (\<lambda>local_context.
        and_then (context_new cr (sk_remote_master_key (sg_keys config)) (sk_remote_master_salt (sg_keys config))
            (sg_profile config)
            (case sg_remote_rtp_options config of
               None \<Rightarrow> Some (srtp_replay_protection DEFAULT_SESSION_SRTP_REPLAY_PROTECTION_WINDOW)
             | Some d \<Rightarrow> Some d)
            (case sg_remote_rtcp_options config of
               None \<Rightarrow> Some (srtcp_replay_protection DEFAULT_SESSION_SRTCP_REPLAY_PROTECTION_WINDOW)
             | Some d \<Rightarrow> Some d)) (\<lambda>remote_context.
        Ok (local_context, remote_context)))))"

section \<open>Both ends derive the same keys\<close>

lemma prf_p_hash_total:
  assumes "hmac_ok hmac"
  shows "\<exists>out. prf_p_hash hmac secret seed n h = Ok out \<and> length out = n"
proof -
  have "length (p_hash_loop hmac secret seed k l) = 32 * k" for k l
    using assms by (induction k arbitrary: l) (simp_all add: hmac_ok_def Let_def)
  then show ?thesis by (cases h) (simp add: prf_p_hash_def)
qed

text \<open>The two ends of a completed handshake.\<close>

definition peers :: "dtls_state \<Rightarrow> dtls_state \<Rightarrow> bool" where
  "peers c s \<longleftrightarrow> ds_is_client c \<and> \<not> ds_is_client s \<and> ds_local_epoch c \<noteq> 0 \<and> ds_local_epoch s \<noteq> 0 \<and>
     ds_local_random c = ds_remote_random s \<and> ds_remote_random c = ds_local_random s \<and>
     ds_master_secret c = ds_master_secret s \<and> ds_cipher_suite c \<noteq> None \<and> ds_cipher_suite s = ds_cipher_suite c \<and>
     ds_srtp_protection_profile c = ds_srtp_protection_profile s \<and> ds_srtp_protection_profile c \<noteq> Srtp_Unsupported"

lemma exporters_agree:
  assumes "hmac_ok hmac" "peers c s"
  shows "\<exists>m. length m = n \<and> export_keying_material hmac c LABEL_EXTRACTOR_DTLS_SRTP [] n = Ok m \<and>
    export_keying_material hmac s LABEL_EXTRACTOR_DTLS_SRTP [] n = Ok m"
proof -
  obtain h where h: "ds_cipher_suite c = Some h" "ds_cipher_suite s = Some h" using assms(2) by (auto simp: peers_def)
  let ?seed = "str_bytes LABEL_EXTRACTOR_DTLS_SRTP @ handshake_random_marshal (ds_local_random c) @
    handshake_random_marshal (ds_remote_random c)"
  obtain m where "prf_p_hash hmac (ds_master_secret c) ?seed n h = Ok m" "length m = n"
    using prf_p_hash_total [OF assms(1)] by blast
  then show ?thesis using assms(2) h
    by (simp add: export_keying_material_def guard_def peers_def INVALID_KEYING_LABELS_def LABEL_EXTRACTOR_DTLS_SRTP_def)
qed

lemma context_new_cipher:
  assumes "context_new cr mk ms profile o1 o2 = Ok cx" "context_new cr mk ms profile o1' o2' = Ok cx'"
  shows "cx_cipher cx = cx_cipher cx'"
  using assms by (auto simp: context_new_def result_simps)

definition remote_window :: "replay_protection \<Rightarrow> nat" where
  "remote_window rp = (if rp_srtp rp = 0 then 64 else rp_srtp rp)"

lemma update_srtp_contexts_eq:
  assumes "export_keying_material hmac st LABEL_EXTRACTOR_DTLS_SRTP [] (key_len profile * 2 + salt_len profile * 2) = Ok m"
    and "length m = key_len profile * 2 + salt_len profile * 2"
    and "srtp_profile_of_dtls (ds_srtp_protection_profile st) = Ok profile" "crypto_ok cr"
  shows "\<exists>lc rc o2. update_srtp_contexts cr hmac st rp = Ok (lc, rc) \<and>
    (let k = key_len profile; s = salt_len profile; ck = take k m; sk = take k (drop k m); cs = take s (drop (2 * k) m);
         ss = take s (drop (2 * k + s) m) in
     context_new cr (if ds_is_client st then ck else sk) (if ds_is_client st then cs else ss) profile None None = Ok lc \<and>
     context_new cr (if ds_is_client st then sk else ck) (if ds_is_client st then ss else cs) profile
       (Some (srtp_replay_protection (remote_window rp))) o2 = Ok rc)"
proof -
  let ?k = "key_len profile" and ?s = "salt_len profile"
  let ?ck = "take ?k m" and ?sk = "take ?k (drop ?k m)" and ?cs = "take ?s (drop (2 * ?k) m)" and ?ss = "take ?s (drop (2 * ?k + ?s) m)"
  let ?lk = "if ds_is_client st then ?ck else ?sk" and ?ls = "if ds_is_client st then ?cs else ?ss"
  let ?rk = "if ds_is_client st then ?sk else ?ck" and ?rs = "if ds_is_client st then ?ss else ?cs"
  let ?o2 = "Some (srtcp_replay_protection (if rp_srtcp rp = 0 then 64 else rp_srtcp rp))"
  have len: "length ?lk = ?k" "length ?ls = ?s" "length ?rk = ?k" "length ?rs = ?s" using assms(2) by auto
  obtain lc where lc: "context_new cr ?lk ?ls profile None None = Ok lc"
    using context_new_total [OF assms(4) len(1,2)] by blast
  obtain rc where rc: "context_new cr ?rk ?rs profile (Some (srtp_replay_protection (remote_window rp))) ?o2 = Ok rc"
    using context_new_total [OF assms(4) len(3,4)] by blast
  have ext: "extract_session_keys_from_dtls (export_keying_material hmac st) (ds_is_client st) config =
      Ok (config\<lparr>sg_keys := \<lparr>sk_local_master_key = ?lk, sk_local_master_salt = ?ls, sk_remote_master_key = ?rk,
        sk_remote_master_salt = ?rs\<rparr>\<rparr>)" if "sg_profile config = profile" for config
    using assms(1,2) that by (simp add: extract_session_keys_from_dtls_def Let_def)
  have opts: "(case (if rp_srtp rp \<noteq> 0 then Some (srtp_replay_protection (rp_srtp rp)) else None) of
        None \<Rightarrow> Some (srtp_replay_protection DEFAULT_SESSION_SRTP_REPLAY_PROTECTION_WINDOW) | Some d \<Rightarrow> Some d) =
      Some (srtp_replay_protection (remote_window rp))"
    "(case (if rp_srtcp rp \<noteq> 0 then Some (srtcp_replay_protection (rp_srtcp rp)) else None) of
        None \<Rightarrow> Some (srtcp_replay_protection DEFAULT_SESSION_SRTCP_REPLAY_PROTECTION_WINDOW) | Some d \<Rightarrow> Some d) = ?o2"
    by (simp_all add: remote_window_def DEFAULT_SESSION_SRTP_REPLAY_PROTECTION_WINDOW_def
        DEFAULT_SESSION_SRTCP_REPLAY_PROTECTION_WINDOW_def)
  have "update_srtp_contexts cr hmac st rp = Ok (lc, rc)"
    unfolding update_srtp_contexts_def assms(3) Let_def and_then.simps
    by (subst ext) (simp_all only: srtp_config.simps session_keys.simps and_then.simps lc rc opts)
  with lc rc show ?thesis unfolding Let_def by blast
qed

lemma peers_match:
  assumes "crypto_ok cr" "hmac_ok hmac" "peers c s"
  shows "\<exists>cl cr' sl sr. update_srtp_contexts cr hmac c rp = Ok (cl, cr') \<and> update_srtp_contexts cr hmac s rp' = Ok (sl, sr) \<and>
    cx_cipher cl = cx_cipher sr \<and> cx_cipher sl = cx_cipher cr' \<and>
    good_cipher cr (cx_cipher cl) \<and> good_cipher cr (cx_cipher sl) \<and>
    cx_srtp_ssrc_states cl = Map.empty \<and> cx_srtp_ssrc_states sl = Map.empty \<and>
    cx_srtp_ssrc_states cr' = Map.empty \<and> cx_srtp_ssrc_states sr = Map.empty \<and>
    cx_new_srtp_replay_detector cr' = srtp_replay_protection (remote_window rp) \<and>
    cx_new_srtp_replay_detector sr = srtp_replay_protection (remote_window rp')"
proof -
  obtain profile where p: "srtp_profile_of_dtls (ds_srtp_protection_profile c) = Ok profile"
      "srtp_profile_of_dtls (ds_srtp_protection_profile s) = Ok profile"
    using assms(3) by (cases "ds_srtp_protection_profile c") (auto simp: peers_def)
  obtain m where m: "length m = key_len profile * 2 + salt_len profile * 2"
      "export_keying_material hmac c LABEL_EXTRACTOR_DTLS_SRTP [] (key_len profile * 2 + salt_len profile * 2) = Ok m"
      "export_keying_material hmac s LABEL_EXTRACTOR_DTLS_SRTP [] (key_len profile * 2 + salt_len profile * 2) = Ok m"
    using exporters_agree [OF assms(2,3)] by blast
  have side: "ds_is_client c" "\<not> ds_is_client s" using assms(3) by (simp_all add: peers_def)
  obtain cl cr' o2 where c: "update_srtp_contexts cr hmac c rp = Ok (cl, cr')"
      "context_new cr (take (key_len profile) m) (take (salt_len profile) (drop (2 * key_len profile) m)) profile None None = Ok cl"
      "context_new cr (take (key_len profile) (drop (key_len profile) m))
        (take (salt_len profile) (drop (2 * key_len profile + salt_len profile) m)) profile
        (Some (srtp_replay_protection (remote_window rp))) o2 = Ok cr'"
    using update_srtp_contexts_eq [OF m(2,1) p(1) assms(1), of rp] side by (auto simp: Let_def)
  obtain sl sr o2' where s: "update_srtp_contexts cr hmac s rp' = Ok (sl, sr)"
      "context_new cr (take (key_len profile) (drop (key_len profile) m))
        (take (salt_len profile) (drop (2 * key_len profile + salt_len profile) m)) profile None None = Ok sl"
      "context_new cr (take (key_len profile) m) (take (salt_len profile) (drop (2 * key_len profile) m)) profile
        (Some (srtp_replay_protection (remote_window rp'))) o2' = Ok sr"
    using update_srtp_contexts_eq [OF m(3,1) p(2) assms(1), of rp'] side by (auto simp: Let_def)
  note ok = context_new_ok [OF assms(1)]
  show ?thesis
    using c(1) s(1) context_new_cipher [OF c(2) s(3)] context_new_cipher [OF s(2) c(3)]
      ok [OF c(2)] ok [OF c(3)] ok [OF s(2)] ok [OF s(3)] by simp
qed

section \<open>Media between the ends of a handshake\<close>

text \<open>What it takes for the packets of one source to be deliverable.\<close>

definition media_stream :: "u32 \<Rightarrow> (nat \<times> rtp_packet \<times> bool) list \<Rightarrow> bool" where
  "media_stream ssrc js \<longleftrightarrow> paced None None (map (\<lambda>(j, _, d). (j, d)) js) \<and> (\<forall>(j, pkt, _) \<in> set js. stream_packet ssrc j pkt)"

lemma media_delivered:
  assumes "crypto_seals cr" "good_cipher cr (cx_cipher tx)" "cx_cipher rx = cx_cipher tx"
    and "cx_srtp_ssrc_states tx = Map.empty" "cx_srtp_ssrc_states rx = Map.empty"
    and "cx_new_srtp_replay_detector rx = srtp_replay_protection w" "w < 32768" "media_stream ssrc js"
  shows "session cr (map snd js) tx rx = map (\<lambda>(_, pkt, _). Ok pkt) (filter (\<lambda>(_, _, d). d) js)"
proof -
  have "rx_at ssrc None rx" using assms(5-7) by (auto simp: rx_at_def usual_detector_def)
  then show ?thesis using assms by (intro session_delivers [where sent = None and seen = None and ssrc = ssrc])
    (auto simp: media_stream_def)
qed

text \<open>C1. Media from one peer to the other, end to end. When the two ends of a DTLS handshake agree on
the randoms, the master secret and a profile, both build their SRTP contexts successfully, and
the packets of a source that one end marshals and encrypts are decrypted and parsed by the other
end into the packets that were sent: exactly those the network delivers, across any number of
sequence number rollovers, with losses and jumps of up to 32766 packets, in both directions and
under every profile that can be negotiated. The first packet that is delivered must have been sent
before the first rollover: the receiver starts with a rollover counter of 0.\<close>

theorem media_end_to_end:
  assumes "crypto_ok cr" "crypto_seals cr" "hmac_ok hmac" "peers c s"
    and "rp_srtp rp < 32768" "rp_srtp rp' < 32768" "media_stream ssrc js" "media_stream ssrc' js'"
  shows "\<exists>cl cr' sl sr. update_srtp_contexts cr hmac c rp = Ok (cl, cr') \<and> update_srtp_contexts cr hmac s rp' = Ok (sl, sr) \<and>
    session cr (map snd js) cl sr = map (\<lambda>(_, pkt, _). Ok pkt) (filter (\<lambda>(_, _, d). d) js) \<and>
    session cr (map snd js') sl cr' = map (\<lambda>(_, pkt, _). Ok pkt) (filter (\<lambda>(_, _, d). d) js')"
proof -
  have w: "remote_window rp < 32768" "remote_window rp' < 32768" using assms(5,6) by (simp_all add: remote_window_def)
  obtain cl cr' sl sr where up: "update_srtp_contexts cr hmac c rp = Ok (cl, cr')" "update_srtp_contexts cr hmac s rp' = Ok (sl, sr)"
      and ci: "cx_cipher cl = cx_cipher sr" "cx_cipher sl = cx_cipher cr'"
        "good_cipher cr (cx_cipher cl)" "good_cipher cr (cx_cipher sl)"
      and st: "cx_srtp_ssrc_states cl = Map.empty" "cx_srtp_ssrc_states sl = Map.empty"
        "cx_srtp_ssrc_states cr' = Map.empty" "cx_srtp_ssrc_states sr = Map.empty"
      and de: "cx_new_srtp_replay_detector cr' = srtp_replay_protection (remote_window rp)"
        "cx_new_srtp_replay_detector sr = srtp_replay_protection (remote_window rp')"
    using peers_match [OF assms(1,3,4), of rp rp'] by (elim exE conjE) rule
  note media_delivered [OF assms(2) ci(3) ci(1) [symmetric] st(1,4) de(2) w(2) assms(7)]
    media_delivered [OF assms(2) ci(4) ci(2) [symmetric] st(2,3) de(1) w(1) assms(8)]
  then show ?thesis using up by (intro exI conjI)
qed

definition demo_hmac :: hmac where
  "demo_hmac = (\<lambda>k m. replicate 32 (sum_list (k @ m)))"

definition demo_peer :: "bool \<Rightarrow> dtls_state" where
  "demo_peer client = (let c = \<lparr>hr_gmt_unix_time = 5, hr_random_bytes = replicate 28 1\<rparr>; s = \<lparr>hr_gmt_unix_time = 6, hr_random_bytes = replicate 28 2\<rparr> in
     \<lparr>ds_local_epoch = 1, ds_local_random = (if client then c else s), ds_remote_random = (if client then s else c),
      ds_master_secret = replicate 48 3, ds_cipher_suite = Some Sha256, ds_srtp_protection_profile = Srtp_Aead_Aes_128_Gcm,
      ds_is_client = client\<rparr>)"

definition demo_packet :: "u16 \<Rightarrow> rtp_packet" where
  "demo_packet q = \<lparr>rp_header = plain_header q 7, rp_payload = [1, 2, 3]\<rparr>"

theorem media_end_to_end_witness:
  "\<exists>cl cr' sl sr. update_srtp_contexts demo_crypto demo_hmac (demo_peer True) \<lparr>rp_dtls = 0, rp_srtp = 0, rp_srtcp = 0\<rparr> = Ok (cl, cr') \<and>
    update_srtp_contexts demo_crypto demo_hmac (demo_peer False) \<lparr>rp_dtls = 0, rp_srtp = 0, rp_srtcp = 0\<rparr> = Ok (sl, sr) \<and>
    session demo_crypto [(demo_packet 65534, True), (demo_packet 65535, False), (demo_packet 2, True)] cl sr =
      [Ok (demo_packet 65534), Ok (demo_packet 2)]"
proof -
  let ?rp = "\<lparr>rp_dtls = 0, rp_srtp = 0, rp_srtcp = 0\<rparr>"
  let ?js = "[(65534, demo_packet 65534, True), (65535, demo_packet 65535, False), (65538, demo_packet 2, True)]"
  have "hmac_ok demo_hmac" by (simp add: hmac_ok_def demo_hmac_def)
  moreover have "peers (demo_peer True) (demo_peer False)" by (simp add: peers_def demo_peer_def Let_def)
  moreover have "stream_packet 7 j (demo_packet (of_nat j))" for j
    by (simp add: stream_packet_def demo_packet_def plain_header_simps rtp_packet_marshal_size_def packet_padding_def)
      (simp add: plain_header_def)
  note pkt = this
  have "(of_nat 65538 :: u16) = 2" by (simp only: of_nat_numeral) (transfer, simp)
  then have "stream_packet 7 65538 (demo_packet 2)" using pkt [of 65538] by (simp only:)
  with pkt [of 65534] pkt [of 65535] have "media_stream 7 ?js" by (simp add: media_stream_def next_of_def)
  moreover have "media_stream 7 []" by (simp add: media_stream_def)
  ultimately show ?thesis
    using media_end_to_end [OF demo_crypto_ok, of demo_hmac "demo_peer True" "demo_peer False" ?rp ?rp 7 ?js 7 "[]"] by auto
qed

end
