(* ===== verification/Spec2Isabelle.thy ===== *)
theory Spec2Isabelle
  imports Sctp_Packet_Safety Sctp_Transmit Sctp_Endpoint Srtp_Keys
begin

text \<open>
A verification library for the transports of a WebRTC stack in Rust (\<open>src/rust-webrtc/rtc\<close>): SCTP, which
carries data channels (\<open>rtc-sctp\<close>), and SRTP, which carries media (\<open>rtc-srtp\<close>, with the RTP and RTCP
headers of \<open>rtc-rtp\<close> and \<open>rtc-rtcp\<close>, the replay detectors of \<open>rtc-shared\<close> and the key exporter of \<open>rtc-dtls\<close>).
Paths below are relative to \<open>src/rust-webrtc/rtc\<close>.

\<^bold>\<open>How the code is modelled.\<close> The stack is written without I/O: every operation is a function of a state and
its arguments. A struct is a \<open>record\<close>, an enum a \<open>datatype\<close>, a method a function that returns its result and
the new state. Integers keep their width and wrap as in a release build; \<open>usize\<close> is \<open>nat\<close>, since the sizes
are those of buffers. Early returns and panics are values: \<open>Fail e\<close> and \<open>panic\<close> of the type \<open>'a result\<close>
(\<open>Rtc_Prelude\<close>, \<open>Rtc_Error\<close>), so that freedom from panics can be stated. Hash maps are maps or association
lists. Clocks and random numbers are arguments. Functions of crates outside the repository are parameters:
\<open>crc32c_append\<close> in \<open>Sctp_Packet\<close>, the block and stream ciphers, MAC and AEAD in the record \<open>crypto\<close>
(\<open>Srtp_Cipher\<close>), HMAC-SHA256 in \<open>Srtp_Keys\<close>, the key choice of the slab in \<open>Sctp_Endpoint\<close>. What the code
relies on is named (locale \<open>crc32c_append\<close>, \<open>crypto_ok\<close>, \<open>crypto_seals\<close>, \<open>hmac_ok\<close>), and every property with
such a hypothesis has an instance with concrete functions (\<open>demo_crypto\<close>, \<open>demo_hmac\<close>).

\<^bold>\<open>SCTP.\<close> A datagram is parsed by the endpoint, routed by its verification tag to an association, and handled
chunk by chunk; user data is reassembled per stream. In the other direction a write is cut into chunks, which
wait in the pending queue, move to the in-flight queue as the windows allow, are bundled into packets and
retransmitted until a SACK releases them.

\<^item> \<open>Sctp_Serial\<close> (\<open>rtc-sctp/src/util.rs\<close>): serial number comparisons. They depend on the wrapped distance
  only (locale \<open>serial_number\<close>, interpreted at both widths).
\<^item> \<open>Sctp_Param\<close>, \<open>Sctp_Chunk\<close> (\<open>param\<close>, \<open>chunk\<close>): one definition per parser and serialiser.
  \<open>Sctp_Chunk_Codec\<close> shows that parsing inverts serialisation (locale \<open>wire_codec\<close>).
\<^item> \<open>Sctp_Packet\<close> (\<open>packet.rs\<close>): the packet with its checksum and the two-stage parser of the endpoint.
  \<open>Sctp_Packet_Safety\<close>: round trip of packets, agreement of the two parsers, and exactly which bytes make
  the packet parser panic (a reached error cause that is overlong); the endpoint's parser also panics on a bare
  INIT header.
\<^item> \<open>Sctp_Pending\<close>, \<open>Sctp_Payload\<close>, \<open>Sctp_Reassembly\<close> (\<open>queue\<close>): the three queues with their invariants.
  Fragments of a message leave contiguously; gap blocks report exactly what is queued, except across a wrap of
  the TSN; a message is put together from its fragments in any order of arrival; ordered messages are delivered
  in order.
\<^item> \<open>Sctp_Timer\<close> (\<open>association/timer.rs\<close>): back-off and the RTO estimator; its double is a rational rounded to
  53 bits. \<open>Sctp_Stream\<close> (\<open>association/stream.rs\<close>): fragmentation of writes and what the peer makes of it.
\<^item> \<open>Sctp_Association\<close>, \<open>Sctp_Inbound\<close>, \<open>Sctp_Sack\<close>, \<open>Sctp_Dispatch\<close>, \<open>Sctp_Outbound\<close>
  (\<open>association/mod.rs\<close>): the state, the application interface, every chunk handler, the timers and all that is
  sent. \<open>Sctp_Sender\<close> and \<open>Sctp_Transmit\<close> hold the invariants: a SACK inside the window in flight releases
  exactly what it acknowledges and one beyond it fails; new data stays within the windows and is sent until one
  of them is full; bundling neither loses nor reorders; an expired timer retransmits the oldest chunk;
  \<open>poll_transmit\<close> returns.
\<^item> \<open>Sctp_Endpoint\<close> (\<open>endpoint/mod.rs\<close>): the routing tables refine one map from verification tags to
  associations; the effect of a shutdown on routing.

\<^bold>\<open>SRTP.\<close> After the DTLS handshake each end derives the keys of both directions and makes a context for
sending and one for receiving. A context keeps, per source, the packet index that extends the 16-bit sequence
number, and a replay detector.

\<^item> \<open>Replay_Detector\<close> (\<open>rtc-shared/src/replay_detector\<close>): both detectors refine an abstract window
  (locale \<open>replay_contract\<close>, interpreted as \<open>sw\<close> and \<open>wd\<close>) for the window sizes for which the bit shift is right,
  and accept a replay for the others.
\<^item> \<open>Rtp_Header\<close> (\<open>rtc-rtp/src/header.rs\<close>, \<open>packet/mod.rs\<close>), \<open>Rtcp_Header\<close> (\<open>rtc-rtcp/src/header.rs\<close>): round
  trips, freedom from panics, and the operations on extensions, which keep headers well formed.
\<^item> \<open>Srtp_Cipher\<close> (\<open>rtc-srtp/src/cipher\<close>, \<open>key_derivation.rs\<close>, \<open>protection_profile.rs\<close>): AES-CM with HMAC and
  AES-GCM satisfy one contract (locale \<open>srtp_cipher\<close>, interpreted as \<open>cm\<close>, \<open>gcm\<close> and \<open>any\<close>); counter blocks of
  different packets never overlap.
\<^item> \<open>Srtp_Context\<close> (\<open>rtc-srtp/src/context\<close>, \<open>option.rs\<close>): the guess of the rollover counter is exact; no
  sequence of datagrams makes a receiver panic; forged RTCP with a clear encryption flag is accepted; a forged
  first packet can silence a source.
\<^item> \<open>Srtp_Keys\<close> (\<open>rtc-srtp/src/config.rs\<close>, \<open>rtc-dtls/src/prf\<close>, \<open>rtc-dtls/src/state.rs\<close>,
  \<open>rtc/src/peer_connection/handler/dtls.rs\<close> and the RTP path of \<open>handler/srtp.rs\<close>): the two ends of a handshake
  make matching contexts, and media packets cross from one to the other unchanged.

\<^bold>\<open>Loops, bounds and fuel.\<close> Loops whose progress is evident are structural or have a termination proof.
\<open>packetize_loop\<close>, \<open>pop_pending_loop\<close>, \<open>retransmit_loop\<close>, \<open>fast_retransmit_loop\<close> and \<open>new_aid\<close> can run forever
and are \<open>partial_function (option)\<close>; the lemmas \<open>packetize_loop_total\<close>, \<open>pop_pending_loop_ok\<close>,
\<open>retransmit_loop_ok\<close>, \<open>fast_retransmit_loop_ok\<close> and \<open>new_aid_returns\<close> show when they return.
\<open>advance_abandoned\<close>, the scan over the abandoned chunks in flight, takes the number of chunks plus one as fuel;
\<open>advance_abandoned_stops\<close> shows that more of it changes nothing. The iteration count of the TLS
pseudo-random function is computed in floating point by the code and is exact below 2^53.

\<^bold>\<open>Not modelled.\<close> The DTLS handshake and record layer, which rest on certificate and curve crates; only the
exporter that SRTP uses is here. Report, feedback and compound RTCP packets, RTP payload formats, packetizers
and extension bodies: SRTP treats them as bytes. Data channel messages, which travel as user data of SCTP.
ICE, STUN, TURN, mDNS and SDP, interceptors and media files, and the peer connection that ties the crates
together: they share no state with the transports beyond the calls that are modelled. The OpenSSL variant of
the AES-CM cipher, behind a feature that is off by default. The asynchronous wrapper, the foreign function
interface and the Java modules, which are I/O and glue. Display and logging code, ECN marks and statistics
that are only reported are left out of the modelled parts.
\<close>

end
